(* ===== verification/Prelude.thy ===== *)
theory Prelude
  imports Main "HOL-Library.Word" "HOL-Library.Code_Target_Nat"
begin

text \<open>
  Shared vocabulary of the development: the machine integers of the program as words, byte
  buffers and strings, the error type of \<^verbatim>\<open>ec-core/src/error.rs\<close>, and the generic lemmas on
  lists, options and words that several components use. Collections: \<open>rstr_simps\<close> (facts on
  strings), \<open>wire_simps\<close> (facts on byte encodings), \<open>io_simps\<close> (facts on socket operations)
  and \<open>route_simps\<close> (facts on the rule index).
\<close>

named_theorems rstr_simps
named_theorems wire_simps
named_theorems io_simps
named_theorems route_simps

unbundle bit_operations_syntax

section \<open>Machine integers, bytes, strings\<close>

type_synonym u8 = "8 word"
type_synonym u16 = "16 word"
type_synonym u32 = "32 word"
type_synonym u64 = "64 word"
type_synonym bytes = "8 word list"

text \<open>
  A Rust \<^verbatim>\<open>String\<close> is its UTF-8 encoding, one \<open>char\<close> per byte: \<^verbatim>\<open>len\<close> counts bytes, and every
  operation the program uses (search for ASCII patterns, splitting, ASCII lower case,
  trimming) is an operation on this byte sequence. Byte buffers are \<open>bytes\<close>;
  \<open>bytes_of_str\<close> is \<^verbatim>\<open>as_bytes\<close>.
\<close>

definition byte_of_char :: "char \<Rightarrow> u8" where
  "byte_of_char c = word_of_nat (of_char c)"

definition char_of_byte :: "u8 \<Rightarrow> char" where
  "char_of_byte b = char_of (unat b)"

definition bytes_of_str :: "string \<Rightarrow> bytes" where
  "bytes_of_str s = map byte_of_char s"

definition str_of_bytes :: "bytes \<Rightarrow> string" where
  "str_of_bytes bs = map char_of_byte bs"

lemma char_of_byte_of_char [simp]: "char_of_byte (byte_of_char c) = c"
proof -
  have "(of_char c :: nat) < 256" by simp
  then show ?thesis
    by (simp add: char_of_byte_def byte_of_char_def unat_of_nat)
qed

lemma byte_of_char_of_byte [simp]: "byte_of_char (char_of_byte b) = b"
proof -
  have "unat b < 256" using unsigned_less [of b, where ?'a = nat] by simp
  then show ?thesis
    by (simp add: char_of_byte_def byte_of_char_def)
qed

lemma str_of_bytes_of_str [simp]: "str_of_bytes (bytes_of_str s) = s"
  by (simp add: str_of_bytes_def bytes_of_str_def comp_def)

lemma bytes_of_str_of_bytes [simp]: "bytes_of_str (str_of_bytes bs) = bs"
  by (simp add: str_of_bytes_def bytes_of_str_def comp_def)

lemma length_bytes_of_str [simp]: "length (bytes_of_str s) = length s"
  by (simp add: bytes_of_str_def)

lemma length_str_of_bytes [simp]: "length (str_of_bytes bs) = length bs"
  by (simp add: str_of_bytes_def)

lemma str_of_bytes_append [simp]: "str_of_bytes (xs @ ys) = str_of_bytes xs @ str_of_bytes ys"
  by (simp add: str_of_bytes_def)

lemma bytes_of_str_append [simp]: "bytes_of_str (xs @ ys) = bytes_of_str xs @ bytes_of_str ys"
  by (simp add: bytes_of_str_def)

end
