(* ===== verification/RustStr.thy ===== *)
theory RustStr
  imports Prelude
begin

text \<open>
  The operations of Rust's \<^verbatim>\<open>str\<close>, \<^verbatim>\<open>String\<close> and integer parsing that the program uses, on UTF-8
  byte strings: prefixes, search, splitting, trimming of Unicode white space, ASCII lower
  case, decimal and hexadecimal printing, integer parsing, UTF-8 validation and lossy
  decoding. They are the standard library's documented behaviour, written out; they model no
  file of the repository, so no entry of the map names them.
\<close>

section \<open>Prefixes and search\<close>

definition starts_with :: "string \<Rightarrow> string \<Rightarrow> bool" where
  "starts_with p s \<longleftrightarrow> take (length p) s = p"

definition strip_prefix :: "string \<Rightarrow> string \<Rightarrow> string option" where
  "strip_prefix p s = (if starts_with p s then Some (drop (length p) s) else None)"

fun find_sub :: "string \<Rightarrow> string \<Rightarrow> nat option" where
  "find_sub p [] = (if p = [] then Some 0 else None)"
| "find_sub p (c # s) =
     (if starts_with p (c # s) then Some 0 else map_option Suc (find_sub p s))"

fun rfind_sub :: "string \<Rightarrow> string \<Rightarrow> nat option" where
  "rfind_sub p [] = (if p = [] then Some 0 else None)"
| "rfind_sub p (c # s) =
     (case rfind_sub p s of
        Some i \<Rightarrow> Some (Suc i)
      | None \<Rightarrow> if starts_with p (c # s) then Some 0 else None)"

definition str_contains :: "string \<Rightarrow> string \<Rightarrow> bool" where
  "str_contains p s \<longleftrightarrow> find_sub p s \<noteq> None"

definition split_once :: "string \<Rightarrow> string \<Rightarrow> (string \<times> string) option" where
  "split_once p s =
     map_option (\<lambda>i. (take i s, drop (i + length p) s)) (find_sub p s)"

definition rsplit_once :: "string \<Rightarrow> string \<Rightarrow> (string \<times> string) option" where
  "rsplit_once p s =
     map_option (\<lambda>i. (take i s, drop (i + length p) s)) (rfind_sub p s)"

fun split_char :: "char \<Rightarrow> string \<Rightarrow> string list" where
  "split_char d [] = [[]]"
| "split_char d (c # s) =
     (if c = d then [] # split_char d s
      else (case split_char d s of [] \<Rightarrow> [[c]] | t # ts \<Rightarrow> (c # t) # ts))"

lemma starts_with_iff: "starts_with p s \<longleftrightarrow> (\<exists>r. s = p @ r)"
  by (auto simp: starts_with_def) (metis append_take_drop_id)

lemma starts_with_length: "starts_with p s \<Longrightarrow> length p \<le> length s"
  by (auto simp: starts_with_iff)

lemma starts_with_append [simp]: "starts_with p (p @ s)"
  by (simp add: starts_with_def)

lemma starts_with_Nil [simp]: "starts_with [] s"
  by (simp add: starts_with_def)

lemma starts_with_Cons [simp]:
  "starts_with (c # p) (d # s) \<longleftrightarrow> c = d \<and> starts_with p s"
  "\<not> starts_with (c # p) []"
  by (auto simp: starts_with_def)

lemma strip_prefix_Some_iff: "strip_prefix p s = Some r \<longleftrightarrow> s = p @ r"
proof
  assume "strip_prefix p s = Some r"
  then show "s = p @ r"
    by (auto simp: strip_prefix_def starts_with_iff split: if_splits)
qed (simp add: strip_prefix_def)

lemma strip_prefix_append [simp]: "strip_prefix p (p @ r) = Some r"
  by (simp add: strip_prefix_Some_iff)

lemma find_sub_Some:
  "find_sub p s = Some i \<Longrightarrow> i + length p \<le> length s \<and> s = take i s @ p @ drop (i + length p) s"
proof (induction p s arbitrary: i rule: find_sub.induct)
  case (2 p c s)
  show ?case
  proof (cases "starts_with p (c # s)")
    case True
    with "2.prems" show ?thesis
      using starts_with_length [OF True] by (auto simp: starts_with_iff)
  next
    case False
    with "2.prems" obtain j where "find_sub p s = Some j" "i = Suc j" by auto
    with "2.IH" [OF False] show ?thesis by fastforce
  qed
qed (auto split: if_splits)

lemma rfind_sub_Some:
  "rfind_sub p s = Some i \<Longrightarrow> i + length p \<le> length s \<and> s = take i s @ p @ drop (i + length p) s"
proof (induction s arbitrary: i)
  case (Cons c s)
  show ?case
  proof (cases "rfind_sub p s")
    case None
    with Cons.prems have "starts_with p (c # s)" "i = 0" by (auto split: if_splits)
    then show ?thesis
      using starts_with_length [of p "c # s"] by (auto simp: starts_with_iff)
  next
    case (Some j)
    with Cons.prems have "i = Suc j" by simp
    with Cons.IH [OF Some] show ?thesis by fastforce
  qed
qed (auto split: if_splits)

lemma split_once_Some: "split_once p s = Some (a, b) \<Longrightarrow> s = a @ p @ b"
  by (auto simp: split_once_def dest: find_sub_Some)

lemma rsplit_once_Some: "rsplit_once p s = Some (a, b) \<Longrightarrow> s = a @ p @ b"
  by (auto simp: rsplit_once_def dest: rfind_sub_Some)

lemma find_sub_char: "find_sub [d] s = (if d \<in> set s then Some (length (takeWhile (\<lambda>c. c \<noteq> d) s)) else None)"
  by (induction s) auto

lemma rfind_sub_char_None: "rfind_sub [d] s = None \<longleftrightarrow> d \<notin> set s"
  by (induction s) (auto split: option.splits)

lemma rfind_sub_char_append: "d \<notin> set b \<Longrightarrow> rfind_sub [d] (a @ d # b) = Some (length a)"
proof (induction a)
  case Nil
  then have "rfind_sub [d] b = None" by (simp add: rfind_sub_char_None)
  then show ?case by simp
qed simp

lemma split_once_char:
  "split_once [d] s =
     (if d \<in> set s then Some (takeWhile (\<lambda>c. c \<noteq> d) s, tl (dropWhile (\<lambda>c. c \<noteq> d) s)) else None)"
proof -
  have "take (length (takeWhile (\<lambda>c. c \<noteq> d) s)) s = takeWhile (\<lambda>c. c \<noteq> d) s"
    by (simp add: takeWhile_eq_take [symmetric])
  moreover have "drop (Suc (length (takeWhile (\<lambda>c. c \<noteq> d) s))) s = tl (dropWhile (\<lambda>c. c \<noteq> d) s)"
    by (simp add: dropWhile_eq_drop drop_Suc tl_drop)
  ultimately show ?thesis by (simp add: split_once_def find_sub_char)
qed

lemma split_once_char_append: "d \<notin> set a \<Longrightarrow> split_once [d] (a @ d # b) = Some (a, b)"
  by (auto simp: split_once_char takeWhile_append2 dropWhile_append2 takeWhile_tail dropWhile_append)

lemma split_once_char_None [simp]: "split_once [d] s = None \<longleftrightarrow> d \<notin> set s"
  by (simp add: split_once_char)

lemma rsplit_once_char_append: "d \<notin> set b \<Longrightarrow> rsplit_once [d] (a @ d # b) = Some (a, b)"
  by (simp add: rsplit_once_def rfind_sub_char_append)

lemma rsplit_once_char_None: "rsplit_once [d] s = None \<longleftrightarrow> d \<notin> set s"
  by (simp add: rsplit_once_def rfind_sub_char_None)

lemma rsplit_once_char_last:
  "rsplit_once [d] s = Some (a, b) \<Longrightarrow> d \<notin> set b"
proof (induction s arbitrary: a b)
  case (Cons c s)
  show ?case
  proof (cases "rfind_sub [d] s")
    case None
    with Cons.prems show ?thesis
      by (auto simp: rsplit_once_def rfind_sub_char_None split: if_splits)
  next
    case (Some j)
    with Cons.prems Cons.IH [of "take j s" "drop (Suc j) s"] show ?thesis
      by (auto simp: rsplit_once_def)
  qed
qed (simp add: rsplit_once_def)

lemma split_char_nonempty [simp]: "split_char d s \<noteq> []"
  by (induction s) (auto split: list.splits)

lemma split_char_pieces: "t \<in> set (split_char d s) \<Longrightarrow> d \<notin> set t"
  by (induction s arbitrary: t) (auto split: list.splits if_splits)

lemma split_char_hd: "hd (split_char d s) = takeWhile (\<lambda>c. c \<noteq> d) s"
proof (induction s)
  case (Cons c s)
  then show ?case by (cases "split_char d s") auto
qed simp

section \<open>White space and trimming\<close>

text \<open>
  The UTF-8 encodings of the characters with the Unicode property \<^verbatim>\<open>White_Space\<close>
  (\<^verbatim>\<open>char::is_whitespace\<close>). In valid UTF-8 an encoding can occur only where a character starts, so
  stripping encodings from either end of the byte string is stripping characters.
\<close>

definition ws_encodings :: "string list" where
  "ws_encodings =
     [[CHR 0x20], [CHR 0x09], [CHR 0x0A], [CHR 0x0B], [CHR 0x0C], [CHR 0x0D],
      [CHR 0xC2, CHR 0x85], [CHR 0xC2, CHR 0xA0], [CHR 0xE1, CHR 0x9A, CHR 0x80],
      [CHR 0xE2, CHR 0x80, CHR 0x80], [CHR 0xE2, CHR 0x80, CHR 0x81],
      [CHR 0xE2, CHR 0x80, CHR 0x82], [CHR 0xE2, CHR 0x80, CHR 0x83],
      [CHR 0xE2, CHR 0x80, CHR 0x84], [CHR 0xE2, CHR 0x80, CHR 0x85],
      [CHR 0xE2, CHR 0x80, CHR 0x86], [CHR 0xE2, CHR 0x80, CHR 0x87],
      [CHR 0xE2, CHR 0x80, CHR 0x88], [CHR 0xE2, CHR 0x80, CHR 0x89],
      [CHR 0xE2, CHR 0x80, CHR 0x8A], [CHR 0xE2, CHR 0x80, CHR 0xA8],
      [CHR 0xE2, CHR 0x80, CHR 0xA9], [CHR 0xE2, CHR 0x80, CHR 0xAF],
      [CHR 0xE2, CHR 0x81, CHR 0x9F], [CHR 0xE3, CHR 0x80, CHR 0x80]]"

definition ws_len :: "string list \<Rightarrow> string \<Rightarrow> nat" where
  "ws_len ws s = (case find (\<lambda>w. starts_with w s) ws of None \<Rightarrow> 0 | Some w \<Rightarrow> length w)"

lemma ws_len_pos: "ws_len ws s \<noteq> 0 \<Longrightarrow> s \<noteq> []"
  by (auto simp: ws_len_def starts_with_def find_Some_iff split: option.splits)

lemma ws_len_shrinks: "0 < ws_len ws s \<Longrightarrow> length s - ws_len ws s < length s"
  using ws_len_pos [of ws s] by simp

function strip_ws :: "string list \<Rightarrow> string \<Rightarrow> string" where
  "strip_ws ws s = (if ws_len ws s = 0 then s else strip_ws ws (drop (ws_len ws s) s))"
  by pat_completeness auto
termination
  by (relation "measure (\<lambda>(ws, s). length s)") (simp_all add: ws_len_shrinks)

declare strip_ws.simps [simp del]

definition trim_start :: "string \<Rightarrow> string" where
  "trim_start s = strip_ws ws_encodings s"

definition trim_end :: "string \<Rightarrow> string" where
  "trim_end s = rev (strip_ws (map rev ws_encodings) (rev s))"

definition trim :: "string \<Rightarrow> string" where
  "trim s = trim_end (trim_start s)"

lemma ws_len_strip [simp]: "ws_len ws (strip_ws ws s) = 0"
  by (induction ws s rule: strip_ws.induct) (subst strip_ws.simps, simp)

lemma strip_ws_id: "ws_len ws s = 0 \<Longrightarrow> strip_ws ws s = s"
  by (subst strip_ws.simps) simp

lemma strip_ws_idem [simp]: "strip_ws ws (strip_ws ws s) = strip_ws ws s"
  by (rule strip_ws_id) simp

lemma strip_ws_suffix: "\<exists>p. s = p @ strip_ws ws s"
proof (induction ws s rule: strip_ws.induct)
  case (1 ws s)
  show ?case
  proof (cases "ws_len ws s = 0")
    case False
    with 1 obtain p where p: "drop (ws_len ws s) s = p @ strip_ws ws (drop (ws_len ws s) s)"
      by blast
    have "s = take (ws_len ws s) s @ drop (ws_len ws s) s" by simp
    also have "\<dots> = (take (ws_len ws s) s @ p) @ strip_ws ws (drop (ws_len ws s) s)"
      using p by simp
    also have "strip_ws ws (drop (ws_len ws s) s) = strip_ws ws s"
      using False by (subst (2) strip_ws.simps) simp
    finally show ?thesis by blast
  qed (simp add: strip_ws_id)
qed

lemma trim_end_prefix: "\<exists>r. s = trim_end s @ r"
proof -
  obtain p where "rev s = p @ strip_ws (map rev ws_encodings) (rev s)"
    using strip_ws_suffix by blast
  then have "rev (rev s) = trim_end s @ rev p"
    by (metis rev_append trim_end_def)
  then show ?thesis by auto
qed

lemma trim_end_idem [simp]: "trim_end (trim_end s) = trim_end s"
  by (simp add: trim_end_def)

lemma ws_len_0_iff: "[] \<notin> set ws \<Longrightarrow> ws_len ws s = 0 \<longleftrightarrow> (\<forall>w \<in> set ws. \<not> starts_with w s)"
  by (auto simp: ws_len_def find_Some_iff find_None_iff split: option.splits)
    (metis nth_mem)+

lemma ws_encodings_nonempty [simp]: "[] \<notin> set ws_encodings" "[] \<notin> set (map rev ws_encodings)"
  by (auto simp: ws_encodings_def)

lemma trim_start_trim_end: "ws_len ws_encodings s = 0 \<Longrightarrow> ws_len ws_encodings (trim_end s) = 0"
proof -
  assume a: "ws_len ws_encodings s = 0"
  obtain r where "s = trim_end s @ r" using trim_end_prefix by blast
  then have "starts_with w (trim_end s) \<Longrightarrow> starts_with w s" for w
    by (metis append.assoc starts_with_iff)
  with a show ?thesis by (auto simp: ws_len_0_iff)
qed

lemma trim_idem [simp, rstr_simps]: "trim (trim s) = trim s"
  unfolding trim_def trim_start_def
  by (simp add: strip_ws_id trim_start_trim_end)

lemma trim_Nil [simp]: "trim [] = []"
  by (simp add: trim_def trim_start_def trim_end_def strip_ws_id ws_len_0_iff ws_encodings_def)

text \<open>Printable ASCII characters are not white space, so such strings are their own trim.\<close>

definition is_graph :: "char \<Rightarrow> bool" where
  "is_graph c \<longleftrightarrow> 33 \<le> (of_char c :: nat) \<and> (of_char c :: nat) < 127"

lemma ws_ends_not_graph:
  "w \<in> set ws_encodings \<Longrightarrow> \<not> is_graph (hd w)"
  "w \<in> set ws_encodings \<Longrightarrow> \<not> is_graph (last w)"
  by (auto simp: ws_encodings_def is_graph_def)

lemma ws_len_graph:
  assumes "s = [] \<or> is_graph (hd s)"
  shows "ws_len ws_encodings s = 0" and "ws_len (map rev ws_encodings) s = 0"
proof -
  have no: "\<not> starts_with w s" if "w \<noteq> []" "\<not> is_graph (hd w)" for w
    using that assms by (cases w; cases s) auto
  show "ws_len ws_encodings s = 0"
    using no ws_ends_not_graph(1) by (subst ws_len_0_iff) (auto, metis ws_encodings_nonempty(1))
  have "\<not> starts_with (rev w) s" if "w \<in> set ws_encodings" for w
    using no [of "rev w"] ws_ends_not_graph(2) [OF that] that ws_encodings_nonempty(1)
    by (metis hd_rev rev_is_Nil_conv)
  then show "ws_len (map rev ws_encodings) s = 0"
    by (subst ws_len_0_iff) auto
qed

lemma trim_graph_ends:
  "s = [] \<or> is_graph (hd s) \<and> is_graph (last s) \<Longrightarrow> trim s = s"
  by (auto simp: trim_def trim_start_def trim_end_def strip_ws_id ws_len_graph hd_rev)

lemma trim_graph: "list_all is_graph s \<Longrightarrow> trim s = s"
  by (rule trim_graph_ends) (cases s, auto simp: list_all_iff)

text \<open>\<^verbatim>\<open>lines().next()\<close> and \<^verbatim>\<open>split_whitespace\<close>.\<close>

definition crlf :: string where "crlf = [CHR 0x0D, CHR 0x0A]"

definition first_line :: "string \<Rightarrow> string" where
  "first_line s =
     (let l = takeWhile (\<lambda>c. c \<noteq> CHR 0x0A) s
      in if CHR 0x0A \<in> set s \<and> l \<noteq> [] \<and> last l = CHR 0x0D then butlast l else l)"

fun take_word :: "string \<Rightarrow> string \<times> string" where
  "take_word [] = ([], [])"
| "take_word (c # s) =
     (if ws_len ws_encodings (c # s) \<noteq> 0 then ([], c # s)
      else (case take_word s of (w, r) \<Rightarrow> (c # w, r)))"

definition second_word :: "string \<Rightarrow> string option" where
  "second_word s =
     (case take_word (trim_start s) of (w1, r1) \<Rightarrow>
        if w1 = [] then None
        else (case take_word (trim_start r1) of (w2, r2) \<Rightarrow>
          if w2 = [] then None else Some w2))"

section \<open>ASCII case\<close>

definition ascii_lower_char :: "char \<Rightarrow> char" where
  "ascii_lower_char c =
     (if 65 \<le> (of_char c :: nat) \<and> (of_char c :: nat) \<le> 90 then char_of (of_char c + 32 :: nat) else c)"

definition to_ascii_lowercase :: "string \<Rightarrow> string" where
  "to_ascii_lowercase s = map ascii_lower_char s"

definition trim_end_dots :: "string \<Rightarrow> string" where
  "trim_end_dots s = rev (dropWhile (\<lambda>c. c = CHR ''.'') (rev s))"

lemma ascii_lower_char_idem [simp]: "ascii_lower_char (ascii_lower_char c) = ascii_lower_char c"
proof (cases "65 \<le> (of_char c :: nat) \<and> (of_char c :: nat) \<le> 90")
  case True
  then have "of_char (char_of (of_char c + 32 :: nat)) = (of_char c + 32 :: nat)"
    by simp
  with True show ?thesis by (simp add: ascii_lower_char_def)
qed (auto simp: ascii_lower_char_def)

lemma to_ascii_lowercase_idem [simp]:
  "to_ascii_lowercase (to_ascii_lowercase s) = to_ascii_lowercase s"
  by (simp add: to_ascii_lowercase_def comp_def)

section \<open>Numbers\<close>

function dec_of_nat :: "nat \<Rightarrow> string" where
  "dec_of_nat n =
     (if n < 10 then [char_of (48 + n)] else dec_of_nat (n div 10) @ [char_of (48 + n mod 10)])"
  by pat_completeness auto
termination
  by (relation "measure id") auto

declare dec_of_nat.simps [simp del]

definition dec_of_int :: "int \<Rightarrow> string" where
  "dec_of_int i = (if i < 0 then CHR ''-'' # dec_of_nat (nat (- i)) else dec_of_nat (nat i))"

definition hex_digit :: "nat \<Rightarrow> char" where
  "hex_digit d = (if d < 10 then char_of (48 + d) else char_of (87 + d))"

text \<open>\<^verbatim>\<open>{:02x}\<close> on a byte, and \<^verbatim>\<open>{:x}\<close>.\<close>

definition hex2 :: "u8 \<Rightarrow> string" where
  "hex2 b = [hex_digit (unat b div 16), hex_digit (unat b mod 16)]"

function hex_of_nat :: "nat \<Rightarrow> string" where
  "hex_of_nat n =
     (if n < 16 then [hex_digit n] else hex_of_nat (n div 16) @ [hex_digit (n mod 16)])"
  by pat_completeness auto
termination
  by (relation "measure id") auto

declare hex_of_nat.simps [simp del]

text \<open>
  \<^verbatim>\<open>char::to_digit\<close>; \<open>int_digits\<close> is the digit loop of \<^verbatim>\<open>from_str_radix(10)\<close> with the largest
  magnitude as its bound. The error texts are those of \<^verbatim>\<open>ParseIntError\<close>.
\<close>

definition to_digit :: "nat \<Rightarrow> char \<Rightarrow> nat option" where
  "to_digit radix c =
     (let n = of_char c;
          d = (if 48 \<le> n \<and> n \<le> 57 then n - 48
               else if 97 \<le> n \<and> n \<le> 122 then n - 87
               else if 65 \<le> n \<and> n \<le> 90 then n - 55 else 36)
      in if d < radix then Some d else None)"

fun int_digits :: "string \<Rightarrow> nat \<Rightarrow> nat \<Rightarrow> string \<Rightarrow> string + nat" where
  "int_digits ovf lim acc [] = Inr acc"
| "int_digits ovf lim acc (c # s) =
     (case to_digit 10 c of
        None \<Rightarrow> Inl ''invalid digit found in string''
      | Some d \<Rightarrow> if lim < 10 * acc + d then Inl ovf else int_digits ovf lim (10 * acc + d) s)"

definition parse_uint :: "nat \<Rightarrow> string \<Rightarrow> string + nat" where
  "parse_uint w s =
     (if s = [] then Inl ''cannot parse integer from empty string''
      else if s = ''+'' \<or> s = ''-'' then Inl ''invalid digit found in string''
      else int_digits ''number too large to fit in target type'' (2 ^ w - 1) 0
             (if hd s = CHR ''+'' then tl s else s))"

definition parse_i32 :: "string \<Rightarrow> string + int" where
  "parse_i32 s =
     (if s = [] then Inl ''cannot parse integer from empty string''
      else if s = ''+'' \<or> s = ''-'' then Inl ''invalid digit found in string''
      else if hd s = CHR ''-'' then
        map_sum id (\<lambda>n. - int n)
          (int_digits ''number too small to fit in target type'' (2 ^ 31) 0 (tl s))
      else
        map_sum id int
          (int_digits ''number too large to fit in target type'' (2 ^ 31 - 1) 0
             (if hd s = CHR ''+'' then tl s else s)))"

definition ok :: "'e + 'a \<Rightarrow> 'a option" where
  "ok r = (case r of Inl e \<Rightarrow> None | Inr a \<Rightarrow> Some a)"

lemma ok_simps [simp]: "ok (Inl e) = None" "ok (Inr a) = Some a"
  by (simp_all add: ok_def)

lemma ok_Some_iff [simp]: "ok r = Some a \<longleftrightarrow> r = Inr a"
  by (cases r) auto

definition parse_u8 :: "string \<Rightarrow> u8 option" where
  "parse_u8 s = map_option word_of_nat (ok (parse_uint 8 s))"

definition parse_u16 :: "string \<Rightarrow> u16 option" where
  "parse_u16 s = map_option word_of_nat (ok (parse_uint 16 s))"

abbreviation dec_u16 :: "u16 \<Rightarrow> string" where
  "dec_u16 p \<equiv> dec_of_nat (unat p)"

lemma to_digit_dec [simp]: "d < 10 \<Longrightarrow> to_digit 10 (char_of (48 + d)) = Some d"
  by (simp add: to_digit_def)

lemma dec_of_nat_nonempty [simp]: "dec_of_nat n \<noteq> []"
  by (subst dec_of_nat.simps) simp

lemma dec_of_nat_digits: "c \<in> set (dec_of_nat n) \<Longrightarrow> \<exists>d < 10. c = char_of (48 + d :: nat)"
proof (induction n rule: dec_of_nat.induct)
  case (1 n)
  show ?case
  proof (cases "n < 10")
    case True
    with "1.prems" show ?thesis by (subst (asm) dec_of_nat.simps) auto
  next
    case False
    with "1.prems" have "c \<in> set (dec_of_nat (n div 10)) \<or> c = char_of (48 + n mod 10)"
      by (subst (asm) dec_of_nat.simps) auto
    moreover have "n mod 10 < 10" by simp
    ultimately show ?thesis using "1.IH" [OF False] by blast
  qed
qed

lemma digit_is_graph: "d < 10 \<Longrightarrow> is_graph (char_of (48 + d :: nat))"
  by (simp add: is_graph_def)

lemma dec_of_nat_graph: "list_all is_graph (dec_of_nat n)"
  by (auto simp: list_all_iff dest!: dec_of_nat_digits intro: digit_is_graph)

lemma dec_of_nat_not_digit:
  "of_char c < (48 :: nat) \<or> 57 < (of_char c :: nat) \<Longrightarrow> c \<notin> set (dec_of_nat n)"
  by (auto dest!: dec_of_nat_digits)

lemma int_digits_append:
  "int_digits ovf lim acc (xs @ ys) =
     (case int_digits ovf lim acc xs of Inl e \<Rightarrow> Inl e | Inr a \<Rightarrow> int_digits ovf lim a ys)"
  by (induction ovf lim acc xs rule: int_digits.induct) (auto split: option.splits)

lemma int_digits_dec: "n \<le> lim \<Longrightarrow> int_digits ovf lim 0 (dec_of_nat n) = Inr n"
proof (induction n rule: dec_of_nat.induct)
  case (1 n)
  show ?case
  proof (cases "n < 10")
    case True
    then show ?thesis using "1.prems" by (subst dec_of_nat.simps) simp
  next
    case False
    have "int_digits ovf lim 0 (dec_of_nat (n div 10)) = Inr (n div 10)"
      using "1.IH" [OF False] "1.prems" by simp
    with False "1.prems" show ?thesis
      by (subst dec_of_nat.simps) (simp add: int_digits_append)
  qed
qed

lemma hd_dec_of_nat: "\<exists>d < 10. hd (dec_of_nat n) = char_of (48 + d :: nat)"
  by (rule dec_of_nat_digits) (rule hd_in_set, simp)

lemma dec_of_nat_not_sign:
  "hd (dec_of_nat n) \<noteq> CHR ''+''" "hd (dec_of_nat n) \<noteq> CHR ''-''"
  "dec_of_nat n \<noteq> ''+''" "dec_of_nat n \<noteq> ''-''"
proof -
  obtain d :: nat where d: "d < 10" "hd (dec_of_nat n) = char_of (48 + d)"
    using hd_dec_of_nat by blast
  have "(of_char (CHR ''+'') :: nat) = 43" "(of_char (CHR ''-'') :: nat) = 45" by simp_all
  moreover have "(of_char (hd (dec_of_nat n)) :: nat) = 48 + d" using d by simp
  ultimately show h: "hd (dec_of_nat n) \<noteq> CHR ''+''" "hd (dec_of_nat n) \<noteq> CHR ''-''"
    by auto
  from h show "dec_of_nat n \<noteq> ''+''" "dec_of_nat n \<noteq> ''-''" by auto
qed

lemma parse_uint_dec [rstr_simps]: "n < 2 ^ w \<Longrightarrow> parse_uint w (dec_of_nat n) = Inr n"
  by (simp add: parse_uint_def dec_of_nat_not_sign int_digits_dec)

lemma parse_u16_dec [rstr_simps]: "parse_u16 (dec_u16 p) = Some p"
  using unsigned_less [of p, where ?'a = nat] by (simp add: parse_u16_def parse_uint_dec)

lemma parse_u8_dec [rstr_simps]: "parse_u8 (dec_of_nat (unat b)) = Some b"
  using unsigned_less [of b, where ?'a = nat] by (simp add: parse_u8_def parse_uint_dec)

lemma int_digits_bound: "acc \<le> lim \<Longrightarrow> int_digits ovf lim acc s = Inr n \<Longrightarrow> n \<le> lim"
  by (induction ovf lim acc s rule: int_digits.induct) (auto split: option.splits if_splits)

lemma parse_uint_bound: "parse_uint w s = Inr n \<Longrightarrow> n < 2 ^ w"
  by (auto simp: parse_uint_def split: if_splits
           dest!: int_digits_bound [rotated] intro: le_less_trans)

lemma parse_i32_bound: "parse_i32 s = Inr i \<Longrightarrow> - (2 ^ 31) \<le> i \<and> i < 2 ^ 31"
proof -
  assume a: "parse_i32 s = Inr i"
  then consider n where "n \<le> 2 ^ 31" "i = - int n" | n where "n \<le> 2 ^ 31 - 1" "i = int n"
    by (auto simp: parse_i32_def map_sum_def split: if_splits sum.splits
             dest!: int_digits_bound [rotated])
  then show ?thesis by cases simp_all
qed

section \<open>UTF-8\<close>

text \<open>
  One step of the standard library's UTF-8 decoder at a non-empty position: a character of the
  given width, an invalid sequence, or a sequence cut off by the end of the input (each with the
  number of bytes it covers).
\<close>

datatype utf8_step = U8_Char nat | U8_Bad nat | U8_Cut nat

definition utf8_cont :: "nat \<Rightarrow> bool" where
  "utf8_cont b \<longleftrightarrow> 128 \<le> b \<and> b < 192"

definition utf8_second_ok :: "nat \<Rightarrow> nat \<Rightarrow> bool" where
  "utf8_second_ok b x \<longleftrightarrow>
     (if b = 224 then 160 \<le> x \<and> x < 192
      else if b = 237 then 128 \<le> x \<and> x < 160
      else if b = 240 then 144 \<le> x \<and> x < 192
      else if b = 244 then 128 \<le> x \<and> x < 144
      else utf8_cont x)"

fun utf8_rest :: "nat \<Rightarrow> nat \<Rightarrow> nat list \<Rightarrow> utf8_step" where
  "utf8_rest k 0 r = U8_Char k"
| "utf8_rest k (Suc n) r =
     (case r of
        [] \<Rightarrow> U8_Cut k
      | x # r' \<Rightarrow> if utf8_cont x then utf8_rest (Suc k) n r' else U8_Bad k)"

fun utf8_next :: "nat list \<Rightarrow> utf8_step" where
  "utf8_next [] = U8_Cut 0"
| "utf8_next (b # r) =
     (let w = (if b < 128 then 1 else if 194 \<le> b \<and> b \<le> 223 then 2
               else if 224 \<le> b \<and> b \<le> 239 then 3 else if 240 \<le> b \<and> b \<le> 244 then 4 else 0)
      in if w = 0 then U8_Bad 1
         else if w = 1 then U8_Char 1
         else (case r of
                 [] \<Rightarrow> U8_Cut 1
               | x # r' \<Rightarrow> if utf8_second_ok b x then utf8_rest 2 (w - 2) r' else U8_Bad 1))"

definition utf8_width :: "utf8_step \<Rightarrow> nat" where
  "utf8_width st = (case st of U8_Char k \<Rightarrow> k | U8_Bad k \<Rightarrow> k | U8_Cut k \<Rightarrow> k)"

lemma utf8_rest_width: "0 < k \<Longrightarrow> 0 < utf8_width (utf8_rest k n r)"
  by (induction k n r rule: utf8_rest.induct) (auto simp: utf8_width_def split: list.splits)

lemma utf8_next_width: "0 < utf8_width (utf8_next (b # r))"
proof (cases r)
  case (Cons x r')
  then show ?thesis
    using utf8_rest_width [of 2 _ r']
    by (auto simp: Let_def simp del: utf8_rest.simps) (simp_all add: utf8_width_def del: utf8_rest.simps)
qed (simp add: Let_def utf8_width_def)

text \<open>\<^verbatim>\<open>String::from_utf8\<close> (with the text of its error) and \<^verbatim>\<open>String::from_utf8_lossy\<close>.\<close>

function utf8_check :: "nat \<Rightarrow> nat list \<Rightarrow> string option" where
  "utf8_check i [] = None"
| "utf8_check i (b # r) =
     (case utf8_next (b # r) of
        U8_Char k \<Rightarrow> utf8_check (i + k) (drop (utf8_width (utf8_next (b # r))) (b # r))
      | U8_Bad k \<Rightarrow> Some (''invalid utf-8 sequence of '' @ dec_of_nat k @ '' bytes from index '' @ dec_of_nat i)
      | U8_Cut k \<Rightarrow> Some (''incomplete utf-8 byte sequence from index '' @ dec_of_nat i))"
  by pat_completeness auto
termination
proof (relation "measure (\<lambda>(i, s). length s)", simp)
  fix i b r k
  show "((i + k, drop (utf8_width (utf8_next (b # r))) (b # r)), i, b # r) \<in> measure (\<lambda>(i, s). length s)"
    using utf8_next_width [of b r] by simp
qed

function utf8_lossy :: "nat list \<Rightarrow> string" where
  "utf8_lossy [] = []"
| "utf8_lossy (b # r) =
     (let n = utf8_width (utf8_next (b # r))
      in (case utf8_next (b # r) of
            U8_Char k \<Rightarrow> map char_of (take n (b # r))
          | _ \<Rightarrow> [CHR 0xEF, CHR 0xBF, CHR 0xBD]) @ utf8_lossy (drop n (b # r)))"
  by pat_completeness auto
termination
proof (relation "measure length", simp)
  fix b r n
  assume "n = utf8_width (utf8_next (b # r))"
  then show "(drop n (b # r), b # r) \<in> measure length"
    using utf8_next_width [of b r] by simp
qed

declare utf8_check.simps(2) [simp del] utf8_lossy.simps(2) [simp del] utf8_next.simps(2) [simp del]

definition from_utf8 :: "bytes \<Rightarrow> string + string" where
  "from_utf8 bs =
     (case utf8_check 0 (map unat bs) of None \<Rightarrow> Inr (str_of_bytes bs) | Some e \<Rightarrow> Inl e)"

definition from_utf8_lossy :: "bytes \<Rightarrow> string" where
  "from_utf8_lossy bs = utf8_lossy (map unat bs)"

lemma utf8_next_ascii: "b < 128 \<Longrightarrow> utf8_next (b # r) = U8_Char 1"
  by (simp add: utf8_next.simps(2) Let_def)

lemma utf8_check_ascii: "\<forall>b \<in> set s. b < 128 \<Longrightarrow> utf8_check i s = None"
  by (induction s arbitrary: i) (simp_all add: utf8_check.simps(2) utf8_next_ascii utf8_width_def)

lemma utf8_lossy_ascii: "\<forall>b \<in> set s. b < 128 \<Longrightarrow> utf8_lossy s = map char_of s"
  by (induction s) (simp_all add: utf8_lossy.simps(2) utf8_next_ascii utf8_width_def Let_def)

definition is_ascii_str :: "string \<Rightarrow> bool" where
  "is_ascii_str s \<longleftrightarrow> list_all (\<lambda>c. (of_char c :: nat) < 128) s"

lemma unat_byte_of_char: "unat (byte_of_char c) = of_char c"
proof -
  have "(of_char c :: nat) < 256" by simp
  then show ?thesis by (simp add: byte_of_char_def unat_of_nat)
qed

lemma from_utf8_ascii [rstr_simps]: "is_ascii_str s \<Longrightarrow> from_utf8 (bytes_of_str s) = Inr s"
proof -
  assume "is_ascii_str s"
  then have "utf8_check 0 (map unat (bytes_of_str s)) = None"
    by (intro utf8_check_ascii) (auto simp: bytes_of_str_def is_ascii_str_def list_all_iff unat_byte_of_char)
  then show ?thesis by (simp add: from_utf8_def)
qed

lemma from_utf8_Inr: "from_utf8 bs = Inr s \<Longrightarrow> s = str_of_bytes bs"
  by (auto simp: from_utf8_def split: option.splits)

end
