(* ===== verification/RustNet.thy ===== *)
theory RustNet
  imports RustStr
begin

text \<open>
  Addresses of \<^verbatim>\<open>std::net\<close>: their types, the \<^verbatim>\<open>FromStr\<close> grammar (the parser of the standard
  library, as functions from a string to a value and the rest of the string) and \<^verbatim>\<open>Display\<close>;
  \<^verbatim>\<open>str::to_socket_addrs\<close> with the system resolver as a parameter. Standard library behaviour,
  so no entry of the map names these definitions.
\<close>

section \<open>Address types\<close>

datatype ipv4 = Ipv4 u8 u8 u8 u8

datatype ipv6 = Ipv6 u16 u16 u16 u16 u16 u16 u16 u16

datatype sock_v4 = Sock_V4 (v4_ip: ipv4) (v4_port: u16)

text \<open>\<^verbatim>\<open>SocketAddr\<close>; the flow info of a parsed IPv6 address is always 0 and is left out.\<close>

datatype sock_addr = V4 sock_v4 | V6 ipv6 u16 u32

datatype ip_addr = IP4 ipv4 | IP6 ipv6

fun octets :: "ipv4 \<Rightarrow> bytes" where
  "octets (Ipv4 a b c d) = [a, b, c, d]"

fun segments :: "ipv6 \<Rightarrow> u16 list" where
  "segments (Ipv6 a b c d e f g h) = [a, b, c, d, e, f, g, h]"

definition u16_be :: "u8 \<Rightarrow> u8 \<Rightarrow> u16" where
  "u16_be hi lo = push_bit 8 (ucast hi) OR ucast lo"

definition u16_to_be :: "u16 \<Rightarrow> bytes" where
  "u16_to_be w = [ucast (drop_bit 8 w), ucast w]"

definition u32_be :: "u8 \<Rightarrow> u8 \<Rightarrow> u8 \<Rightarrow> u8 \<Rightarrow> u32" where
  "u32_be a b c d =
     push_bit 24 (ucast a) OR push_bit 16 (ucast b) OR push_bit 8 (ucast c) OR ucast d"

text \<open>\<^verbatim>\<open>u32::from(Ipv4Addr)\<close>, and the octets of an IPv6 address.\<close>

fun u32_of_ipv4 :: "ipv4 \<Rightarrow> u32" where
  "u32_of_ipv4 (Ipv4 a b c d) = u32_be a b c d"

definition ipv4_of_u32 :: "u32 \<Rightarrow> ipv4" where
  "ipv4_of_u32 w =
     Ipv4 (ucast (drop_bit 24 w)) (ucast (drop_bit 16 w)) (ucast (drop_bit 8 w)) (ucast w)"

definition octets6 :: "ipv6 \<Rightarrow> bytes" where
  "octets6 ip = concat (map u16_to_be (segments ip))"

fun ipv6_of_segments :: "u16 list \<Rightarrow> ipv6" where
  "ipv6_of_segments [a, b, c, d, e, f, g, h] = Ipv6 a b c d e f g h"
| "ipv6_of_segments _ = Ipv6 0 0 0 0 0 0 0 0"

fun pair_bytes :: "bytes \<Rightarrow> u16 list" where
  "pair_bytes (a # b # r) = u16_be a b # pair_bytes r"
| "pair_bytes _ = []"

definition ipv6_of_octets :: "bytes \<Rightarrow> ipv6" where
  "ipv6_of_octets bs = ipv6_of_segments (pair_bytes bs)"

lemma bit_ucast_u8: "bit (ucast (b :: u8) :: 'a :: len word) n \<longleftrightarrow> n < 8 \<and> n < LENGTH('a) \<and> bit b n"
  using bit_imp_le_length [of b n] by (auto simp: bit_ucast_iff)

lemma bit_u8_high [simp]:
  "\<not> bit (b :: u8) (8 + n)" "\<not> bit (b :: u8) (16 + n)" "\<not> bit (b :: u8) (24 + n)"
  using bit_imp_le_length [of b] by fastforce+

lemma u16_be_to_be [simp]: "u16_to_be (u16_be hi lo) = [hi, lo]"
  by (auto simp: u16_to_be_def u16_be_def bit_simps bit_ucast_u8 intro!: bit_word_eqI
           dest: bit_imp_le_length)

lemma u16_be_of_to_be [simp]: "u16_be (ucast (drop_bit 8 w)) (ucast w) = w"
  by (auto simp: u16_be_def bit_simps bit_ucast_u8 intro!: bit_word_eqI dest: bit_imp_le_length)

lemma length_u16_to_be [simp]: "length (u16_to_be w) = 2"
  by (simp add: u16_to_be_def)

lemma ipv4_of_u32_of_ipv4 [simp]: "ipv4_of_u32 (u32_of_ipv4 ip) = ip"
  by (cases ip)
    (auto simp: ipv4_of_u32_def u32_be_def bit_simps bit_ucast_u8 intro!: bit_word_eqI
          dest: bit_imp_le_length)

lemma u32_of_ipv4_inj [simp]: "u32_of_ipv4 a = u32_of_ipv4 b \<longleftrightarrow> a = b"
  by (metis ipv4_of_u32_of_ipv4)

lemma u32_of_ipv4_of_u32 [simp]: "u32_of_ipv4 (ipv4_of_u32 w) = w"
proof (rule bit_word_eqI)
  fix n
  assume "n < LENGTH(32)"
  then consider "n < 8" | "8 \<le> n" "n < 16" | "16 \<le> n" "n < 24" | "24 \<le> n" "n < 32"
    by fastforce
  then show "bit (u32_of_ipv4 (ipv4_of_u32 w)) n \<longleftrightarrow> bit w n"
    by cases (auto simp: ipv4_of_u32_def u32_be_def bit_simps bit_ucast_u8 less_diff_conv2)
qed

text \<open>\<^verbatim>\<open>Ord\<close> for \<^verbatim>\<open>Ipv4Addr\<close>: the order of the octets is that of the number.\<close>

instantiation ipv4 :: linorder
begin

definition less_eq_ipv4 :: "ipv4 \<Rightarrow> ipv4 \<Rightarrow> bool" where
  "less_eq_ipv4 a b \<longleftrightarrow> u32_of_ipv4 a \<le> u32_of_ipv4 b"

definition less_ipv4 :: "ipv4 \<Rightarrow> ipv4 \<Rightarrow> bool" where
  "less_ipv4 a b \<longleftrightarrow> u32_of_ipv4 a < u32_of_ipv4 b"

instance
proof
  fix x y z :: ipv4
  show "x < y \<longleftrightarrow> x \<le> y \<and> \<not> y \<le> x" "x \<le> x" "x \<le> y \<or> y \<le> x"
    unfolding less_eq_ipv4_def less_ipv4_def by (rule less_le_not_le, rule order.refl, rule linear)
  show "x \<le> y \<Longrightarrow> y \<le> z \<Longrightarrow> x \<le> z" unfolding less_eq_ipv4_def by (rule order.trans)
  show "x \<le> y \<Longrightarrow> y \<le> x \<Longrightarrow> x = y"
    by (metis less_eq_ipv4_def order.antisym u32_of_ipv4_inj)
qed

end

lemma ipv4_between:
  "min (u32_of_ipv4 a) (u32_of_ipv4 b) \<le> u32_of_ipv4 ip \<and> u32_of_ipv4 ip \<le> max (u32_of_ipv4 a) (u32_of_ipv4 b) \<longleftrightarrow>
     min a b \<le> ip \<and> ip \<le> max a b"
  by (auto simp: min_def max_def less_eq_ipv4_def)

lemma length_octets [simp]: "length (octets ip) = 4"
  by (cases ip) simp

lemma ipv6_of_octets6 [simp]: "ipv6_of_octets (octets6 ip) = ip"
  by (cases ip) (simp add: ipv6_of_octets_def octets6_def u16_to_be_def)

lemma length_octets6 [simp]: "length (octets6 ip) = 16"
  by (cases ip) (simp add: octets6_def u16_to_be_def)

section \<open>Parsing\<close>

type_synonym 'a reader = "string \<Rightarrow> ('a \<times> string) option"

text \<open>
  \<^verbatim>\<open>Parser::read_number\<close>: digits are read greedily, more than the allowed number of them is a
  failure, and so is a leading zero unless allowed. \<open>lim\<close> is one more than the largest value.
\<close>

definition read_number :: "nat \<Rightarrow> nat option \<Rightarrow> bool \<Rightarrow> nat \<Rightarrow> nat reader" where
  "read_number radix max_digits allow_zero_prefix lim s =
     (let ds = takeWhile (\<lambda>c. to_digit radix c \<noteq> None) s;
          rest = dropWhile (\<lambda>c. to_digit radix c \<noteq> None) s;
          v = foldl (\<lambda>a c. radix * a + the (to_digit radix c)) 0 ds
      in if ds = [] then None
         else if (case max_digits of None \<Rightarrow> False | Some m \<Rightarrow> m < length ds) then None
         else if \<not> allow_zero_prefix \<and> hd ds = CHR ''0'' \<and> 1 < length ds then None
         else if v < lim then Some (v, rest) else None)"

fun read_given_char :: "char \<Rightarrow> unit reader" where
  "read_given_char c [] = None"
| "read_given_char c (d # s) = (if d = c then Some ((), s) else None)"

definition read_separator :: "char \<Rightarrow> nat \<Rightarrow> 'a reader \<Rightarrow> 'a reader" where
  "read_separator sep index inner s =
     (if 0 < index then (case read_given_char sep s of None \<Rightarrow> None | Some (_, r) \<Rightarrow> inner r)
      else inner s)"

fun read_octets :: "nat \<Rightarrow> nat \<Rightarrow> u8 list reader" where
  "read_octets i 0 s = Some ([], s)"
| "read_octets i (Suc n) s =
     (case read_separator CHR ''.'' i (read_number 10 (Some 3) False 256) s of
        None \<Rightarrow> None
      | Some (v, r) \<Rightarrow> map_option (\<lambda>(vs, r'). (word_of_nat v # vs, r')) (read_octets (Suc i) n r))"

fun ipv4_of_octets :: "bytes \<Rightarrow> ipv4" where
  "ipv4_of_octets [a, b, c, d] = Ipv4 a b c d"
| "ipv4_of_octets _ = Ipv4 0 0 0 0"

definition read_ipv4 :: "ipv4 reader" where
  "read_ipv4 s = map_option (\<lambda>(bs, r). (ipv4_of_octets bs, r)) (read_octets 0 4 s)"

text \<open>
  \<^verbatim>\<open>read_groups\<close> with \<open>n\<close> groups left of \<open>limit = i + n\<close>: the groups read, whether the last two
  came from an embedded IPv4 address, and the rest of the input.
\<close>

fun read_groups :: "nat \<Rightarrow> nat \<Rightarrow> string \<Rightarrow> u16 list \<times> bool \<times> string" where
  "read_groups i 0 s = ([], False, s)"
| "read_groups i (Suc n) s =
     (case (if 0 < n then read_separator CHR '':'' i read_ipv4 s else None) of
        Some (Ipv4 a b c d, r) \<Rightarrow> ([u16_be a b, u16_be c d], True, r)
      | None \<Rightarrow>
          (case read_separator CHR '':'' i (read_number 16 (Some 4) True 65536) s of
             None \<Rightarrow> ([], False, s)
           | Some (g, r) \<Rightarrow>
               (case read_groups (Suc i) n r of (gs, v4, r') \<Rightarrow> (word_of_nat g # gs, v4, r'))))"

definition read_ipv6 :: "ipv6 reader" where
  "read_ipv6 s =
     (case read_groups 0 8 s of (h, h4, r) \<Rightarrow>
        if length h = 8 then Some (ipv6_of_segments h, r)
        else if h4 then None
        else (case read_given_char CHR '':'' r of
                None \<Rightarrow> None
              | Some (_, r1) \<Rightarrow>
                  (case read_given_char CHR '':'' r1 of
                     None \<Rightarrow> None
                   | Some (_, r2) \<Rightarrow>
                       (case read_groups 0 (8 - (length h + 1)) r2 of (t, _, r3) \<Rightarrow>
                          Some (ipv6_of_segments
                                  (h @ replicate (8 - length h - length t) 0 @ t), r3)))))"

definition complete :: "'a reader \<Rightarrow> string \<Rightarrow> 'a option" where
  "complete rd s = (case rd s of Some (a, []) \<Rightarrow> Some a | _ \<Rightarrow> None)"

definition parse_ipv4 :: "string \<Rightarrow> ipv4 option" where
  "parse_ipv4 s = (if 15 < length s then None else complete read_ipv4 s)"

definition parse_ipv6 :: "string \<Rightarrow> ipv6 option" where
  "parse_ipv6 s = complete read_ipv6 s"

definition read_port :: "u16 reader" where
  "read_port s =
     (case read_given_char CHR '':'' s of
        None \<Rightarrow> None
      | Some (_, r) \<Rightarrow> map_option (\<lambda>(v, r'). (word_of_nat v, r')) (read_number 10 None True 65536 r))"

definition read_sock_v4 :: "sock_addr reader" where
  "read_sock_v4 s =
     (case read_ipv4 s of
        None \<Rightarrow> None
      | Some (ip, r) \<Rightarrow> map_option (\<lambda>(p, r'). (V4 (Sock_V4 ip p), r')) (read_port r))"

definition read_scope_id :: "u32 reader" where
  "read_scope_id s =
     (case read_given_char CHR ''%'' s of
        None \<Rightarrow> None
      | Some (_, r) \<Rightarrow> map_option (\<lambda>(v, r'). (word_of_nat v, r')) (read_number 10 None True (2 ^ 32) r))"

definition read_sock_v6 :: "sock_addr reader" where
  "read_sock_v6 s =
     (case read_given_char CHR ''['' s of
        None \<Rightarrow> None
      | Some (_, r1) \<Rightarrow>
          (case read_ipv6 r1 of
             None \<Rightarrow> None
           | Some (ip, r2) \<Rightarrow>
               (case (case read_scope_id r2 of None \<Rightarrow> (0, r2) | Some x \<Rightarrow> x) of (scope, r3) \<Rightarrow>
                  (case read_given_char CHR '']'' r3 of
                     None \<Rightarrow> None
                   | Some (_, r4) \<Rightarrow> map_option (\<lambda>(p, r5). (V6 ip p scope, r5)) (read_port r4)))))"

definition parse_sock_addr :: "string \<Rightarrow> sock_addr option" where
  "parse_sock_addr s =
     complete (\<lambda>s. case read_sock_v4 s of None \<Rightarrow> read_sock_v6 s | Some x \<Rightarrow> Some x) s"

definition parse_ip_addr :: "string \<Rightarrow> ip_addr option" where
  "parse_ip_addr s =
     complete (\<lambda>s. case read_ipv4 s of
                     None \<Rightarrow> map_option (\<lambda>(ip, r). (IP6 ip, r)) (read_ipv6 s)
                   | Some (ip, r) \<Rightarrow> Some (IP4 ip, r)) s"

section \<open>Display\<close>

fun show_ipv4 :: "ipv4 \<Rightarrow> string" where
  "show_ipv4 (Ipv4 a b c d) =
     dec_of_nat (unat a) @ ''.'' @ dec_of_nat (unat b) @ ''.'' @
     dec_of_nat (unat c) @ ''.'' @ dec_of_nat (unat d)"

text \<open>The first longest run of zero segments, as start and length (\<^verbatim>\<open>Span\<close>).\<close>

fun zero_span :: "nat \<Rightarrow> nat \<times> nat \<Rightarrow> nat \<times> nat \<Rightarrow> u16 list \<Rightarrow> nat \<times> nat" where
  "zero_span i longest current [] = longest"
| "zero_span i longest current (s # ss) =
     (if s = 0 then
        (let cur = (if snd current = 0 then (i, 1) else (fst current, snd current + 1))
         in zero_span (Suc i) (if snd longest < snd cur then cur else longest) cur ss)
      else zero_span (Suc i) longest (0, 0) ss)"

fun join_with :: "string \<Rightarrow> string list \<Rightarrow> string" where
  "join_with sep [] = []"
| "join_with sep [s] = s"
| "join_with sep (s # t # ss) = s @ sep @ join_with sep (t # ss)"

definition fmt_segments :: "u16 list \<Rightarrow> string" where
  "fmt_segments ss = join_with '':'' (map (\<lambda>s. hex_of_nat (unat s)) ss)"

definition show_ipv6 :: "ipv6 \<Rightarrow> string" where
  "show_ipv6 ip =
     (let ss = segments ip in
      if take 6 ss = [0, 0, 0, 0, 0, 0xffff] then
        ''::ffff:'' @ show_ipv4 (ipv4_of_octets (concat (map u16_to_be (drop 6 ss))))
      else (case zero_span 0 (0, 0) (0, 0) ss of (start, len) \<Rightarrow>
        if 1 < len then
          fmt_segments (take start ss) @ ''::'' @ fmt_segments (drop (start + len) ss)
        else fmt_segments ss))"

fun show_sock_v4 :: "sock_v4 \<Rightarrow> string" where
  "show_sock_v4 (Sock_V4 ip p) = show_ipv4 ip @ '':'' @ dec_u16 p"

fun show_sock_addr :: "sock_addr \<Rightarrow> string" where
  "show_sock_addr (V4 a) = show_sock_v4 a"
| "show_sock_addr (V6 ip p scope) =
     ''['' @ show_ipv6 ip @ (if scope = 0 then [] else ''%'' @ dec_of_nat (unat scope)) @
     '']:'' @ dec_u16 p"

text \<open>
  \<^verbatim>\<open>str::to_socket_addrs\<close>: a literal address, or a host and port handed to the system resolver
  \<open>lookup\<close> (\<open>Inl\<close> is its error).
\<close>

type_synonym resolver = "string \<Rightarrow> u16 \<Rightarrow> string + sock_addr list"

definition to_socket_addrs :: "resolver \<Rightarrow> string \<Rightarrow> string + sock_addr list" where
  "to_socket_addrs lookup s =
     (case parse_sock_addr s of
        Some a \<Rightarrow> Inr [a]
      | None \<Rightarrow>
          (case rsplit_once '':'' s of
             None \<Rightarrow> Inl ''invalid socket address''
           | Some (host, port) \<Rightarrow>
               (case parse_u16 port of
                  None \<Rightarrow> Inl ''invalid port value''
                | Some p \<Rightarrow> lookup host p)))"

fun first_v4 :: "sock_addr list \<Rightarrow> sock_v4 option" where
  "first_v4 [] = None"
| "first_v4 (V4 a # as) = Some a"
| "first_v4 (V6 _ _ _ # as) = first_v4 as"

lemma first_v4_find: "first_v4 as = Some a \<Longrightarrow> V4 a \<in> set as"
  by (induction as rule: first_v4.induct) auto

section \<open>Printing and parsing IPv4 addresses\<close>

lemma dec_of_nat_is_digit: "c \<in> set (dec_of_nat n) \<Longrightarrow> to_digit 10 c \<noteq> None"
  by (auto dest!: dec_of_nat_digits)

lemma dec_of_nat_length_3: "n < 1000 \<Longrightarrow> length (dec_of_nat n) \<le> 3"
  by (subst dec_of_nat.simps, subst dec_of_nat.simps, subst dec_of_nat.simps) simp

lemma dec_of_nat_no_zero_prefix: "hd (dec_of_nat n) = CHR ''0'' \<Longrightarrow> length (dec_of_nat n) = 1"
proof (induction n rule: dec_of_nat.induct)
  case (1 n)
  show ?case
  proof (cases "n < 10")
    case True
    then show ?thesis by (subst dec_of_nat.simps) simp
  next
    case False
    then have hd: "hd (dec_of_nat n) = hd (dec_of_nat (n div 10))"
      by (subst dec_of_nat.simps) simp
    with "1.IH" [OF False] "1.prems" have len: "length (dec_of_nat (n div 10)) = 1" by simp
    have "n div 10 < 10"
    proof (rule ccontr)
      assume "\<not> n div 10 < 10"
      then have "dec_of_nat (n div 10) =
          dec_of_nat (n div 10 div 10) @ [char_of (48 + (n div 10) mod 10)]"
        by (subst dec_of_nat.simps) simp
      with len show False using dec_of_nat_nonempty [of "n div 10 div 10"] by simp
    qed
    moreover from this hd "1.prems" have "CHR ''0'' = char_of (48 + n div 10)"
      by (subst (asm) (2) dec_of_nat.simps) simp
    then have "(of_char CHR ''0'' :: nat) = of_char (char_of (48 + n div 10 :: nat) :: char)"
      by simp
    ultimately have "n div 10 = 0" by simp
    with False show ?thesis by simp
  qed
qed

lemma foldl_dec:
  "foldl (\<lambda>a c. 10 * a + the (to_digit 10 c)) 0 (dec_of_nat n) = n"
proof (induction n rule: dec_of_nat.induct)
  case (1 n)
  show ?case
  proof (cases "n < 10")
    case False
    with "1.IH" show ?thesis by (subst dec_of_nat.simps) simp
  qed (subst dec_of_nat.simps, simp)
qed

lemma read_number_dec:
  assumes "n < lim" and "n < 1000" and "r = [] \<or> to_digit 10 (hd r) = None"
  shows "read_number 10 (Some 3) False lim (dec_of_nat n @ r) = Some (n, r)"
proof -
  have "takeWhile (\<lambda>c. to_digit 10 c \<noteq> None) (dec_of_nat n @ r) = dec_of_nat n"
    using assms(3) dec_of_nat_is_digit
    by (subst takeWhile_append2) (auto simp: takeWhile_eq_Nil_iff)
  moreover have "dropWhile (\<lambda>c. to_digit 10 c \<noteq> None) (dec_of_nat n @ r) = r"
    using assms(3) dec_of_nat_is_digit
    by (subst dropWhile_append2) (auto simp: dropWhile_eq_self_iff)
  ultimately show ?thesis
    using assms(1) dec_of_nat_length_3 [OF assms(2)] dec_of_nat_no_zero_prefix [of n]
    by (auto simp: read_number_def Let_def foldl_dec)
qed

lemma to_digit_dot [simp]: "to_digit 10 CHR ''.'' = None"
  by (simp add: to_digit_def)

lemma read_octet_byte:
  "r = [] \<or> to_digit 10 (hd r) = None \<Longrightarrow>
   read_number 10 (Some 3) False 256 (dec_of_nat (unat (b :: u8)) @ r) = Some (unat b, r)"
  using unsigned_less [of b, where ?'a = nat] by (intro read_number_dec) auto

lemma four: "(4 :: nat) = Suc (Suc (Suc (Suc 0)))"
  by simp

lemma read_ipv4_show:
  assumes "r = [] \<or> to_digit 10 (hd r) = None"
  shows "read_ipv4 (show_ipv4 ip @ r) = Some (ip, r)"
  using assms
  by (cases ip)
    (simp add: read_ipv4_def four read_separator_def read_octet_byte)

lemma show_ipv4_length: "length (show_ipv4 ip) \<le> 15"
proof (cases ip)
  case (Ipv4 a b c d)
  have "length (dec_of_nat (unat (x :: u8))) \<le> 3" for x
    using unsigned_less [of x, where ?'a = nat] by (intro dec_of_nat_length_3) simp
  from this [of a] this [of b] this [of c] this [of d] Ipv4 show ?thesis by simp
qed

lemma parse_show_ipv4 [rstr_simps]: "parse_ipv4 (show_ipv4 ip) = Some ip"
  using show_ipv4_length [of ip] read_ipv4_show [of "[]" ip]
  by (simp add: parse_ipv4_def complete_def)

lemma show_ipv4_inj [simp]: "show_ipv4 a = show_ipv4 b \<longleftrightarrow> a = b"
  by (metis option.inject parse_show_ipv4)

lemma show_ipv4_graph: "list_all is_graph (show_ipv4 ip)"
  by (cases ip) (simp add: dec_of_nat_graph, simp add: is_graph_def)

lemma trim_show_ipv4 [rstr_simps]: "trim (show_ipv4 ip) = show_ipv4 ip"
  by (rule trim_graph) (rule show_ipv4_graph)

lemma show_ipv4_chars: "c \<in> set (show_ipv4 ip) \<Longrightarrow> c = CHR ''.'' \<or> to_digit 10 c \<noteq> None"
  by (cases ip) (auto dest!: dec_of_nat_is_digit)

lemma show_ipv4_no_sep:
  "CHR '':'' \<notin> set (show_ipv4 ip)" "CHR ''/'' \<notin> set (show_ipv4 ip)"
  "CHR ''~'' \<notin> set (show_ipv4 ip)"
  by (auto dest!: show_ipv4_chars simp: to_digit_def)

lemma read_number_dec_free:
  assumes "n < lim" and "r = [] \<or> to_digit 10 (hd r) = None"
  shows "read_number 10 None True lim (dec_of_nat n @ r) = Some (n, r)"
proof -
  have "takeWhile (\<lambda>c. to_digit 10 c \<noteq> None) (dec_of_nat n @ r) = dec_of_nat n"
    using assms(2) dec_of_nat_is_digit
    by (subst takeWhile_append2) (auto simp: takeWhile_eq_Nil_iff)
  moreover have "dropWhile (\<lambda>c. to_digit 10 c \<noteq> None) (dec_of_nat n @ r) = r"
    using assms(2) dec_of_nat_is_digit
    by (subst dropWhile_append2) (auto simp: dropWhile_eq_self_iff)
  ultimately show ?thesis
    using assms(1) by (auto simp: read_number_def Let_def foldl_dec)
qed

lemma parse_show_sock_v4 [rstr_simps]: "parse_sock_addr (show_sock_v4 a) = Some (V4 a)"
proof (cases a)
  case (Sock_V4 ip p)
  have ip: "read_ipv4 (show_ipv4 ip @ CHR '':'' # dec_u16 p) = Some (ip, CHR '':'' # dec_u16 p)"
    by (rule read_ipv4_show) (simp add: to_digit_def)
  have "unat p < 65536" using unsigned_less [of p, where ?'a = nat] by simp
  then have "read_number 10 None True 65536 (dec_u16 p @ []) = Some (unat p, [])"
    by (rule read_number_dec_free) simp
  with ip Sock_V4 show ?thesis
    by (simp add: parse_sock_addr_def complete_def read_sock_v4_def read_port_def)
qed

lemma show_ipv4_not_sock_addr: "parse_sock_addr (show_ipv4 ip) = None"
proof -
  have "read_ipv4 (show_ipv4 ip @ []) = Some (ip, [])" by (rule read_ipv4_show) simp
  moreover obtain c r where c: "show_ipv4 ip = c # r" "to_digit 10 c \<noteq> None"
  proof (cases ip)
    case (Ipv4 a b c' d)
    obtain x xs where x: "dec_of_nat (unat a) = x # xs" by (cases "dec_of_nat (unat a)") simp_all
    then have "to_digit 10 x \<noteq> None" using dec_of_nat_is_digit [of x "unat a"] by simp
    with x that Ipv4 show ?thesis by simp
  qed
  then have "c \<noteq> CHR ''[''" by (auto simp: to_digit_def)
  ultimately show ?thesis
    using c by (simp add: parse_sock_addr_def complete_def read_sock_v4_def read_port_def read_sock_v6_def)
qed

lemma parse_ip_addr_show: "parse_ip_addr (show_ipv4 ip) = Some (IP4 ip)"
proof -
  have "read_ipv4 (show_ipv4 ip @ []) = Some (ip, [])" by (rule read_ipv4_show) simp
  then show ?thesis by (simp add: parse_ip_addr_def complete_def)
qed

lemma show_sock_v4_graph: "list_all is_graph (show_sock_v4 a)"
  by (cases a) (simp add: show_ipv4_graph dec_of_nat_graph, simp add: is_graph_def)

end
