(* ===== verification/Errors.thy ===== *)
theory Errors
  imports RustNet
begin

text \<open>
  \<^verbatim>\<open>ec-core/src/error.rs\<close>: the error type, its display text, and \<^verbatim>\<open>concise_error\<close>, which removes
  the display prefix that wrapping a runtime error in another one would repeat. A fallible
  operation of the program returns a sum, the error on the left.
\<close>

datatype ec_error =
    InvalidConfig string
  | Unsupported string
  | Runtime string

type_synonym 'a ec_result = "ec_error + 'a"

definition RUNTIME_PREFIX :: string where
  "RUNTIME_PREFIX = ''runtime failure: ''"

fun show_error :: "ec_error \<Rightarrow> string" where
  "show_error (InvalidConfig m) = ''invalid config: '' @ m"
| "show_error (Unsupported m) = ''unsupported: '' @ m"
| "show_error (Runtime m) = ''runtime failure: '' @ m"

lemma strip_prefix_shrinks:
  "strip_prefix p s = Some r \<Longrightarrow> p \<noteq> [] \<Longrightarrow> length r < length s"
  by (simp add: strip_prefix_Some_iff)

function strip_runtime_prefixes :: "string \<Rightarrow> string" where
  "strip_runtime_prefixes m =
     (case strip_prefix RUNTIME_PREFIX m of
        Some rest \<Rightarrow> strip_runtime_prefixes rest
      | None \<Rightarrow> m)"
  by pat_completeness auto
termination
  by (relation "measure length") (auto dest: strip_prefix_shrinks simp: RUNTIME_PREFIX_def)

declare strip_runtime_prefixes.simps [simp del]

definition concise_message :: "string \<Rightarrow> string" where
  "concise_message m = strip_runtime_prefixes m"

definition concise_error :: "ec_error \<Rightarrow> string" where
  "concise_error e = concise_message (show_error e)"

text \<open>\<^verbatim>\<open>r.map_err(f)?\<close> followed by the rest of the function.\<close>

definition try_map :: "('e \<Rightarrow> 'f) \<Rightarrow> 'e + 'a \<Rightarrow> ('a \<Rightarrow> 'f + 'b) \<Rightarrow> 'f + 'b" where
  "try_map f r k = (case r of Inl e \<Rightarrow> Inl (f e) | Inr a \<Rightarrow> k a)"

lemma try_map_simps [simp]: "try_map f (Inl e) k = Inl (f e)" "try_map f (Inr a) k = k a"
  by (simp_all add: try_map_def)

lemma try_map_Inr_iff: "try_map f r k = Inr b \<longleftrightarrow> (\<exists>a. r = Inr a \<and> k a = Inr b)"
  by (cases r) auto

lemma try_map_Inl_iff:
  "try_map f r k = Inl e \<longleftrightarrow> (\<exists>e'. r = Inl e' \<and> e = f e') \<or> (\<exists>a. r = Inr a \<and> k a = Inl e)"
  by (cases r) auto

definition ok_or :: "'e \<Rightarrow> 'a option \<Rightarrow> 'e + 'a" where
  "ok_or e x = (case x of None \<Rightarrow> Inl e | Some a \<Rightarrow> Inr a)"

lemma ok_or_simps [simp]: "ok_or e None = Inl e" "ok_or e (Some a) = Inr a"
  by (simp_all add: ok_or_def)

lemma ok_or_Inr_iff [simp]: "ok_or e x = Inr a \<longleftrightarrow> x = Some a"
  by (cases x) auto

section \<open>Concise messages\<close>

lemma strip_runtime_prefixes_spec:
  "(\<exists>n. m = concat (replicate n RUNTIME_PREFIX) @ strip_runtime_prefixes m) \<and>
   \<not> starts_with RUNTIME_PREFIX (strip_runtime_prefixes m)"
proof (induction m rule: strip_runtime_prefixes.induct)
  case (1 m)
  show ?case
  proof (cases "strip_prefix RUNTIME_PREFIX m")
    case None
    then have "strip_runtime_prefixes m = m"
      by (subst strip_runtime_prefixes.simps) simp
    with None show ?thesis
      by (auto simp: strip_prefix_def split: if_splits intro: exI [of _ 0])
  next
    case (Some rest)
    then have m: "m = RUNTIME_PREFIX @ rest" by (simp add: strip_prefix_Some_iff)
    from Some have eq: "strip_runtime_prefixes m = strip_runtime_prefixes rest"
      by (subst strip_runtime_prefixes.simps) simp
    from "1.IH" [OF Some] obtain n
      where "rest = concat (replicate n RUNTIME_PREFIX) @ strip_runtime_prefixes rest"
        and "\<not> starts_with RUNTIME_PREFIX (strip_runtime_prefixes rest)" by blast
    with m eq show ?thesis by (metis append.assoc concat.simps(2) replicate_Suc)
  qed
qed

text \<open>
  \<^verbatim>\<open>concise_message\<close> removes exactly the leading repetitions of the runtime prefix: the
  message is some number of prefixes followed by the result, and the result does not start
  with the prefix; wrapping a message in \<^verbatim>\<open>EcError::Runtime\<close> any number of times and asking for
  the concise text gives the same text.
\<close>

theorem concise_message_strips_all:
  "(\<exists>n. m = concat (replicate n RUNTIME_PREFIX) @ concise_message m) \<and>
   \<not> starts_with RUNTIME_PREFIX (concise_message m) \<and>
   concise_error (Runtime m) = concise_message m \<and>
   concise_error (Runtime (show_error (Runtime m))) = concise_message m"
proof -
  have step: "strip_runtime_prefixes (RUNTIME_PREFIX @ x) = strip_runtime_prefixes x" for x
    by (simp add: strip_runtime_prefixes.simps [of "RUNTIME_PREFIX @ x"])
  have "show_error (Runtime x) = RUNTIME_PREFIX @ x" for x
    by (simp add: RUNTIME_PREFIX_def)
  then show ?thesis
    unfolding concise_error_def concise_message_def
    using strip_runtime_prefixes_spec [of m] step by simp
qed

end
