(* ===== verification/Output.thy ===== *)
theory Output
  imports Errors
begin

text \<open>
  \<^verbatim>\<open>ec-core/src/output.rs\<close>: coloured texts and the log line. The escape sequences that
  \<^verbatim>\<open>anstyle\<close> prints for a colour and for the reset, and the parts of the local time, are
  parameters (\<open>ansi\<close>, \<open>log_time\<close>); \<^verbatim>\<open>anstream\<close>, which writes the line to standard error and drops
  the escapes when it is no terminal, is outside the model.
\<close>

definition COLOR_VALUE :: u8 where "COLOR_VALUE = 183"
definition COLOR_WEAK :: u8 where "COLOR_WEAK = 95"
definition COLOR_ROUTE_REMOTE :: u8 where "COLOR_ROUTE_REMOTE = 81"
definition COLOR_ROUTE_FALLBACK :: u8 where "COLOR_ROUTE_FALLBACK = 215"
definition COLOR_ROUTE_DIRECT :: u8 where "COLOR_ROUTE_DIRECT = 150"
definition COLOR_SCOPE_CLI :: u8 where "COLOR_SCOPE_CLI = 117"
definition COLOR_SCOPE_APP :: u8 where "COLOR_SCOPE_APP = 81"
definition COLOR_SCOPE_LOGIN :: u8 where "COLOR_SCOPE_LOGIN = 118"
definition COLOR_SCOPE_AGENT :: u8 where "COLOR_SCOPE_AGENT = 222"
definition COLOR_SCOPE_REQ :: u8 where "COLOR_SCOPE_REQ = 213"
definition COLOR_SCOPE_UPSTREAM :: u8 where "COLOR_SCOPE_UPSTREAM = 141"
definition COLOR_SCOPE_VPN :: u8 where "COLOR_SCOPE_VPN = 214"
definition COLOR_SCOPE_NETSTACK :: u8 where "COLOR_SCOPE_NETSTACK = 33"
definition COLOR_TS_YEAR :: u8 where "COLOR_TS_YEAR = 240"
definition COLOR_TS_DATE :: u8 where "COLOR_TS_DATE = 244"
definition COLOR_TS_CLOCK :: u8 where "COLOR_TS_CLOCK = 247"
definition COLOR_SUCCESS :: u8 where "COLOR_SUCCESS = 34"
definition COLOR_WARN :: u8 where "COLOR_WARN = 220"
definition COLOR_ERROR :: u8 where "COLOR_ERROR = 196"

datatype scope =
    Scope_Cli | Scope_App | Scope_Login | Scope_Agent | Scope_Req | Scope_Upstream
  | Scope_Protocol | Scope_Netstack

datatype level = Level_Info | Level_Success | Level_Warn | Level_Error

datatype route_kind = Kind_Remote | Kind_Fallback | Kind_Direct

type_synonym log_entry = "level \<times> scope \<times> string"

record ansi =
  fg_ansi256 :: "u8 \<Rightarrow> string"
  reset_style :: string

definition plain_ansi :: ansi where
  "plain_ansi = \<lparr>fg_ansi256 = (\<lambda>_. []), reset_style = []\<rparr>"

record log_time =
  ts_year :: string
  ts_date :: string
  ts_clock :: string

definition styled :: "ansi \<Rightarrow> u8 \<Rightarrow> string \<Rightarrow> string" where
  "styled A code text = fg_ansi256 A code @ text @ reset_style A"

definition out_value :: "ansi \<Rightarrow> string \<Rightarrow> string" where
  "out_value A text = styled A COLOR_VALUE text"

definition out_weak :: "ansi \<Rightarrow> string \<Rightarrow> string" where
  "out_weak A text = styled A COLOR_WEAK text"

fun route_label :: "ansi \<Rightarrow> route_kind \<Rightarrow> string" where
  "route_label A Kind_Remote = styled A COLOR_ROUTE_REMOTE ''remote''"
| "route_label A Kind_Fallback = styled A COLOR_ROUTE_FALLBACK ''fallback''"
| "route_label A Kind_Direct = styled A COLOR_ROUTE_DIRECT ''direct''"

fun scope_label :: "scope \<Rightarrow> string" where
  "scope_label Scope_Cli = ''CLI''"
| "scope_label Scope_App = ''APP''"
| "scope_label Scope_Login = ''LOGIN''"
| "scope_label Scope_Agent = ''AGENT''"
| "scope_label Scope_Req = ''REQ''"
| "scope_label Scope_Upstream = ''UPSTREAM''"
| "scope_label Scope_Protocol = ''VPN''"
| "scope_label Scope_Netstack = ''NETSTACK''"

fun scope_style :: "scope \<Rightarrow> u8" where
  "scope_style Scope_Cli = COLOR_SCOPE_CLI"
| "scope_style Scope_App = COLOR_SCOPE_APP"
| "scope_style Scope_Login = COLOR_SCOPE_LOGIN"
| "scope_style Scope_Agent = COLOR_SCOPE_AGENT"
| "scope_style Scope_Req = COLOR_SCOPE_REQ"
| "scope_style Scope_Upstream = COLOR_SCOPE_UPSTREAM"
| "scope_style Scope_Protocol = COLOR_SCOPE_VPN"
| "scope_style Scope_Netstack = COLOR_SCOPE_NETSTACK"

text \<open>The line \<^verbatim>\<open>emit\<close> prints: time, scope, the mark of the level, message.\<close>

fun level_text :: "ansi \<Rightarrow> level \<Rightarrow> string \<Rightarrow> string" where
  "level_text A Level_Info message = message"
| "level_text A Level_Success message =
     styled A COLOR_SUCCESS ([CHR 0xE2, CHR 0x9C, CHR 0x93] @ '' '' @ message)"
| "level_text A Level_Warn message = styled A COLOR_WARN ''WARN:'' @ '' '' @ message"
| "level_text A Level_Error message = styled A COLOR_ERROR ''ERROR:'' @ '' '' @ message"

definition emit :: "ansi \<Rightarrow> log_time \<Rightarrow> level \<Rightarrow> scope \<Rightarrow> string \<Rightarrow> string" where
  "emit A ts level scope message =
     styled A COLOR_TS_YEAR (ts_year ts) @ styled A COLOR_TS_DATE (ts_date ts)
     @ styled A COLOR_TS_CLOCK (ts_clock ts) @ '' ''
     @ styled A (scope_style scope) (''['' @ scope_label scope @ '']'') @ '' ''
     @ level_text A level message"

text \<open>The entry points: the line each of them prints.\<close>

definition out_log :: "ansi \<Rightarrow> log_time \<Rightarrow> level \<Rightarrow> scope \<Rightarrow> string \<Rightarrow> string" where
  "out_log A ts level scope message = emit A ts level scope message"

definition out_info :: "ansi \<Rightarrow> log_time \<Rightarrow> scope \<Rightarrow> string \<Rightarrow> string" where
  "out_info A ts scope message = out_log A ts Level_Info scope message"

definition out_warn :: "ansi \<Rightarrow> log_time \<Rightarrow> scope \<Rightarrow> string \<Rightarrow> string" where
  "out_warn A ts scope message = out_log A ts Level_Warn scope message"

definition out_error :: "ansi \<Rightarrow> log_time \<Rightarrow> scope \<Rightarrow> string \<Rightarrow> string" where
  "out_error A ts scope message = out_log A ts Level_Error scope message"

definition out_success :: "ansi \<Rightarrow> log_time \<Rightarrow> scope \<Rightarrow> string \<Rightarrow> string" where
  "out_success A ts scope message = out_log A ts Level_Success scope message"

text \<open>\<^verbatim>\<open>debug\<close> of a debug build; \<open>enabled\<close> is the switch \<^verbatim>\<open>DEBUG_ENABLED\<close>.\<close>

definition out_debug :: "ansi \<Rightarrow> log_time \<Rightarrow> bool \<Rightarrow> scope \<Rightarrow> string \<Rightarrow> string option" where
  "out_debug A ts enabled scope message = (if enabled then Some (out_log A ts Level_Info scope message) else None)"

definition hex_text :: "bytes \<Rightarrow> string" where
  "hex_text data = join_with '' '' (map hex2 data)"

text \<open>\<^verbatim>\<open>debug_hex\<close> of a debug build: the line, when debugging is switched on.\<close>

definition debug_hex :: "ansi \<Rightarrow> log_time \<Rightarrow> bool \<Rightarrow> scope \<Rightarrow> string \<Rightarrow> bytes \<Rightarrow> string option" where
  "debug_hex A ts enabled scope label data =
     (if \<not> enabled then None
      else out_debug A ts enabled scope
        (label @ ''; len: '' @ dec_of_nat (length data) @ ''; hex: '' @ hex_text data))"

end
