(* ===== verification/ProtocolWire.thy ===== *)
theory ProtocolWire
  imports Errors
begin

text \<open>
  \<^verbatim>\<open>ec-core/src/protocol_wire.rs\<close>: the byte layouts of the tunnel protocol. Fixed-size arrays are
  byte lists; a buffer is built as the code builds it, by copying slices into a zeroed array
  (\<open>copy_slice\<close> is \<^verbatim>\<open>copy_from_slice\<close> at an offset). The sum of the checksum is a \<open>u32\<close>.
\<close>

definition PROTOCOL_TOKEN_LEN :: nat where "PROTOCOL_TOKEN_LEN = 48"
definition TX_HEARTBEAT_PACKET_LEN :: nat where "TX_HEARTBEAT_PACKET_LEN = 0x4c"
definition NATIVE_CONTROL_FRAME_LEN :: nat where "NATIVE_CONTROL_FRAME_LEN = 0x28"
definition NATIVE_CONTROL_MAGIC :: bytes where "NATIVE_CONTROL_MAGIC = bytes_of_str ''AABB''"
definition SEND_IP_REPLY_MIN_LEN :: nat where "SEND_IP_REPLY_MIN_LEN = 16"
definition SEND_IP_REPLY_EXPECTED_LEN :: nat where "SEND_IP_REPLY_EXPECTED_LEN = 36"
definition COMMAND_REPLY_BODY_EXPECTED_LEN :: nat where "COMMAND_REPLY_BODY_EXPECTED_LEN = 36"
definition COMMAND_REPLY_MIN_LEN :: nat where "COMMAND_REPLY_MIN_LEN = 4"
definition TX_HEARTBEAT_PAYLOAD_PREFIX :: bytes where
  "TX_HEARTBEAT_PAYLOAD_PREFIX = bytes_of_str ''SANGFORSCSIPCLIENT''"
definition TX_HEARTBEAT_PAYLOAD_SUFFIX :: bytes where
  "TX_HEARTBEAT_PAYLOAD_SUFFIX = bytes_of_str (''L3VPN'' @ [CHR 0x00])"

section \<open>Little-endian words, slices\<close>

definition u32_le :: "u8 \<Rightarrow> u8 \<Rightarrow> u8 \<Rightarrow> u8 \<Rightarrow> u32" where
  "u32_le a b c d = u32_be d c b a"

definition u32_to_le :: "u32 \<Rightarrow> bytes" where
  "u32_to_le w = [ucast w, ucast (drop_bit 8 w), ucast (drop_bit 16 w), ucast (drop_bit 24 w)]"

text \<open>\<^verbatim>\<open>u32::from_le_bytes(slice.try_into())\<close>: fails unless the slice has four bytes.\<close>

fun le32_of :: "bytes \<Rightarrow> u32 option" where
  "le32_of [a, b, c, d] = Some (u32_le a b c d)"
| "le32_of _ = None"

definition slice :: "nat \<Rightarrow> nat \<Rightarrow> 'a list \<Rightarrow> 'a list" where
  "slice i j xs = take (j - i) (drop i xs)"

definition copy_slice :: "nat \<Rightarrow> 'a list \<Rightarrow> 'a list \<Rightarrow> 'a list" where
  "copy_slice i src dst = take i dst @ src @ drop (i + length src) dst"

definition bytes_start_with :: "bytes \<Rightarrow> bytes \<Rightarrow> bool" where
  "bytes_start_with p bs \<longleftrightarrow> take (length p) bs = p"

record send_ip_reply =
  assigned_ip :: bytes
  lan_ip :: bytes

datatype native_control =
    SendIp | RxAck | TxAck | ServerReset | Recovered | IpBusy
  | Shutdown | IpConflict | IpKick | Heartbeat | Unknown u32

definition from_code :: "u32 \<Rightarrow> native_control" where
  "from_code code =
     (if code = 0 then SendIp
      else if code = 1 then RxAck
      else if code = 2 then TxAck
      else if code = 3 then ServerReset
      else if code = 4 then Recovered
      else if code = 5 then IpBusy
      else if code = 8 then Shutdown
      else if code = 9 then IpConflict
      else if code = 14 then IpKick
      else if code = 15 then Heartbeat
      else Unknown code)"

fun control_code :: "native_control \<Rightarrow> u32" where
  "control_code SendIp = 0"
| "control_code RxAck = 1"
| "control_code TxAck = 2"
| "control_code ServerReset = 3"
| "control_code Recovered = 4"
| "control_code IpBusy = 5"
| "control_code Shutdown = 8"
| "control_code IpConflict = 9"
| "control_code IpKick = 14"
| "control_code Heartbeat = 15"
| "control_code (Unknown v) = v"

fun control_label :: "native_control \<Rightarrow> string" where
  "control_label SendIp = ''send-ip''"
| "control_label RxAck = ''rx-ack''"
| "control_label TxAck = ''tx-ack''"
| "control_label ServerReset = ''server-reset''"
| "control_label Recovered = ''recovered''"
| "control_label IpBusy = ''ip-busy''"
| "control_label Shutdown = ''shutdown''"
| "control_label IpConflict = ''ip-conflict''"
| "control_label IpKick = ''ip-kick''"
| "control_label Heartbeat = ''heartbeat''"
| "control_label (Unknown _) = ''unknown''"

definition parse_native_control_frame :: "bytes \<Rightarrow> native_control option" where
  "parse_native_control_frame data =
     (if length data \<noteq> NATIVE_CONTROL_FRAME_LEN \<or> \<not> bytes_start_with NATIVE_CONTROL_MAGIC data
      then None
      else map_option from_code (le32_of (slice 4 8 data)))"

definition parse_protocol_token :: "string \<Rightarrow> bytes ec_result" where
  "parse_protocol_token token =
     (if length (bytes_of_str token) \<noteq> PROTOCOL_TOKEN_LEN then
        Inl (Runtime (''invalid protocol token length: expected 48, got ''
                      @ dec_of_nat (length (bytes_of_str token))))
      else Inr (bytes_of_str token))"

definition build_command_message :: "u32 \<Rightarrow> bytes \<Rightarrow> bytes" where
  "build_command_message op_code token =
     copy_slice 4 token (copy_slice 0 (u32_to_le op_code) (replicate 64 0))"

definition build_query_ip_message :: "bytes \<Rightarrow> bytes" where
  "build_query_ip_message token = build_command_message 0 token"

definition build_initial_query_ip_message :: "bytes \<Rightarrow> bytes" where
  "build_initial_query_ip_message token =
     copy_slice 60 [0xff, 0xff, 0xff, 0xff] (build_query_ip_message token)"

definition parse_send_ip_reply :: "bytes \<Rightarrow> send_ip_reply ec_result" where
  "parse_send_ip_reply data =
     (if length data < SEND_IP_REPLY_MIN_LEN then
        Inl (Runtime (''send-ip reply too short: '' @ dec_of_nat (length data) @ '' bytes''))
      else
        (case le32_of (slice 0 4 data) of
           None \<Rightarrow> Inl (Runtime ''send-ip reply code slice is fixed width'')
         | Some code \<Rightarrow>
             if code \<noteq> 0 then
               Inl (Runtime (''unexpected send-ip reply code: '' @ dec_of_nat (unat code)))
             else
               Inr \<lparr>assigned_ip = slice 4 8 data, lan_ip = slice 12 16 data\<rparr>))"

definition parse_command_control_reply :: "bytes \<Rightarrow> native_control ec_result" where
  "parse_command_control_reply data =
     (if bytes_start_with NATIVE_CONTROL_MAGIC data then
        ok_or (Runtime (''invalid command control frame: '' @ dec_of_nat (length data) @ '' bytes''))
              (parse_native_control_frame data)
      else if length data < COMMAND_REPLY_MIN_LEN then
        Inl (Runtime (''command control reply too short: '' @ dec_of_nat (length data) @ '' bytes''))
      else
        (case le32_of (slice 0 4 data) of
           None \<Rightarrow> Inl (Runtime ''command control reply code slice is fixed width'')
         | Some code \<Rightarrow> Inr (from_code code)))"

definition build_stream_handshake_message :: "u8 \<Rightarrow> bytes \<Rightarrow> bytes \<Rightarrow> bytes" where
  "build_stream_handshake_message op_code token ip_rev =
     copy_slice 60 ip_rev (copy_slice 4 token (copy_slice 0 [op_code] (replicate 64 0)))"

section \<open>The checksum and the heartbeat packet\<close>

fun checksum_sum :: "u32 \<Rightarrow> bytes \<Rightarrow> u32" where
  "checksum_sum acc [] = acc"
| "checksum_sum acc [b] = acc + ucast (u16_be b 0)"
| "checksum_sum acc (hi # lo # r) = checksum_sum (acc + ucast (u16_be hi lo)) r"

lemma fold_step_less:
  "drop_bit 16 (s :: u32) \<noteq> 0 \<Longrightarrow> unat ((s AND 0xffff) + drop_bit 16 s) < unat s"
proof -
  assume nz: "drop_bit 16 s \<noteq> 0"
  have mask: "s AND 0xffff = take_bit 16 s" by (simp add: take_bit_eq_mask mask_numeral)
  have lt: "unat s < 2 ^ 32" using unsigned_less [of s, where ?'a = nat] by simp
  have hi: "unat (drop_bit 16 s) = unat s div 65536"
    by (subst unat_drop_bit_eq) (simp add: drop_bit_eq_div)
  have lo: "unat (take_bit 16 s) = unat s mod 65536"
    by (subst unsigned_take_bit_eq) (simp add: take_bit_eq_mod)
  from nz hi have "unat s div 65536 \<noteq> 0" by (metis unsigned_eq_0_iff)
  moreover have "unat (take_bit 16 s + drop_bit 16 s) = unat s mod 65536 + unat s div 65536"
    using lt by (simp add: unat_word_ariths hi lo)
  ultimately show ?thesis
    unfolding mask using mult_div_mod_eq [of 65536 "unat s"] by linarith
qed

function checksum_fold :: "u32 \<Rightarrow> u32" where
  "checksum_fold s =
     (if drop_bit 16 s \<noteq> 0 then checksum_fold ((s AND 0xffff) + drop_bit 16 s) else s)"
  by pat_completeness auto
termination
  by (relation "measure unat") (auto simp: fold_step_less)

declare checksum_fold.simps [simp del]

definition internet_checksum :: "bytes \<Rightarrow> u16" where
  "internet_checksum data = NOT (ucast (checksum_fold (checksum_sum 0 data)))"

definition build_tx_heartbeat_packet :: "bytes \<Rightarrow> bytes \<Rightarrow> bytes \<Rightarrow> bytes \<Rightarrow> bytes" where
  "build_tx_heartbeat_packet assigned heartbeat_dst session opaque_tail =
     (let packet = replicate TX_HEARTBEAT_PACKET_LEN 0;
          packet = packet[0 := 0x45];
          packet = copy_slice 2 (u16_to_be (word_of_nat TX_HEARTBEAT_PACKET_LEN)) packet;
          packet = copy_slice 4 [0xbb, 0xaa] packet;
          packet = packet[8 := 0x40];
          packet = packet[9 := 0x01];
          packet = copy_slice 12 assigned packet;
          packet = copy_slice 16 heartbeat_dst packet;
          packet = packet[20 := 0x08];
          packet = packet[21 := 0x00];
          packet = copy_slice 24 [0x55, 0x55] packet;
          packet = copy_slice 26 [0x44, 0x33] packet;
          packet = copy_slice 28 TX_HEARTBEAT_PAYLOAD_PREFIX packet;
          packet = copy_slice 46 session packet;
          packet = copy_slice 62 opaque_tail packet;
          packet = copy_slice 70 TX_HEARTBEAT_PAYLOAD_SUFFIX packet;
          ip_checksum = internet_checksum (slice 0 20 packet);
          packet = copy_slice 10 (u16_to_be ip_checksum) packet;
          icmp_checksum = internet_checksum (drop 20 packet)
      in copy_slice 22 (u16_to_be icmp_checksum) packet)"

section \<open>The checksum is the ones-complement sum\<close>

text \<open>
  The reference: the sum of the big-endian 16-bit words (an odd last byte is padded with zero),
  reduced modulo 65535 into \<open>1..65535\<close> unless it is zero.
\<close>

fun word_sum :: "bytes \<Rightarrow> nat" where
  "word_sum [] = 0"
| "word_sum [b] = 256 * unat b"
| "word_sum (hi # lo # r) = 256 * unat hi + unat lo + word_sum r"

definition ones_fold :: "nat \<Rightarrow> nat" where
  "ones_fold s = (if s = 0 then 0 else (s - 1) mod 65535 + 1)"

lemma unat_u16_be: "unat (u16_be hi lo) = 256 * unat hi + unat lo"
proof -
  have "push_bit 8 (ucast hi :: u16) AND ucast lo = 0"
    using bit_imp_le_length [of lo]
    by (fastforce intro!: bit_word_eqI simp: bit_simps bit_ucast_u8)
  then have "u16_be hi lo = push_bit 8 (ucast hi) + ucast lo"
    unfolding u16_be_def by (simp add: disjunctive_add_eq_or)
  moreover have "unat hi < 256" "unat lo < 256"
    using unsigned_less [of hi, where ?'a = nat] unsigned_less [of lo, where ?'a = nat] by simp_all
  ultimately show ?thesis
    by (simp add: unat_word_ariths push_bit_eq_mult unsigned_ucast_eq take_bit_eq_mod)
qed

lemma word_sum_append: "even (length a) \<Longrightarrow> word_sum (a @ b) = word_sum a + word_sum b"
  by (induction a rule: word_sum.induct) auto

lemma word_sum_bound: "word_sum bs \<le> 65535 * length bs"
proof (induction bs rule: word_sum.induct)
  case (2 b)
  then show ?case using unsigned_less [of b, where ?'a = nat] by simp
next
  case (3 hi lo r)
  then show ?case
    using unsigned_less [of hi, where ?'a = nat] unsigned_less [of lo, where ?'a = nat] by simp
qed simp

lemma unat_checksum_sum:
  "unat acc + word_sum bs < 2 ^ 32 \<Longrightarrow> unat (checksum_sum acc bs) = unat acc + word_sum bs"
proof (induction acc bs rule: checksum_sum.induct)
  case (2 acc b)
  then show ?case
    by (simp add: unat_word_ariths unsigned_ucast_eq unat_u16_be take_bit_eq_mod)
next
  case (3 acc hi lo r)
  have "unat (acc + ucast (u16_be hi lo)) = unat acc + (256 * unat hi + unat lo)"
    using "3.prems" unsigned_less [of hi, where ?'a = nat] unsigned_less [of lo, where ?'a = nat]
    by (simp add: unat_word_ariths unsigned_ucast_eq unat_u16_be take_bit_eq_mod)
  with "3" show ?case by simp
qed simp

lemma ones_fold_step: "0 < q \<Longrightarrow> ones_fold (r + q) = ones_fold (65536 * q + r)"
proof -
  assume q: "0 < q"
  then have "65536 * q + r - 1 = (r + q - 1) + q * 65535" by simp
  then have "(65536 * q + r - 1) mod 65535 = (r + q - 1) mod 65535"
    by (metis mod_mult_self1)
  with q show ?thesis by (simp add: ones_fold_def)
qed

lemma ones_fold_complement: "ones_fold (s + (65535 - ones_fold s)) = 65535"
proof (cases "s = 0")
  case False
  define k where "k = (s - 1) div 65535"
  define f where "f = (s - 1) mod 65535"
  have s: "s = 65535 * k + f + 1" and f: "f < 65535"
    using False by (simp_all add: k_def f_def)
  have "ones_fold s = f + 1"
    using False by (simp add: ones_fold_def f_def)
  then have "s + (65535 - ones_fold s) - 1 = 65534 + k * 65535"
    using s f by simp
  then have "(s + (65535 - ones_fold s) - 1) mod 65535 = 65534"
    by simp
  with False show ?thesis by (simp add: ones_fold_def)
qed (simp add: ones_fold_def)

lemma unat_checksum_fold: "unat (checksum_fold s) = ones_fold (unat s)"
proof (induction s rule: checksum_fold.induct)
  case (1 s)
  have mask: "s AND 0xffff = take_bit 16 s" by (simp add: take_bit_eq_mask mask_numeral)
  have lt: "unat s < 2 ^ 32" using unsigned_less [of s, where ?'a = nat] by simp
  have hi: "unat (drop_bit 16 s) = unat s div 65536"
    by (subst unat_drop_bit_eq) (simp add: drop_bit_eq_div)
  have lo: "unat (take_bit 16 s) = unat s mod 65536"
    by (subst unsigned_take_bit_eq) (simp add: take_bit_eq_mod)
  have split: "unat s = 65536 * (unat s div 65536) + unat s mod 65536" by simp
  show ?case
  proof (cases "drop_bit 16 s = 0")
    case True
    then have "unat s < 65536" using hi by (metis div_eq_0_iff unsigned_0 zero_neq_numeral)
    then have "ones_fold (unat s) = unat s" by (auto simp: ones_fold_def)
    with True show ?thesis by (subst checksum_fold.simps) simp
  next
    case False
    then have "unat s div 65536 \<noteq> 0" using hi by (metis unsigned_eq_0_iff)
    have add: "unat (take_bit 16 s + drop_bit 16 s) = unat s mod 65536 + unat s div 65536"
      using lt by (simp add: unat_word_ariths hi lo)
    have "ones_fold (unat s mod 65536 + unat s div 65536) = ones_fold (unat s)"
      using ones_fold_step [of "unat s div 65536" "unat s mod 65536"] \<open>unat s div 65536 \<noteq> 0\<close> split
      by simp
    with "1" [OF False] add False show ?thesis
      unfolding mask by (subst checksum_fold.simps) (simp add: mask)
  qed
qed

lemma ones_fold_less: "ones_fold s < 65536"
  by (auto simp: ones_fold_def)

lemma unat_internet_checksum:
  assumes "length bs \<le> 65536"
  shows "unat (internet_checksum bs) = 65535 - ones_fold (word_sum bs)"
proof -
  have "word_sum bs < 2 ^ 32" using word_sum_bound [of bs] assms by simp
  then have "unat (checksum_sum 0 bs) = word_sum bs" using unat_checksum_sum [of 0 bs] by simp
  then have "unat (ucast (checksum_fold (checksum_sum 0 bs)) :: u16) = ones_fold (word_sum bs)"
    using ones_fold_less [of "word_sum bs"]
    by (simp add: unsigned_ucast_eq take_bit_eq_mod unat_checksum_fold)
  moreover have "unat (NOT x) = 65535 - unat x" for x :: u16
  proof -
    have "NOT x = - 1 - x" by (simp add: not_eq_complement)
    moreover have "x \<le> - 1" by simp
    ultimately show ?thesis
      by (simp add: unat_sub unsigned_minus_1_eq_mask mask_eq_exp_minus_1)
  qed
  ultimately show ?thesis by (simp add: internet_checksum_def)
qed

lemma checksum_verifies:
  assumes "even (length a)" and "length (a @ b) < 65534"
  shows "internet_checksum (a @ u16_to_be (internet_checksum (a @ [0, 0] @ b)) @ b) = 0"
proof -
  let ?c = "internet_checksum (a @ [0, 0] @ b)"
  let ?s = "word_sum a + word_sum b"
  have c: "unat ?c = 65535 - ones_fold ?s"
    using assms by (subst unat_internet_checksum) (simp_all add: word_sum_append)
  have "256 * unat (ucast (drop_bit 8 ?c) :: u8) + unat (ucast ?c :: u8) = unat ?c"
    by (metis u16_be_of_to_be unat_u16_be)
  then have "word_sum (a @ u16_to_be ?c @ b) = ?s + unat ?c"
    using assms(1) by (simp add: word_sum_append u16_to_be_def)
  moreover have "ones_fold (?s + (65535 - ones_fold ?s)) = 65535"
    by (rule ones_fold_complement)
  ultimately have "unat (internet_checksum (a @ u16_to_be ?c @ b)) = 0"
    using assms(2) by (subst unat_internet_checksum) (simp_all add: c [simplified])
  then show ?thesis by (simp add: unsigned_eq_0_iff)
qed

lemma length_copy_slice [wire_simps]:
  "i + length src \<le> length dst \<Longrightarrow> length (copy_slice i src dst) = length dst"
  by (simp add: copy_slice_def)

lemma length_4_obtain: "length xs = 4 \<Longrightarrow> \<exists>a b c d. xs = [a, b, c, d]"
  by (auto simp: length_Suc_conv numeral_eq_Suc)

lemma copy_slice_append:
  "length xs = i \<Longrightarrow> length mid = length src \<Longrightarrow> copy_slice i src (xs @ mid @ ys) = xs @ src @ ys"
  by (simp add: copy_slice_def)

lemma heartbeat_layout:
  assumes "length src = 4" "length dst = 4" "length session = 16" "length tail = 8"
  defines "ip \<equiv> [0x45, 0, 0, 0x4c, 0xbb, 0xaa, 0, 0, 0x40, 1] :: bytes"
    and "icmp \<equiv> [0x55, 0x55, 0x44, 0x33] @ TX_HEARTBEAT_PAYLOAD_PREFIX @ session @ tail @ TX_HEARTBEAT_PAYLOAD_SUFFIX"
  shows "build_tx_heartbeat_packet src dst session tail =
    ip @ u16_to_be (internet_checksum (ip @ [0, 0] @ src @ dst)) @ src @ dst @
    [8, 0] @ u16_to_be (internet_checksum ([8, 0] @ [0, 0] @ icmp)) @ icmp"
proof -
  have be: "u16_to_be (word_of_nat TX_HEARTBEAT_PACKET_LEN) = [0, 0x4c]"
    by (simp add: TX_HEARTBEAT_PACKET_LEN_def u16_to_be_def)
  have z: "replicate TX_HEARTBEAT_PACKET_LEN (0 :: u8) =
     [0, 0, 0, 0, 0, 0, 0, 0, 0, 0, 0, 0] @ [0, 0, 0, 0] @ [0, 0, 0, 0] @
     [0, 0, 0, 0, 0, 0, 0, 0] @ replicate 18 0 @ replicate 16 0 @ replicate 8 0 @ replicate 6 0"
    by (simp add: TX_HEARTBEAT_PACKET_LEN_def numeral_eq_Suc)
  have lens: "length TX_HEARTBEAT_PAYLOAD_PREFIX = 18" "length TX_HEARTBEAT_PAYLOAD_SUFFIX = 6"
    by (simp_all add: TX_HEARTBEAT_PAYLOAD_PREFIX_def TX_HEARTBEAT_PAYLOAD_SUFFIX_def)
  show ?thesis
    unfolding build_tx_heartbeat_packet_def Let_def be z
    by (simp add: copy_slice_def slice_def list_update_append assms lens)
qed

lemma le32_of_to_le [simp]: "le32_of (u32_to_le w) = Some w"
proof -
  have "u32_be (ucast (drop_bit 24 w)) (ucast (drop_bit 16 w)) (ucast (drop_bit 8 w)) (ucast w) = w"
    using u32_of_ipv4_of_u32 [of w] by (simp add: ipv4_of_u32_def)
  then show ?thesis by (simp add: u32_to_le_def u32_le_def)
qed

lemma length_u32_to_le [simp]: "length (u32_to_le w) = 4"
  by (simp add: u32_to_le_def)

lemma code_from_code [simp]: "control_code (from_code v) = v"
  by (simp add: from_code_def)

lemma le32_of_4: "length xs = 4 \<Longrightarrow> \<exists>w. le32_of xs = Some w"
  by (auto simp: length_Suc_conv numeral_eq_Suc)

lemma length_magic [simp]: "length NATIVE_CONTROL_MAGIC = 4"
  by (simp add: NATIVE_CONTROL_MAGIC_def)

lemma start_with_append [wire_simps]:
  "length m = length p \<Longrightarrow> bytes_start_with p (m @ r) \<longleftrightarrow> m = p"
  by (simp add: bytes_start_with_def)

text \<open>
  \<^bold>\<open>C32.\<close> The heartbeat packet is a well-formed 76-byte ICMP echo request: both its IPv4 header
  and its ICMP message verify (their internet checksum, taken with the checksum field in place, is
  zero), the total length, source and destination fields are the packet's length, the assigned and
  the LAN address, and the payload carries the session and the opaque tail at their offsets.
\<close>

theorem heartbeat_packet_valid:
  assumes "length src = 4" "length dst = 4" "length session = 16" "length tail = 8"
  shows "let p = build_tx_heartbeat_packet src dst session tail in
     length p = TX_HEARTBEAT_PACKET_LEN \<and>
     internet_checksum (slice 0 20 p) = 0 \<and> internet_checksum (drop 20 p) = 0 \<and>
     u16_be (p ! 2) (p ! 3) = word_of_nat (length p) \<and>
     slice 12 16 p = src \<and> slice 16 20 p = dst \<and>
     slice 46 62 p = session \<and> slice 62 70 p = tail"
proof -
  let ?ip = "[0x45, 0, 0, 0x4c, 0xbb, 0xaa, 0, 0, 0x40, 1] :: bytes"
  let ?icmp = "[0x55, 0x55, 0x44, 0x33] @ TX_HEARTBEAT_PAYLOAD_PREFIX @ session @ tail @ TX_HEARTBEAT_PAYLOAD_SUFFIX"
  let ?c1 = "u16_to_be (internet_checksum (?ip @ [0, 0] @ src @ dst))"
  let ?c2 = "u16_to_be (internet_checksum ([8, 0] @ [0, 0] @ ?icmp))"
  have lens: "length TX_HEARTBEAT_PAYLOAD_PREFIX = 18" "length TX_HEARTBEAT_PAYLOAD_SUFFIX = 6"
    by (simp_all add: TX_HEARTBEAT_PAYLOAD_PREFIX_def TX_HEARTBEAT_PAYLOAD_SUFFIX_def)
  have head: "internet_checksum (?ip @ ?c1 @ src @ dst) = 0"
    by (rule checksum_verifies) (simp_all add: assms)
  have body: "internet_checksum ([8, 0] @ ?c2 @ ?icmp) = 0"
    by (rule checksum_verifies) (simp_all add: assms lens)
  have p: "build_tx_heartbeat_packet src dst session tail = (?ip @ ?c1 @ src @ dst) @ ([8, 0] @ ?c2 @ ?icmp)"
    using heartbeat_layout [OF assms] by simp
  have l: "length (?ip @ ?c1 @ src @ dst) = 20" by (simp add: assms)
  have "slice 0 20 (build_tx_heartbeat_packet src dst session tail) = ?ip @ ?c1 @ src @ dst"
    unfolding p slice_def using l by (simp del: append.simps append_assoc)
  moreover have "drop 20 (build_tx_heartbeat_packet src dst session tail) = [8, 0] @ ?c2 @ ?icmp"
    unfolding p using l by (simp del: append.simps append_assoc)
  moreover have "length (build_tx_heartbeat_packet src dst session tail) = 76"
    unfolding p by (simp add: assms lens)
  moreover have "u16_be 0 0x4c = 76" by (simp add: u16_be_def)
  ultimately show ?thesis
    unfolding Let_def using head body
    by (simp add: TX_HEARTBEAT_PACKET_LEN_def) (simp add: p slice_def assms lens)
qed

theorem heartbeat_packet_valid_witness:
  "let p = build_tx_heartbeat_packet [10, 166, 80, 12] [10, 166, 64, 3] (bytes_of_str ''eab27cdf7c24a40f'')
             [0x03, 0xa2, 0x16, 0x5a, 0xd5, 0x3d, 0x79, 0xb8]
   in length p = 76 \<and> internet_checksum (slice 0 20 p) = 0 \<and> internet_checksum (drop 20 p) = 0 \<and>
      slice 12 16 p = [10, 166, 80, 12] \<and> slice 16 20 p = [10, 166, 64, 3]"
proof -
  have len: "length ([10, 166, 80, 12] :: bytes) = 4" "length ([10, 166, 64, 3] :: bytes) = 4"
    "length (bytes_of_str ''eab27cdf7c24a40f'') = 16"
    "length ([0x03, 0xa2, 0x16, 0x5a, 0xd5, 0x3d, 0x79, 0xb8] :: bytes) = 8" by simp_all
  from heartbeat_packet_valid [OF len] show ?thesis unfolding Let_def TX_HEARTBEAT_PACKET_LEN_def by simp
qed

text \<open>
  \<^bold>\<open>C33.\<close> The checksum routine is the ones-complement checksum for every buffer of at most 65536
  bytes (no carry is lost in the 32-bit sum), and it detects nothing to correct in what it has
  sealed: writing the checksum of a buffer into its zeroed, even-aligned field makes the buffer
  verify.
\<close>

theorem internet_checksum_correct:
  assumes "length bs \<le> 65536" and "even (length a)" and "length (a @ b) < 65534"
  shows "unat (internet_checksum bs) = 65535 - ones_fold (word_sum bs) \<and>
    internet_checksum (a @ u16_to_be (internet_checksum (a @ [0, 0] @ b)) @ b) = 0"
  using unat_internet_checksum [OF assms(1)] checksum_verifies [OF assms(2,3)] by simp

theorem internet_checksum_correct_witness:
  "unat (internet_checksum [0x12, 0x34, 0x56]) = 0x97cb \<and>
   internet_checksum ([0x12, 0x34] @ u16_to_be (internet_checksum ([0x12, 0x34] @ [0, 0] @ [0x56])) @ [0x56]) = 0"
proof -
  have "65535 - ones_fold (word_sum [0x12, 0x34, 0x56]) = 0x97cb" by code_simp
  with internet_checksum_correct [of "[0x12, 0x34, 0x56]" "[0x12, 0x34]" "[0x56]"] show ?thesis by simp
qed

text \<open>
  Control codes survive the wire: a code decodes to a control type whose code it is; a
  40-byte frame with the magic decodes to the control its little-endian code names; the same code
  in a reply body without the magic decodes to the same control; a frame with the magic but another
  length is an error for the command reader and no control frame for the stream reader.
\<close>

theorem control_frames_decode:
  assumes "length rest = 32" and "u32_to_le v \<noteq> NATIVE_CONTROL_MAGIC" and "length other \<noteq> 36"
  shows "control_code (from_code v) = v \<and>
    parse_native_control_frame (NATIVE_CONTROL_MAGIC @ u32_to_le v @ rest) = Some (from_code v) \<and>
    parse_command_control_reply (NATIVE_CONTROL_MAGIC @ u32_to_le v @ rest) = Inr (from_code v) \<and>
    parse_command_control_reply (u32_to_le v @ other) = Inr (from_code v) \<and>
    parse_native_control_frame (NATIVE_CONTROL_MAGIC @ other) = None \<and>
    (\<exists>m. parse_command_control_reply (NATIVE_CONTROL_MAGIC @ other) = Inl (Runtime m))"
proof -
  have frame: "parse_native_control_frame (NATIVE_CONTROL_MAGIC @ u32_to_le v @ rest) = Some (from_code v)"
    using assms(1)
    by (simp add: parse_native_control_frame_def NATIVE_CONTROL_FRAME_LEN_def slice_def wire_simps)
  have none: "parse_native_control_frame (NATIVE_CONTROL_MAGIC @ other) = None"
    using assms(3) by (simp add: parse_native_control_frame_def NATIVE_CONTROL_FRAME_LEN_def)
  have body: "parse_command_control_reply (u32_to_le v @ other) = Inr (from_code v)"
    using assms(2)
    by (simp add: parse_command_control_reply_def COMMAND_REPLY_MIN_LEN_def slice_def wire_simps)
  show ?thesis
    using frame none body by (simp add: parse_command_control_reply_def wire_simps)
qed

theorem control_frames_decode_witness:
  "parse_native_control_frame (NATIVE_CONTROL_MAGIC @ u32_to_le 15 @ replicate 32 0) = Some Heartbeat \<and>
   parse_command_control_reply (u32_to_le 15 @ replicate 32 0) = Inr Heartbeat"
proof -
  have "u32_to_le 15 \<noteq> NATIVE_CONTROL_MAGIC"
    by code_simp
  from control_frames_decode [OF _ this, of "replicate 32 0" "replicate 32 0"]
  show ?thesis by (simp add: from_code_def)
qed

text \<open>
  \<^verbatim>\<open>parse_send_ip_reply\<close> on every input: it succeeds exactly on replies of at least 16 bytes
  whose little-endian code is zero, and then returns bytes 4..8 and 12..16 (four bytes each); its
  slice conversions never fail.
\<close>

theorem parse_send_ip_reply_total:
  "parse_send_ip_reply data =
     (if length data < 16 then
        Inl (Runtime (''send-ip reply too short: '' @ dec_of_nat (length data) @ '' bytes''))
      else if take 4 data = [0, 0, 0, 0] then
        Inr \<lparr>assigned_ip = slice 4 8 data, lan_ip = slice 12 16 data\<rparr>
      else Inl (Runtime (''unexpected send-ip reply code: '' @
                  dec_of_nat (unat (the (le32_of (take 4 data))))))) \<and>
   (case parse_send_ip_reply data of Inl e \<Rightarrow> True | Inr r \<Rightarrow> length (assigned_ip r) = 4 \<and> length (lan_ip r) = 4)"
proof (cases "length data < 16")
  case False
  then obtain a b c d where abcd: "take 4 data = [a, b, c, d]"
    using length_4_obtain [of "take 4 data"] by auto
  have "u32_le a b c d = 0 \<longleftrightarrow> [a, b, c, d] = [0, 0, 0, 0]"
    using u32_of_ipv4_inj [of "Ipv4 d c b a" "Ipv4 0 0 0 0"] by (auto simp: u32_le_def u32_be_def)
  with abcd False show ?thesis
    by (auto simp: parse_send_ip_reply_def SEND_IP_REPLY_MIN_LEN_def slice_def)
qed (simp add: parse_send_ip_reply_def SEND_IP_REPLY_MIN_LEN_def)
end
