(* ===== verification/RustIO.thy ===== *)
theory RustIO
  imports ProtocolWire
begin

text \<open>
  Sockets as the program sees them. A connection is a script of what its reads will deliver
  (chunks of bytes or errors, each after a delay in milliseconds), of how its writes end, and the
  bytes written so far; an exhausted read script is a closed peer (\<^verbatim>\<open>Ok(0)\<close>), an exhausted
  write script means that writes succeed. \<open>io_read\<close>, \<open>read_exact\<close> and \<open>write_all\<close> are
  \<^verbatim>\<open>Read::read\<close>, \<^verbatim>\<open>Read::read_exact\<close> and \<^verbatim>\<open>Write::write_all\<close> of the standard library on it.
  Every operation takes the connection and returns its result with the connection after it.
\<close>

datatype io_kind = WouldBlock | TimedOut | Interrupted | UnexpectedEof | OtherKind

record io_error =
  io_kind :: io_kind
  io_text :: string

datatype read_item = Data bytes | Read_Err io_error

record stream =
  clock :: nat
  incoming :: "(nat \<times> read_item) list"
  outgoing :: bytes
  write_script :: "(nat \<times> io_error) option list"

definition io_read :: "nat \<Rightarrow> stream \<Rightarrow> (io_error + bytes) \<times> stream" where
  "io_read n s =
     (case incoming s of
        [] \<Rightarrow> (Inr [], s)
      | (d, Data bs) # r \<Rightarrow>
          (Inr (take n bs),
           s\<lparr>clock := clock s + d,
             incoming := (if length bs \<le> n then r else (0, Data (drop n bs)) # r)\<rparr>)
      | (d, Read_Err e) # r \<Rightarrow> (Inl e, s\<lparr>clock := clock s + d, incoming := r\<rparr>))"

definition eof_error :: io_error where
  "eof_error = \<lparr>io_kind = UnexpectedEof, io_text = ''failed to fill whole buffer''\<rparr>"

lemma io_read_length: "io_read n s = (Inr bs, s') \<Longrightarrow> length bs \<le> n"
  by (auto simp: io_read_def split: list.splits read_item.splits)

lemma io_read_error: "io_read n s = (Inl e, s') \<Longrightarrow> length (incoming s') < length (incoming s)"
  by (auto simp: io_read_def split: list.splits read_item.splits)

function read_exact :: "nat \<Rightarrow> stream \<Rightarrow> (io_error + bytes) \<times> stream" where
  "read_exact n s =
     (if n = 0 then (Inr [], s)
      else
        (case io_read n s of
           (Inr bs, s') \<Rightarrow>
             if bs = [] then (Inl eof_error, s')
             else
               (case read_exact (n - length bs) s' of
                  (Inr r, s'') \<Rightarrow> (Inr (bs @ r), s'')
                | (Inl e, s'') \<Rightarrow> (Inl e, s''))
         | (Inl e, s') \<Rightarrow>
             if io_kind e = Interrupted then read_exact n s' else (Inl e, s')))"
  by pat_completeness auto
termination
  by (relation "measures [\<lambda>(n, s). n, \<lambda>(n, s). length (incoming s)]")
     (auto dest: io_read_length [OF sym] io_read_error [OF sym] simp: neq_Nil_conv)

declare read_exact.simps [simp del]

definition write_all :: "bytes \<Rightarrow> stream \<Rightarrow> (io_error + unit) \<times> stream" where
  "write_all bs s =
     (case write_script s of
        [] \<Rightarrow> (Inr (), s\<lparr>outgoing := outgoing s @ bs\<rparr>)
      | None # r \<Rightarrow> (Inr (), s\<lparr>outgoing := outgoing s @ bs, write_script := r\<rparr>)
      | Some (k, e) # r \<Rightarrow> (Inl e, s\<lparr>outgoing := outgoing s @ take k bs, write_script := r\<rparr>))"

text \<open>The size of what is left to read, the measure of the read loops.\<close>

fun item_size :: "nat \<times> read_item \<Rightarrow> nat" where
  "item_size (d, Data bs) = Suc (length bs)"
| "item_size (d, Read_Err e) = 1"

definition script_size :: "stream \<Rightarrow> nat" where
  "script_size s = sum_list (map item_size (incoming s))"

lemma io_read_decreases:
  "io_read n s = (r, s') \<Longrightarrow> 0 < n \<Longrightarrow> r \<noteq> Inr [] \<Longrightarrow> script_size s' < script_size s"
  by (auto simp: io_read_def script_size_def split: list.splits read_item.splits if_splits)

section \<open>Sequencing\<close>

text \<open>
  A fallible step on a state followed by the rest of the function: \<^verbatim>\<open>step.map_err(f)?\<close>; the state
  reached by a failing step is kept.
\<close>

definition try_io :: "('e \<Rightarrow> 'f) \<Rightarrow> ('e + 'a) \<times> 's \<Rightarrow> ('a \<Rightarrow> 's \<Rightarrow> ('f + 'b) \<times> 's) \<Rightarrow> ('f + 'b) \<times> 's" where
  "try_io f r k = (case r of (Inl e, s) \<Rightarrow> (Inl (f e), s) | (Inr a, s) \<Rightarrow> k a s)"

lemma try_io_simps [simp]:
  "try_io f (Inl e, s) k = (Inl (f e), s)"
  "try_io f (Inr a, s) k = k a s"
  by (simp_all add: try_io_def)

lemma try_io_Inr_iff:
  "try_io f r k = (Inr b, s') \<longleftrightarrow> (\<exists>a s. r = (Inr a, s) \<and> k a s = (Inr b, s'))"
  by (auto simp: try_io_def split: prod.splits sum.splits)

lemma try_io_Inl_iff:
  "try_io f r k = (Inl e, s') \<longleftrightarrow>
     (\<exists>e'. r = (Inl e', s') \<and> e = f e') \<or> (\<exists>a s. r = (Inr a, s) \<and> k a s = (Inl e, s'))"
  by (auto simp: try_io_def split: prod.splits sum.splits)

definition io_err :: "string \<Rightarrow> io_error \<Rightarrow> ec_error" where
  "io_err what e = Runtime (what @ io_text e)"

definition is_wouldblock_or_timeout :: "io_error \<Rightarrow> bool" where
  "is_wouldblock_or_timeout e \<longleftrightarrow> io_kind e \<in> {WouldBlock, TimedOut}"

section \<open>Worker loops and channels\<close>

text \<open>
  A \<^verbatim>\<open>loop\<close> that may run for ever: \<open>step\<close> is one iteration, which ends the loop with a result or
  goes on with a new state; \<open>run_loop step n\<close> runs at most \<open>n\<close> iterations (\<open>None\<close>: still running).
\<close>

fun run_loop :: "('s \<Rightarrow> 'r option \<times> 's) \<Rightarrow> nat \<Rightarrow> 's \<Rightarrow> 'r option \<times> 's" where
  "run_loop step 0 s = (None, s)"
| "run_loop step (Suc n) s =
     (case step s of (Some r, s') \<Rightarrow> (Some r, s') | (None, s') \<Rightarrow> run_loop step n s')"

lemma run_loop_add:
  "run_loop step (m + n) s =
     (case run_loop step m s of (Some r, s') \<Rightarrow> (Some r, s') | (None, s') \<Rightarrow> run_loop step n s')"
  by (induction m arbitrary: s) (auto split: prod.splits option.splits)

lemma run_loop_invariant:
  "run_loop step n s = (r, s') \<Longrightarrow> I s \<Longrightarrow> (\<And>s r s'. I s \<Longrightarrow> step s = (r, s') \<Longrightarrow> I s') \<Longrightarrow> I s'"
proof (induction n arbitrary: s)
  case (Suc n)
  obtain q t where q: "step s = (q, t)" by fastforce
  with Suc.prems(2,3) have "I t" by blast
  with Suc.IH [of t] Suc.prems(1,3) q show ?case by (auto split: option.splits)
qed simp

text \<open>
  \<^verbatim>\<open>mpsc::Receiver::recv_timeout\<close>: the messages that will arrive, each with its time of arrival
  (milliseconds), whether all senders are gone after them, the result and the time it returns.
\<close>

datatype 'm recv_result = Received 'm | Recv_Timeout | Recv_Disconnected

fun recv_timeout :: "nat \<Rightarrow> nat \<Rightarrow> bool \<Rightarrow> (nat \<times> 'm) list \<Rightarrow> 'm recv_result \<times> nat \<times> (nat \<times> 'm) list" where
  "recv_timeout now d closed [] = (if closed then (Recv_Disconnected, now, []) else (Recv_Timeout, now + d, []))"
| "recv_timeout now d closed ((a, p) # q) =
     (if a \<le> now + d then (Received p, max now a, q) else (Recv_Timeout, now + d, (a, p) # q))"

section \<open>Connections whose peer sends a byte string\<close>

text \<open>
  \<open>delivers s bs\<close>: whatever the segmentation and the delays, the reads of \<open>s\<close> yield \<open>bs\<close>
  and then end of file.
\<close>

fun chunk_bytes :: "(nat \<times> read_item) list \<Rightarrow> bytes option" where
  "chunk_bytes [] = Some []"
| "chunk_bytes ((d, Data bs) # r) =
     (if bs = [] then None else map_option ((@) bs) (chunk_bytes r))"
| "chunk_bytes ((d, Read_Err e) # r) = None"

definition delivers :: "stream \<Rightarrow> bytes \<Rightarrow> bool" where
  "delivers s bs \<longleftrightarrow> chunk_bytes (incoming s) = Some bs"

lemma delivers_io_read:
  assumes "delivers s bs" and "0 < n"
  shows "\<exists>k s'. io_read n s = (Inr (take k bs), s') \<and> delivers s' (drop k bs) \<and> k \<le> n \<and> (bs \<noteq> [] \<longrightarrow> 0 < k) \<and>
    outgoing s' = outgoing s \<and> write_script s' = write_script s"
proof (cases "incoming s")
  case Nil
  with assms have "bs = []" by (simp add: delivers_def)
  with Nil assms show ?thesis by (intro exI [of _ 0]) (auto simp: io_read_def)
next
  case (Cons x r)
  then obtain d c where x: "x = (d, Data c)"
    using assms(1) by (cases x; cases "snd x") (auto simp: delivers_def)
  with Cons assms(1) obtain rest where rest: "chunk_bytes r = Some rest" "bs = c @ rest" "c \<noteq> []"
    by (auto simp: delivers_def split: if_splits)
  show ?thesis
    using Cons x rest assms(2)
    by (intro exI [of _ "min n (length c)"]) (auto simp: io_read_def delivers_def)
qed

lemma delivers_read_exact:
  "delivers s bs \<Longrightarrow> n \<le> length bs \<Longrightarrow>
   \<exists>s'. read_exact n s = (Inr (take n bs), s') \<and> delivers s' (drop n bs) \<and>
        outgoing s' = outgoing s \<and> write_script s' = write_script s"
proof (induction n s arbitrary: bs rule: read_exact.induct)
  case (1 n s)
  show ?case
  proof (cases "n = 0")
    case True
    with "1.prems" show ?thesis by (simp add: read_exact.simps)
  next
    case False
    from delivers_io_read [OF "1.prems"(1), of n] False "1.prems"(2) obtain k s' where
      k: "io_read n s = (Inr (take k bs), s')" "delivers s' (drop k bs)" "0 < k" "k \<le> n"
      and same: "outgoing s' = outgoing s" "write_script s' = write_script s" by fastforce
    from k "1.prems"(2) have len: "length (take k bs) = k" "take k bs \<noteq> []" by auto
    from "1.IH"(2) [OF False k(1) [symmetric] refl len(2) k(2)] len "1.prems"(2) k(4)
    obtain s'' where
      "read_exact (n - k) s' = (Inr (take (n - k) (drop k bs)), s'')" "delivers s'' (drop n bs)"
      "outgoing s'' = outgoing s'" "write_script s'' = write_script s'" by (auto simp: diff_le_mono)
    moreover from k(4) have "take k bs @ take (n - k) (drop k bs) = take n bs"
      by (metis le_add_diff_inverse take_add)
    ultimately show ?thesis
      using False k(1) len same by (simp add: read_exact.simps [of n s])
  qed
qed

lemma delivers_read_exact_short:
  "delivers s bs \<Longrightarrow> length bs < n \<Longrightarrow> \<exists>s'. read_exact n s = (Inl eof_error, s') \<and>
     outgoing s' = outgoing s \<and> write_script s' = write_script s"
proof (induction n s arbitrary: bs rule: read_exact.induct)
  case (1 n s)
  from "1.prems"(2) have n: "n \<noteq> 0" by auto
  from delivers_io_read [OF "1.prems"(1), of n] n obtain k s' where
    k: "io_read n s = (Inr (take k bs), s')" "delivers s' (drop k bs)" "k \<le> n" "bs \<noteq> [] \<longrightarrow> 0 < k"
    and same: "outgoing s' = outgoing s" "write_script s' = write_script s" by auto
  show ?case
  proof (cases "take k bs = []")
    case True
    with n k(1) same show ?thesis by (simp add: read_exact.simps [of n s])
  next
    case False
    with "1.prems"(2) have "length (drop k bs) < n - length (take k bs)"
      using k(3) by (cases bs) auto
    from "1.IH"(2) [OF n k(1) [symmetric] refl False k(2) this] obtain s'' where
      "read_exact (n - length (take k bs)) s' = (Inl eof_error, s'')"
      "outgoing s'' = outgoing s'" "write_script s'' = write_script s'" by auto
    with n k(1) False same show ?thesis by (simp add: read_exact.simps [of n s])
  qed
qed

lemma read_exact_length: "read_exact n s = (Inr bs, s') \<Longrightarrow> length bs = n"
proof (induction n s arbitrary: bs s' rule: read_exact.induct)
  case (1 n s)
  show ?case
  proof (cases "n = 0")
    case True
    with "1.prems" show ?thesis by (simp add: read_exact.simps)
  next
    case False
    show ?thesis
    proof (cases "io_read n s")
      case (Pair res t)
      show ?thesis
      proof (cases res)
        case (Inl e)
        with "1.prems" Pair False "1.IH"(1) [OF False Pair [symmetric] Inl] show ?thesis
          by (simp add: read_exact.simps [of n s] split: if_splits)
      next
        case (Inr c)
        with "1.prems" Pair False obtain r where c: "c \<noteq> []" "bs = c @ r"
          "read_exact (n - length c) t = (Inr r, s')"
          by (auto simp: read_exact.simps [of n s] split: if_splits prod.splits sum.splits)
        from "1.IH"(2) [OF False Pair [symmetric] Inr c(1) c(3)] c(2)
          io_read_length [of n s c t] Pair Inr
        show ?thesis by simp
      qed
    qed
  qed
qed

lemma write_all_ok [io_simps]:
  "write_script s = [] \<Longrightarrow> write_all bs s = (Inr (), s\<lparr>outgoing := outgoing s @ bs\<rparr>)"
  by (simp add: write_all_def)

lemma delivers_update [simp]:
  "delivers (s\<lparr>outgoing := o'\<rparr>) bs = delivers s bs"
  "delivers (s\<lparr>write_script := w\<rparr>) bs = delivers s bs"
  "delivers (s\<lparr>clock := c\<rparr>) bs = delivers s bs"
  by (simp_all add: delivers_def)

text \<open>The time the rest of a script takes.\<close>

definition script_delay :: "stream \<Rightarrow> nat" where
  "script_delay s = sum_list (map fst (incoming s))"

lemma script_delay_outgoing [simp]:
  "script_delay (s\<lparr>outgoing := x\<rparr>) = script_delay s" "script_delay (s\<lparr>clock := c\<rparr>) = script_delay s"
  by (simp_all add: script_delay_def)

lemma io_read_deliver_time:
  assumes "delivers s bs" and "bs \<noteq> []" and "0 < n"
  shows "\<exists>c s'. io_read n s = (Inr c, s') \<and> c \<noteq> [] \<and> length c \<le> n \<and> bs = c @ drop (length c) bs \<and>
    delivers s' (drop (length c) bs) \<and> clock s' + script_delay s' = clock s + script_delay s \<and>
    outgoing s' = outgoing s \<and> write_script s' = write_script s"
proof -
  from assms obtain d c r where i: "incoming s = (d, Data c) # r"
    by (cases "incoming s"; cases "snd (hd (incoming s))"; cases "hd (incoming s)") (auto simp: delivers_def)
  with assms obtain rest where r: "chunk_bytes r = Some rest" "bs = c @ rest" "c \<noteq> []"
    by (auto simp: delivers_def split: if_splits)
  have "take n c \<noteq> []" using r assms by simp
  with i r assms(3) show ?thesis
    by (auto simp: io_read_def delivers_def script_delay_def min_def)
qed

lemma io_read_clock: "clock s \<le> clock (snd (io_read n s))"
  by (auto simp: io_read_def split: list.splits read_item.splits)

lemma read_exact_clock: "clock s \<le> clock (snd (read_exact n s))"
proof (induction n s rule: read_exact.induct)
  case (1 n s)
  then show ?case
    using io_read_clock [of s n]
    by (subst read_exact.simps) (auto split: prod.splits sum.splits intro: order_trans [rotated])
qed

lemma write_all_clock [simp]: "clock (snd (write_all bs s)) = clock s"
  by (auto simp: write_all_def split: list.splits option.splits)

lemma io_read_clockD: "io_read n s = (r, s') \<Longrightarrow> clock s \<le> clock s'"
  using io_read_clock [of s n] by simp

lemma write_all_clockD: "write_all bs s = (r, s') \<Longrightarrow> clock s' = clock s"
  using write_all_clock [of bs s] by simp

end
