(* ===== verification/Config.thy ===== *)
theory Config
  imports Output RustIO
begin

text \<open>
  \<^verbatim>\<open>ec-core/src/config.rs\<close> and the argument handling of \<^verbatim>\<open>ec-cli/src/main.rs\<close>: the configuration of
  the program and the remembered server and user name. The remembered file is the bytes of
  \<^verbatim>\<open>remembered.json\<close> (none if it cannot be read); \<^verbatim>\<open>serde_json\<close> and the effect of \<^verbatim>\<open>std::fs::write\<close>
  are parameters. Every operation that may touch the file returns its result with the file and the
  log lines.
\<close>

section \<open>The configuration\<close>

record app_config =
  ac_server :: string
  ac_username :: string
  ac_password :: string
  ac_socks_bind :: string
  ac_fallback_proxy :: "string option"
  ac_extra_ips :: "string list"
  ac_details :: bool
  ac_debug_enabled :: bool

record remembered_config =
  rc_server :: string
  rc_username :: string

definition REMEMBERED_FILE :: string where "REMEMBERED_FILE = ''remembered.json''"

record config_env =
  ce_from_json :: "string \<Rightarrow> string + remembered_config"
  ce_to_json :: "remembered_config \<Rightarrow> string + string"
  ce_write :: "bytes \<Rightarrow> bytes option \<Rightarrow> (io_error + unit) \<times> bytes option"

definition read_to_string :: "bytes option \<Rightarrow> string option" where
  "read_to_string file =
     (case file of
        None \<Rightarrow> None
      | Some bs \<Rightarrow> (case from_utf8 bs of Inl _ \<Rightarrow> None | Inr content \<Rightarrow> Some content))"

definition load_remembered :: "config_env \<Rightarrow> bytes option \<Rightarrow> remembered_config option \<times> log_entry list" where
  "load_remembered E file =
     (case read_to_string file of
        None \<Rightarrow> (None, [])
      | Some content \<Rightarrow>
          (case ce_from_json E content of
             Inr cfg \<Rightarrow> (Some cfg, [])
           | Inl e \<Rightarrow>
               (None, [(Level_Warn, Scope_Cli, ''failed to parse '' @ REMEMBERED_FILE @ '', ignoring: '' @ e)])))"

definition save_remembered :: "config_env \<Rightarrow> remembered_config \<Rightarrow> bytes option \<Rightarrow> bytes option \<times> log_entry list" where
  "save_remembered E cfg file =
     (case ce_to_json E cfg of
        Inr json \<Rightarrow>
          (case ce_write E (bytes_of_str json) file of
             (Inl e, file') \<Rightarrow>
               (file', [(Level_Warn, Scope_Cli, ''failed to write '' @ REMEMBERED_FILE @ '': '' @ io_text e)])
           | (Inr _, file') \<Rightarrow> (file', []))
      | Inl e \<Rightarrow> (file, [(Level_Warn, Scope_Cli, ''failed to serialize remembered config: '' @ e)]))"

definition trim_owned :: "string \<Rightarrow> string" where
  "trim_owned s = trim s"

definition normalize_optional_trimmed :: "string option \<Rightarrow> string option" where
  "normalize_optional_trimmed v = Option.bind (map_option trim_owned v) (\<lambda>t. if t \<noteq> [] then Some t else None)"

definition require_non_empty_trimmed :: "string \<Rightarrow> string \<Rightarrow> unit ec_result" where
  "require_non_empty_trimmed v e = (if trim v = [] then Inl (InvalidConfig e) else Inr ())"

definition PASSWORD_REQUIRED :: string where
  "PASSWORD_REQUIRED = ''password is required; pass --password or set SHIEP_PIPELINE_PASSWORD''"

definition config_validate :: "app_config \<Rightarrow> unit ec_result" where
  "config_validate cfg =
     try_map id (require_non_empty_trimmed (ac_server cfg) ''server is required'') (\<lambda>_.
       try_map id (require_non_empty_trimmed (ac_username cfg) ''username is required'') (\<lambda>_.
         if ac_password cfg = [] then Inl (InvalidConfig PASSWORD_REQUIRED)
         else try_map id (require_non_empty_trimmed (ac_socks_bind cfg) ''bind is required'') (\<lambda>_. Inr ())))"

definition config_new :: "string \<Rightarrow> string \<Rightarrow> string \<Rightarrow> string \<Rightarrow> string option \<Rightarrow> string list \<Rightarrow> bool
    \<Rightarrow> app_config ec_result" where
  "config_new server username password socks_bind fallback_proxy extra_ips details =
     (let cfg = \<lparr>ac_server = trim_owned server, ac_username = trim_owned username, ac_password = password,
            ac_socks_bind = trim_owned socks_bind,
            ac_fallback_proxy = normalize_optional_trimmed fallback_proxy,
            ac_extra_ips = filter (\<lambda>v. v \<noteq> []) (map trim_owned extra_ips), ac_details = details,
            ac_debug_enabled = False\<rparr>
      in try_map id (config_validate cfg) (\<lambda>_. Inr cfg))"

definition or_remembered :: "string option \<Rightarrow> string option \<Rightarrow> string option" where
  "or_remembered given saved = (case given of Some v \<Rightarrow> Some v | None \<Rightarrow> saved)"

definition resolve_identity :: "config_env \<Rightarrow> string option \<Rightarrow> string option \<Rightarrow> bool \<Rightarrow> bytes option
    \<Rightarrow> (string \<times> string) ec_result \<times> bytes option \<times> log_entry list" where
  "resolve_identity E server username remember file =
     (let require = (\<lambda>s u. try_map id (ok_or (InvalidConfig ''server is required'') s) (\<lambda>s.
            try_map id (ok_or (InvalidConfig ''username is required'') u) (\<lambda>u. Inr (s, u)))) in
      if remember then
        (let (remembered, logs) = load_remembered E file in
         case require (or_remembered server (map_option rc_server remembered))
                (or_remembered username (map_option rc_username remembered)) of
           Inl e \<Rightarrow> (Inl e, file, logs)
         | Inr (s, u) \<Rightarrow>
             (let (file', logs') = save_remembered E \<lparr>rc_server = s, rc_username = u\<rparr> file
              in (Inr (s, u), file', logs @ logs')))
      else (require server username, file, []))"

definition config_resolve :: "config_env \<Rightarrow> string option \<Rightarrow> string option \<Rightarrow> string \<Rightarrow> string \<Rightarrow> string option
    \<Rightarrow> string list \<Rightarrow> bool \<Rightarrow> bool \<Rightarrow> bytes option \<Rightarrow> app_config ec_result \<times> bytes option \<times> log_entry list" where
  "config_resolve E server username password socks_bind fallback_proxy extra_ips details remember file =
     map_prod (\<lambda>r. try_map id r (\<lambda>(s, u). config_new s u password socks_bind fallback_proxy extra_ips details)) id
       (resolve_identity E server username remember file)"

definition resolve_with_debug :: "config_env \<Rightarrow> string option \<Rightarrow> string option \<Rightarrow> string \<Rightarrow> string \<Rightarrow> string option
    \<Rightarrow> string list \<Rightarrow> bool \<Rightarrow> bool \<Rightarrow> bool \<Rightarrow> bytes option \<Rightarrow> app_config ec_result \<times> bytes option \<times> log_entry list" where
  "resolve_with_debug E server username password socks_bind fallback_proxy extra_ips details remember debug file =
     map_prod (\<lambda>r. try_map id r (\<lambda>cfg. Inr (cfg\<lparr>ac_debug_enabled := debug\<rparr>))) id
       (config_resolve E server username password socks_bind fallback_proxy extra_ips details remember file)"

definition new_with_debug :: "string \<Rightarrow> string \<Rightarrow> string \<Rightarrow> string \<Rightarrow> string option \<Rightarrow> string list \<Rightarrow> bool \<Rightarrow> bool
    \<Rightarrow> app_config ec_result" where
  "new_with_debug server username password socks_bind fallback_proxy extra_ips details debug =
     try_map id (config_new server username password socks_bind fallback_proxy extra_ips details)
       (\<lambda>cfg. Inr (cfg\<lparr>ac_debug_enabled := debug\<rparr>))"

section \<open>The arguments of the program\<close>

record cli_args =
  cl_server :: "string option"
  cl_username :: "string option"
  cl_password :: "string option"
  cl_socks_bind :: string
  cl_fallback_proxy :: "string option"
  cl_extra :: "string list"
  cl_details :: bool
  cl_remember :: bool
  cl_debug :: bool

definition resolve_password :: "string option \<Rightarrow> string option \<Rightarrow> string" where
  "resolve_password env_password arg_password =
     (case or_remembered arg_password env_password of Some p \<Rightarrow> p | None \<Rightarrow> [])"

definition build_config :: "bool \<Rightarrow> config_env \<Rightarrow> string option \<Rightarrow> cli_args \<Rightarrow> bytes option
    \<Rightarrow> app_config ec_result \<times> bytes option \<times> log_entry list" where
  "build_config debug_assertions E env_password args file =
     (if debug_assertions then
        resolve_with_debug E (cl_server args) (cl_username args) (resolve_password env_password (cl_password args))
          (cl_socks_bind args) (cl_fallback_proxy args) (cl_extra args) (cl_details args) (cl_remember args)
          (cl_debug args) file
      else
        config_resolve E (cl_server args) (cl_username args) (resolve_password env_password (cl_password args))
          (cl_socks_bind args) (cl_fallback_proxy args) (cl_extra args) (cl_details args) (cl_remember args) file)"

section \<open>The normal form of a configuration\<close>

text \<open>What the rest of the program may assume of a configuration.\<close>

definition trimmed :: "string \<Rightarrow> bool" where
  "trimmed s \<longleftrightarrow> s \<noteq> [] \<and> trim s = s"

definition config_wf :: "app_config \<Rightarrow> bool" where
  "config_wf cfg \<longleftrightarrow>
     trimmed (ac_server cfg) \<and> trimmed (ac_username cfg) \<and> ac_password cfg \<noteq> [] \<and> trimmed (ac_socks_bind cfg) \<and>
     (case ac_fallback_proxy cfg of None \<Rightarrow> True | Some p \<Rightarrow> trimmed p) \<and> list_all trimmed (ac_extra_ips cfg)"

lemma config_validate_iff:
  "config_validate cfg = Inr u \<longleftrightarrow>
     trim (ac_server cfg) \<noteq> [] \<and> trim (ac_username cfg) \<noteq> [] \<and> ac_password cfg \<noteq> [] \<and> trim (ac_socks_bind cfg) \<noteq> []"
  by (simp add: config_validate_def require_non_empty_trimmed_def try_map_Inr_iff)

lemma config_new_iff:
  "config_new server username password socks_bind fallback_proxy extra_ips details = Inr cfg \<longleftrightarrow>
     trim server \<noteq> [] \<and> trim username \<noteq> [] \<and> password \<noteq> [] \<and> trim socks_bind \<noteq> [] \<and>
     cfg = \<lparr>ac_server = trim server, ac_username = trim username, ac_password = password,
            ac_socks_bind = trim socks_bind, ac_fallback_proxy = normalize_optional_trimmed fallback_proxy,
            ac_extra_ips = filter (\<lambda>v. v \<noteq> []) (map trim extra_ips), ac_details = details,
            ac_debug_enabled = False\<rparr>"
  by (auto simp: config_new_def Let_def try_map_Inr_iff config_validate_iff trim_owned_def cong: map_cong)

lemma normalize_optional_cases:
  "normalize_optional_trimmed v = Some p \<Longrightarrow> trimmed p"
  by (cases v) (auto simp: normalize_optional_trimmed_def trim_owned_def trimmed_def split: if_splits)

lemma normalize_optional_wf:
  "(case v of None \<Rightarrow> True | Some p \<Rightarrow> trimmed p) \<Longrightarrow> normalize_optional_trimmed v = v"
  by (cases v) (auto simp: normalize_optional_trimmed_def trim_owned_def trimmed_def)

lemma filter_trim_wf: "list_all trimmed xs \<Longrightarrow> filter (\<lambda>v. v \<noteq> []) (map trim xs) = xs"
  by (induction xs) (auto simp: trimmed_def)

lemma filter_trimmed: "list_all trimmed (filter (\<lambda>v. v \<noteq> []) (map trim xs))"
  by (induction xs) (auto simp: trimmed_def)

text \<open>
  \<^bold>\<open>C29.\<close> The configurations \<^verbatim>\<open>AppConfig::new\<close> returns are exactly the normal ones (server, user name and
  bind address trimmed and not empty, a password, no blank proxy or extra address) without debugging;
  a normal one is returned unchanged, and every other result is an invalid-configuration error.
\<close>

theorem config_normal_form:
  "((\<exists>server username password socks_bind proxy extra details.
       config_new server username password socks_bind proxy extra details = Inr cfg) \<longleftrightarrow>
     config_wf cfg \<and> \<not> ac_debug_enabled cfg) \<and>
   (config_new (ac_server cfg) (ac_username cfg) (ac_password cfg) (ac_socks_bind cfg) (ac_fallback_proxy cfg)
      (ac_extra_ips cfg) (ac_details cfg) = Inr cfg \<longleftrightarrow> config_wf cfg \<and> \<not> ac_debug_enabled cfg)"
proof -
  have wf: "config_wf cfg \<and> \<not> ac_debug_enabled cfg"
    if "config_new server username password socks_bind proxy extra details = Inr cfg"
    for server username password socks_bind proxy extra details
    using that normalize_optional_cases [of proxy] filter_trimmed [of extra]
    by (auto simp: config_new_iff config_wf_def trimmed_def [of "trim _"] split: option.split)
  have new: "config_new (ac_server cfg) (ac_username cfg) (ac_password cfg) (ac_socks_bind cfg) (ac_fallback_proxy cfg)
      (ac_extra_ips cfg) (ac_details cfg) = Inr cfg" if "config_wf cfg \<and> \<not> ac_debug_enabled cfg"
    using that normalize_optional_wf [of "ac_fallback_proxy cfg"] filter_trim_wf [of "ac_extra_ips cfg"]
    by (cases cfg) (simp add: config_new_iff config_wf_def trimmed_def)
  from wf new show ?thesis by blast
qed

section \<open>The remembered identity\<close>

lemma load_remembered_saved:
  assumes "from_utf8 (bytes_of_str json) = Inr json" "ce_from_json E json = Inr r"
  shows "load_remembered E (Some (bytes_of_str json)) = (Some r, [])"
  using assms by (simp add: load_remembered_def read_to_string_def)

lemma save_remembered_written:
  assumes "ce_to_json E r = Inr json" "ce_write E (bytes_of_str json) file = (Inr (), file')"
  shows "save_remembered E r file = (file', [])"
  using assms by (simp add: save_remembered_def)

text \<open>
  \<^bold>\<open>C28.\<close> Remembering works across runs: a run that is given a server and a user name writes exactly
  this pair, as given and whatever becomes of the configuration, and a later run that is given neither
  has the result the same arguments would have had, and leaves the file as it is.
\<close>

theorem remember_round_trip:
  assumes "ce_to_json E \<lparr>rc_server = server, rc_username = username\<rparr> = Inr json"
    and "ce_from_json E json = Inr \<lparr>rc_server = server, rc_username = username\<rparr>"
    and "from_utf8 (bytes_of_str json) = Inr json"
    and "\<And>before. ce_write E (bytes_of_str json) before = (Inr (), Some (bytes_of_str json))"
  shows "fst (snd (config_resolve E (Some server) (Some username) pw0 bind0 proxy0 extra0 details0 True file)) =
       Some (bytes_of_str json) \<and>
     config_resolve E None None pw socks_bind proxy extra details True (Some (bytes_of_str json)) =
       (config_new server username pw socks_bind proxy extra details, Some (bytes_of_str json), [])"
proof -
  note saved = save_remembered_written [OF assms(1) assms(4)]
  note loaded = load_remembered_saved [OF assms(3,2)]
  show ?thesis
    by (simp add: config_resolve_def resolve_identity_def Let_def saved loaded or_remembered_def ok_or_def
        split: prod.split)
qed

text \<open>
  The password is never saved: what a run leaves in the remembered file, and what it logs about
  it, does not depend on the password, the bind address, the proxy, the extra addresses or the details
  flag, nor on whether the configuration is valid; without \<^verbatim>\<open>--remember\<close> the file is not touched.
\<close>

theorem password_never_saved:
  "snd (build_config dbg E env_password args file) =
     (if cl_remember args then
        snd (resolve_identity E (cl_server args) (cl_username args) True file) else (file, [])) \<and>
   snd (build_config dbg E env_password' (args\<lparr>cl_password := password'\<rparr>) file) = snd (build_config dbg E env_password args file)"
  by (simp add: build_config_def resolve_with_debug_def config_resolve_def resolve_identity_def Let_def)

section \<open>Witnesses\<close>

definition toy_store :: config_env where
  "toy_store = \<lparr>ce_from_json = (\<lambda>s. case split_once '':'' s of
        None \<Rightarrow> Inl ''expected a colon''
      | Some (a, b) \<Rightarrow> Inr \<lparr>rc_server = a, rc_username = b\<rparr>),
     ce_to_json = (\<lambda>r. Inr (rc_server r @ '':'' @ rc_username r)),
     ce_write = (\<lambda>bs file. (Inr (), Some bs))\<rparr>"

theorem remember_round_trip_witness:
  "fst (snd (config_resolve toy_store (Some '' '') (Some ''alice'') ''pw'' ''b'' None [] False True None)) =
     Some (bytes_of_str '' :alice'') \<and>
   fst (config_resolve toy_store None None ''pw'' ''b'' None [] False True (Some (bytes_of_str '' :alice''))) =
     Inl (InvalidConfig ''server is required'')"
proof -
  have r: "ce_to_json toy_store \<lparr>rc_server = '' '', rc_username = ''alice''\<rparr> = Inr '' :alice''"
    "ce_from_json toy_store '' :alice'' = Inr \<lparr>rc_server = '' '', rc_username = ''alice''\<rparr>"
    "from_utf8 (bytes_of_str '' :alice'') = Inr '' :alice''"
    "\<And>before. ce_write toy_store (bytes_of_str '' :alice'') before = (Inr (), Some (bytes_of_str '' :alice''))"
    by (code_simp, code_simp, code_simp, simp add: toy_store_def)
  have "config_new '' '' ''alice'' ''pw'' ''b'' None [] False = Inl (InvalidConfig ''server is required'')"
    by code_simp
  with remember_round_trip [OF r, of "''pw''" "''b''" None "[]" False None "''pw''" "''b''" None "[]" False]
  show ?thesis by simp
qed

end
