(* ===== verification/Tls.thy ===== *)
theory Tls
  imports RustIO
begin

text \<open>
  \<^verbatim>\<open>ec-core/src/tls.rs\<close>, \<^verbatim>\<open>protocol_session.rs\<close>, and the TLS connection of \<^verbatim>\<open>protocol.rs\<close>. The calls of
  the socket and OpenSSL libraries are the parameter \<open>tls_lib\<close>: the outcome of each. What the code
  sets on a socket, a context or a connection before the handshake is a record, which the handshake
  gets. The foreign calls on a raw \<^verbatim>\<open>SSL_SESSION\<close> are a trace of calls with their results.
\<close>

definition VPN_TCP_KEEPALIVE_IDLE :: nat where "VPN_TCP_KEEPALIVE_IDLE = 60000"
definition VPN_TCP_KEEPALIVE_INTERVAL :: nat where "VPN_TCP_KEEPALIVE_INTERVAL = 1000"
definition VPN_TCP_KEEPALIVE_RETRIES :: nat where "VPN_TCP_KEEPALIVE_RETRIES = 3"

record tcp_conf =
  tc_authority :: string
  tc_read_timeout :: nat
  tc_write_timeout :: nat
  tc_keepalive :: "(nat \<times> nat \<times> nat) option"

record connector =
  co_verify_peer :: bool
  co_tickets :: bool
  co_security_level :: "nat option"
  co_cipher_list :: "string option"

record ssl_conf =
  sc_connector :: connector
  sc_host :: string
  sc_verify_hostname :: bool
  sc_sni :: bool
  sc_session :: "(bytes \<times> bytes) option"

text \<open>The result codes of the foreign calls (1 is success) and the text of the error stack.\<close>

record session_calls =
  ss_new :: bool
  ss_protocol :: int
  ss_master :: int
  ss_id :: int
  ss_set :: int
  ss_errors :: string

record tls_lib =
  tl_connect :: "string \<Rightarrow> io_error + unit"
  tl_read_timeout :: "io_error + unit"
  tl_write_timeout :: "io_error + unit"
  tl_keepalive :: "io_error + unit"
  tl_builder :: "string + unit"
  tl_ciphers :: "string + unit"
  tl_configure :: "string + unit"
  tl_into_ssl :: "string + unit"
  tl_session :: session_calls
  tl_handshake :: "ssl_conf \<Rightarrow> tcp_conf \<Rightarrow> string + stream"

definition lib_err :: "string \<Rightarrow> string \<Rightarrow> ec_error" where
  "lib_err what e = Runtime (what @ e)"

section \<open>Sockets, contexts, connections\<close>

definition connect_tcp_with_timeout :: "tls_lib \<Rightarrow> string \<Rightarrow> nat \<Rightarrow> string \<Rightarrow> tcp_conf ec_result" where
  "connect_tcp_with_timeout T authority limit context =
     try_map (io_err (context @ '' tcp connect failed: '')) (tl_connect T authority) (\<lambda>_.
       try_map (io_err ''set read timeout failed: '') (tl_read_timeout T) (\<lambda>_.
         try_map (io_err ''set write timeout failed: '') (tl_write_timeout T) (\<lambda>_.
           Inr \<lparr>tc_authority = authority, tc_read_timeout = limit, tc_write_timeout = limit, tc_keepalive = None\<rparr>)))"

definition apply_vpn_tcp_keepalive :: "tls_lib \<Rightarrow> tcp_conf \<Rightarrow> tcp_conf ec_result" where
  "apply_vpn_tcp_keepalive T tcp =
     try_map (io_err ''set vpn tcp keepalive failed: '') (tl_keepalive T) (\<lambda>_.
       Inr (tcp\<lparr>tc_keepalive := Some (VPN_TCP_KEEPALIVE_IDLE, VPN_TCP_KEEPALIVE_INTERVAL, VPN_TCP_KEEPALIVE_RETRIES)\<rparr>))"

definition connect_vpn_tcp :: "tls_lib \<Rightarrow> string \<Rightarrow> nat \<Rightarrow> tcp_conf ec_result" where
  "connect_vpn_tcp T authority limit =
     try_map id (connect_tcp_with_timeout T authority limit ''vpn'') (apply_vpn_tcp_keepalive T)"

definition new_insecure_connector_builder :: "tls_lib \<Rightarrow> string \<Rightarrow> connector ec_result" where
  "new_insecure_connector_builder T context =
     try_map (lib_err (context @ '' tls builder create failed: '')) (tl_builder T) (\<lambda>_.
       Inr \<lparr>co_verify_peer = False, co_tickets = False, co_security_level = None, co_cipher_list = None\<rparr>)"

definition new_insecure_connector :: "tls_lib \<Rightarrow> string \<Rightarrow> connector ec_result" where
  "new_insecure_connector T context = new_insecure_connector_builder T context"

definition into_insecure_ssl_with :: "tls_lib \<Rightarrow> connector \<Rightarrow> string \<Rightarrow> string \<Rightarrow> (ssl_conf \<Rightarrow> ssl_conf) \<Rightarrow> ssl_conf ec_result" where
  "into_insecure_ssl_with T connector host context configure =
     try_map (lib_err (context @ '' tls configure failed: '')) (tl_configure T) (\<lambda>_.
       let config = configure \<lparr>sc_connector = connector, sc_host = host, sc_verify_hostname = False,
                               sc_sni = True, sc_session = None\<rparr> in
       try_map (lib_err (context @ '' tls prepare failed: '')) (tl_into_ssl T) (\<lambda>_. Inr config))"

definition into_insecure_ssl :: "tls_lib \<Rightarrow> connector \<Rightarrow> string \<Rightarrow> string \<Rightarrow> ssl_conf ec_result" where
  "into_insecure_ssl T connector host context = into_insecure_ssl_with T connector host context id"

definition tls_handshake :: "tls_lib \<Rightarrow> ssl_conf \<Rightarrow> tcp_conf \<Rightarrow> string \<Rightarrow> stream ec_result" where
  "tls_handshake T ssl tcp context = try_map (lib_err (context @ '' tls handshake failed: '')) (tl_handshake T ssl tcp) Inr"

section \<open>The session of the VPN protocol\<close>

definition l3ip_session_id :: bytes where
  "l3ip_session_id = bytes_of_str ''L3IP'' @ replicate 28 0"

definition l3ip_master_key :: bytes where
  "l3ip_master_key = map (\<lambda>i. (word_of_nat i XOR 90) + 17) [0..<48]"

datatype session_call =
    Session_New
  | Session_Set_Protocol int
  | Session_Set_Master bytes
  | Session_Set_Id bytes
  | Ssl_Set_Session
  | Session_Free

text \<open>
  The wrappers return 0 on a null pointer without calling; \<open>null\<close> says whether the session is.
\<close>

definition ssl_session_new :: "session_calls \<Rightarrow> unit option \<times> session_call list" where
  "ssl_session_new C = (if ss_new C then Some () else None, [Session_New])"

definition ssl_session_set_protocol_version :: "session_calls \<Rightarrow> bool \<Rightarrow> int \<Rightarrow> int \<times> session_call list" where
  "ssl_session_set_protocol_version C null version =
     (if null then (0, []) else (ss_protocol C, [Session_Set_Protocol version]))"

definition ssl_session_set1_master_key :: "session_calls \<Rightarrow> bool \<Rightarrow> bytes \<Rightarrow> int \<times> session_call list" where
  "ssl_session_set1_master_key C null key = (if null then (0, []) else (ss_master C, [Session_Set_Master key]))"

definition ssl_session_set1_id :: "session_calls \<Rightarrow> bool \<Rightarrow> bytes \<Rightarrow> int \<times> session_call list" where
  "ssl_session_set1_id C null sid = (if null then (0, []) else (ss_id C, [Session_Set_Id sid]))"

definition apply_l3ip_session_id :: "session_calls \<Rightarrow> int \<Rightarrow> unit ec_result \<times> session_call list" where
  "apply_l3ip_session_id C session_version =
     (let failed = (\<lambda>what. Inl (Runtime (what @ '' failed: '' @ ss_errors C))) in
      case ssl_session_new C of
        (None, calls) \<Rightarrow> (failed ''create SSL_SESSION'', calls)
      | (Some _, calls) \<Rightarrow>
          (let (set_proto_rc, c) = ssl_session_set_protocol_version C False session_version; calls = calls @ c in
           if set_proto_rc \<noteq> 1 then (failed ''SSL_SESSION_set_protocol_version'', calls @ [Session_Free])
           else
             (let (set_master_rc, c) = ssl_session_set1_master_key C False l3ip_master_key; calls = calls @ c in
              if set_master_rc \<noteq> 1 then (failed ''SSL_SESSION_set1_master_key'', calls @ [Session_Free])
              else
                (let (set_id_rc, c) = ssl_session_set1_id C False l3ip_session_id; calls = calls @ c in
                 if set_id_rc \<noteq> 1 then (failed ''SSL_SESSION_set1_id'', calls @ [Session_Free])
                 else
                   (let set_session_rc = ss_set C; calls = calls @ [Ssl_Set_Session, Session_Free] in
                    if set_session_rc \<noteq> 1 then (failed ''SSL_set_session'', calls) else (Inr (), calls))))))"

section \<open>The TLS connections of the program\<close>

definition open_vpn_tls :: "tls_lib \<Rightarrow> string \<Rightarrow> string \<Rightarrow> stream ec_result" where
  "open_vpn_tls T authority host =
     try_map id (connect_vpn_tcp T authority 5000) (\<lambda>tcp.
       try_map id (new_insecure_connector_builder T ''vpn'') (\<lambda>builder.
         let builder = builder\<lparr>co_security_level := Some 0\<rparr> in
         try_map (lib_err ''set cipher list failed: '') (tl_ciphers T) (\<lambda>_.
           let connector = builder\<lparr>co_cipher_list := Some ''RC4-SHA:AES128-SHA:AES256-SHA''\<rparr> in
           try_map id (into_insecure_ssl_with T connector host ''vpn'' (\<lambda>config. config\<lparr>sc_sni := False\<rparr>)) (\<lambda>ssl.
             try_map id (fst (apply_l3ip_session_id (tl_session T) 771)) (\<lambda>_.
               tls_handshake T (ssl\<lparr>sc_session := Some (l3ip_session_id, l3ip_master_key)\<rparr>) tcp ''vpn'')))))"

definition route_table_connect_tls :: "tls_lib \<Rightarrow> string \<Rightarrow> string \<Rightarrow> stream ec_result" where
  "route_table_connect_tls T authority host =
     try_map id (connect_tcp_with_timeout T authority 5000 ''rclist'') (\<lambda>tcp.
       try_map id (new_insecure_connector T ''rclist'') (\<lambda>connector.
         try_map id (into_insecure_ssl T connector host ''rclist'') (\<lambda>ssl. tls_handshake T ssl tcp ''rclist'')))"

section \<open>What the server is asked\<close>

text \<open>A trace uses the session only between its creation and its one release.\<close>

definition released_once :: "session_call list \<Rightarrow> bool" where
  "released_once calls \<longleftrightarrow> hd calls = Session_New \<and> List.last calls = Session_Free \<and>
     count_list calls Session_New = 1 \<and> count_list calls Session_Free = 1"

text \<open>
  \<^bold>\<open>C25.\<close> The foreign session object of the VPN handshake: when it is created it is released exactly
  once, by the last call on it, on every path; when it is not, nothing is called on it. The function
  succeeds exactly when every call succeeds, and only then has the connection been given a session,
  after the version, the 48-byte key and the 32-byte id were set, in this order.
\<close>

theorem session_released_once:
  "case apply_l3ip_session_id C version of (r, calls) \<Rightarrow>
     (if ss_new C then released_once calls else calls = [Session_New]) \<and>
     (r = Inr () \<longleftrightarrow> ss_new C \<and> ss_protocol C = 1 \<and> ss_master C = 1 \<and> ss_id C = 1 \<and> ss_set C = 1) \<and>
     (Ssl_Set_Session \<in> set calls \<longleftrightarrow> calls = [Session_New, Session_Set_Protocol version,
        Session_Set_Master l3ip_master_key, Session_Set_Id l3ip_session_id, Ssl_Set_Session, Session_Free]) \<and>
     length l3ip_master_key = 48 \<and> length l3ip_session_id = 32"
  by (simp add: Let_def apply_l3ip_session_id_def ssl_session_new_def ssl_session_set_protocol_version_def
      ssl_session_set1_master_key_def ssl_session_set1_id_def released_once_def l3ip_master_key_def
      l3ip_session_id_def)

end
