(* ===== verification/Endpoint.thy ===== *)
theory Endpoint
  imports Errors
begin

text \<open>
  \<^verbatim>\<open>ec-core/src/endpoint.rs\<close>: a server argument becomes an authority (\<^verbatim>\<open>host:port\<close>, the default
  port 443 appended) and the host alone.
\<close>

definition DEFAULT_TLS_PORT :: nat where
  "DEFAULT_TLS_PORT = 443"

definition strip_http_scheme :: "string \<Rightarrow> string" where
  "strip_http_scheme server =
     (case strip_prefix ''https://'' server of
        Some r \<Rightarrow> r
      | None \<Rightarrow> (case strip_prefix ''http://'' server of Some r \<Rightarrow> r | None \<Rightarrow> server))"

definition authority_port_candidate :: "string \<Rightarrow> string option" where
  "authority_port_candidate authority =
     (if starts_with ''['' authority then map_option snd (rsplit_once '']:'' authority)
      else map_option snd (rsplit_once '':'' authority))"

definition has_explicit_port :: "string \<Rightarrow> bool" where
  "has_explicit_port authority \<longleftrightarrow>
     (case authority_port_candidate authority of
        None \<Rightarrow> False
      | Some port \<Rightarrow> parse_u16 port \<noteq> None)"

definition looks_like_malformed_port :: "string \<Rightarrow> bool" where
  "looks_like_malformed_port authority \<longleftrightarrow>
     (case authority_port_candidate authority of None \<Rightarrow> False | Some port \<Rightarrow> port \<noteq> [])"

definition normalize_authority :: "string \<Rightarrow> string ec_result" where
  "normalize_authority authority =
     (if has_explicit_port authority then Inr authority
      else if looks_like_malformed_port authority then Inl (InvalidConfig ''invalid server port'')
      else Inr (authority @ '':'' @ dec_of_nat DEFAULT_TLS_PORT))"

definition extract_host :: "string \<Rightarrow> string ec_result" where
  "extract_host authority =
     (if starts_with ''['' authority then
        (case find_sub '']'' authority of
           None \<Rightarrow> Inl (Runtime ''invalid ipv6 authority format'')
         | Some e \<Rightarrow> Inr (drop 1 (take e authority)))
      else
        (case rsplit_once '':'' authority of
           Some (host, _) \<Rightarrow>
             if host = [] then Inl (Runtime ''invalid host in server authority'') else Inr host
         | None \<Rightarrow> Inr authority))"

definition parse_server :: "string \<Rightarrow> (string \<times> string) ec_result" where
  "parse_server server =
     (let trimmed = trim server in
      if trimmed = [] then Inl (InvalidConfig ''server is required'')
      else
        (case split_char CHR ''/'' (strip_http_scheme trimmed) of
           [] \<Rightarrow> Inl (Runtime ''invalid server address'')
         | authority_raw # _ \<Rightarrow>
             if authority_raw = [] then Inl (Runtime ''invalid server authority'')
             else
               try_map id (normalize_authority authority_raw) (\<lambda>authority.
                 try_map id (extract_host authority) (\<lambda>host. Inr (authority, host)))))"

section \<open>What the endpoint parser returns\<close>

lemma dec_443 [simp]: "dec_of_nat DEFAULT_TLS_PORT = ''443''"
  by code_simp

lemma parse_u16_443: "parse_u16 ''443'' = Some 443"
  by code_simp

lemma colon_443: "a @ '':443'' = a @ CHR '':'' # ''443''" "CHR '':'' \<notin> set ''443''"
  by simp_all

lemma candidate_default:
  "\<not> starts_with ''['' a \<Longrightarrow> a \<noteq> [] \<Longrightarrow> authority_port_candidate (a @ '':443'') = Some ''443''"
  by (cases a) (simp_all add: authority_port_candidate_def rsplit_once_char_append
                 rsplit_once_char_append [of _ _ "_ # _", simplified])

lemma normalize_authority_Inr:
  assumes "normalize_authority a = Inr b" and "a \<noteq> []" and "\<not> starts_with ''['' a"
  shows "\<not> starts_with ''['' b \<and> (\<exists>h p. rsplit_once '':'' b = Some (h, p) \<and> parse_u16 p \<noteq> None)"
proof (cases "has_explicit_port a")
  case True
  with assms have "b = a" by (simp add: normalize_authority_def)
  with True assms(3) show ?thesis
    by (auto simp: has_explicit_port_def authority_port_candidate_def split: option.splits)
next
  case False
  with assms(1) have b: "b = a @ CHR '':'' # ''443''"
    by (auto simp: normalize_authority_def split: if_splits)
  moreover from b have "rsplit_once '':'' b = Some (a, ''443'')"
    using rsplit_once_char_append [of "CHR '':''" "''443''" a] by simp
  moreover from b assms(2,3) have "\<not> starts_with ''['' b" by (cases a) simp_all
  ultimately show ?thesis using parse_u16_443 by auto
qed

text \<open>
  Every authority \<^verbatim>\<open>parse_server\<close> returns carries its host: a bracketed authority is the
  host between the first pair of brackets; any other authority is exactly the (non-empty) host,
  a colon and a port that parses as \<^verbatim>\<open>u16\<close>. An authority without a usable port is never returned.
\<close>

theorem parse_server_authority:
  assumes "parse_server s = Inr (authority, host)"
  shows "if starts_with ''['' authority
         then \<exists>r. authority = ''['' @ host @ '']'' @ r \<and> CHR '']'' \<notin> set host
         else host \<noteq> [] \<and> (\<exists>port. authority = host @ '':'' @ port \<and> parse_u16 port \<noteq> None)"
proof -
  from assms obtain raw rest where
    raw: "raw \<noteq> []" and norm: "normalize_authority raw = Inr authority"
    and host: "extract_host authority = Inr host"
    by (auto simp: parse_server_def Let_def try_map_Inr_iff split: if_splits list.splits)
  show ?thesis
  proof (cases "starts_with ''['' authority")
    case True
    with host obtain e where e: "find_sub '']'' authority = Some e"
      and h: "host = drop 1 (take e authority)"
      by (auto simp: extract_host_def split: option.splits)
    then have e': "e = length (takeWhile (\<lambda>c. c \<noteq> CHR '']'') authority)" and "CHR '']'' \<in> set authority"
      by (auto simp: find_sub_char split: if_splits)
    then have pre: "take e authority = takeWhile (\<lambda>c. c \<noteq> CHR '']'') authority"
      by (simp add: takeWhile_eq_take [symmetric])
    from find_sub_Some [OF e] have auth: "authority = take e authority @ '']'' @ drop (e + 1) authority"
      by simp
    from True obtain r where r: "authority = CHR ''['' # r" by (auto simp: starts_with_iff)
    have "take e authority = ''['' @ host"
      unfolding h pre using r by simp
    moreover have "CHR '']'' \<notin> set host"
      unfolding h pre using r by (auto dest: set_takeWhileD)
    ultimately show ?thesis using True auth by auto
  next
    case False
    have "\<not> starts_with ''['' raw"
    proof
      assume "starts_with ''['' raw"
      with norm have "starts_with ''['' authority"
        by (auto simp: normalize_authority_def starts_with_iff split: if_splits)
      with False show False by simp
    qed
    from normalize_authority_Inr [OF norm raw this] obtain h p
      where hp: "rsplit_once '':'' authority = Some (h, p)" "parse_u16 p \<noteq> None" by blast
    with host False have "host = h" "h \<noteq> []"
      by (auto simp: extract_host_def split: if_splits)
    with rsplit_once_Some [OF hp(1)] hp(2) False show ?thesis by auto
  qed
qed

definition plain_host :: "string \<Rightarrow> bool" where
  "plain_host h \<longleftrightarrow>
     h \<noteq> [] \<and> list_all is_graph h \<and>
     list_all (\<lambda>c. c \<noteq> CHR '':'' \<and> c \<noteq> CHR ''/'' \<and> c \<noteq> CHR ''['') h"

lemma parse_server_raw:
  assumes "trim s = s" and "s \<noteq> []" and "takeWhile (\<lambda>c. c \<noteq> CHR ''/'') (strip_http_scheme s) = raw"
    and "raw \<noteq> []"
  shows "parse_server s =
     try_map id (normalize_authority raw) (\<lambda>authority.
       try_map id (extract_host authority) (\<lambda>host. Inr (authority, host)))"
proof -
  obtain t where "split_char CHR ''/'' (strip_http_scheme s) = raw # t"
    using assms(3) split_char_hd [of "CHR ''/''" "strip_http_scheme s"]
      split_char_nonempty [of "CHR ''/''" "strip_http_scheme s"]
    by (metis list.collapse)
  with assms(1,2,4) show ?thesis
    by (simp add: parse_server_def Let_def)
qed

lemma no_colon_no_scheme:
  "CHR '':'' \<notin> set s \<Longrightarrow> strip_http_scheme s = s"
  "CHR ''/'' \<notin> set s \<Longrightarrow> strip_http_scheme s = s"
  by (auto simp: strip_http_scheme_def strip_prefix_Some_iff split: option.splits)

lemma strip_https [simp]: "strip_http_scheme (''https://'' @ r) = r"
  using strip_prefix_append [of "''https://''" r] by (simp add: strip_http_scheme_def)

lemma plain_hostD:
  assumes "plain_host h"
  shows "h \<noteq> []" "list_all is_graph h" "CHR '':'' \<notin> set h" "CHR ''/'' \<notin> set h" "\<not> starts_with ''['' (h @ r)"
proof -
  from assms show "h \<noteq> []" and "list_all is_graph h" and "CHR '':'' \<notin> set h" and "CHR ''/'' \<notin> set h"
    unfolding plain_host_def list_all_iff by blast+
  from assms have "h \<noteq> []" "CHR ''['' \<notin> set h"
    unfolding plain_host_def list_all_iff by blast+
  then show "\<not> starts_with ''['' (h @ r)" by (cases h) simp_all
qed

lemma extract_host_port:
  assumes "plain_host h" and "CHR '':'' \<notin> set p"
  shows "extract_host (h @ CHR '':'' # p) = Inr h"
    and "authority_port_candidate (h @ CHR '':'' # p) = Some p"
  using plain_hostD [OF assms(1)] rsplit_once_char_append [OF assms(2), of h]
  by (simp_all add: extract_host_def authority_port_candidate_def)

lemma normalize_plain:
  assumes "plain_host h" and "CHR '':'' \<notin> set p"
  shows "normalize_authority (h @ CHR '':'' # p) =
     (if parse_u16 p \<noteq> None then Inr (h @ CHR '':'' # p)
      else if p \<noteq> [] then Inl (InvalidConfig ''invalid server port'')
      else Inr (h @ ''::443''))"
    and "normalize_authority h = Inr (h @ '':443'')"
proof -
  show "normalize_authority (h @ CHR '':'' # p) =
     (if parse_u16 p \<noteq> None then Inr (h @ CHR '':'' # p)
      else if p \<noteq> [] then Inl (InvalidConfig ''invalid server port'')
      else Inr (h @ ''::443''))"
    using extract_host_port(2) [OF assms]
    by (auto simp: normalize_authority_def has_explicit_port_def looks_like_malformed_port_def)
  have "authority_port_candidate h = None"
    using plain_hostD(3,5) [OF assms(1)] plain_hostD(5) [OF assms(1), of "[]"]
      rsplit_once_char_None [of "CHR '':''" h]
    by (simp add: authority_port_candidate_def)
  then show "normalize_authority h = Inr (h @ '':443'')"
    by (simp add: normalize_authority_def has_explicit_port_def looks_like_malformed_port_def)
qed

text \<open>
  For a plain host name (printable ASCII, no colon, slash or opening bracket): the bare
  name gets the default port; an \<^verbatim>\<open>https://\<close> URL with an explicit port and a path keeps the port
  and loses scheme and path; any non-empty port text that is no \<^verbatim>\<open>u16\<close> is refused.
\<close>

theorem parse_server_plain_host:
  assumes "plain_host h" and "list_all is_graph path"
    and "list_all is_graph bad" and "CHR '':'' \<notin> set bad" and "CHR ''/'' \<notin> set bad"
    and "bad \<noteq> []" and "parse_u16 bad = None"
  shows "parse_server h = Inr (h @ '':443'', h) \<and>
    parse_server (''https://'' @ h @ '':'' @ dec_u16 p @ ''/'' @ path) = Inr (h @ '':'' @ dec_u16 p, h) \<and>
    parse_server (h @ '':'' @ bad) = Inl (InvalidConfig ''invalid server port'')"
proof (intro conjI)
  note h = plain_hostD [OF assms(1)]
  have graph443: "list_all is_graph ''443''" by (simp add: is_graph_def)
  show "parse_server h = Inr (h @ '':443'', h)"
    using h(1-4) normalize_plain(2) [OF assms(1), of "''443''"] extract_host_port(1) [OF assms(1), of "''443''"]
    by (subst parse_server_raw [of _ h])
      (auto simp: trim_graph no_colon_no_scheme takeWhile_eq_all_conv)
  let ?a = "h @ CHR '':'' # dec_u16 p"
  have colon: "CHR '':'' \<notin> set (dec_u16 p)" and slash: "CHR ''/'' \<notin> set (dec_u16 p)"
    by (simp_all add: dec_of_nat_not_digit)
  have graph: "list_all is_graph (''https://'' @ ?a @ CHR ''/'' # path)"
    using h(2) assms(2) dec_of_nat_graph by (simp add: is_graph_def)
  have take: "takeWhile (\<lambda>c. c \<noteq> CHR ''/'') (strip_http_scheme (''https://'' @ ?a @ CHR ''/'' # path)) = ?a"
    unfolding strip_https using h(4) slash
    by (subst takeWhile_append2) auto
  show "parse_server (''https://'' @ h @ '':'' @ dec_u16 p @ ''/'' @ path) = Inr (h @ '':'' @ dec_u16 p, h)"
    using parse_server_raw [OF trim_graph [OF graph] _ take] normalize_plain(1) [OF assms(1) colon]
      extract_host_port(1) [OF assms(1) colon]
    by (simp add: parse_u16_dec)
  have graphb: "list_all is_graph (h @ CHR '':'' # bad)"
    using h(2) assms(3) by (simp add: is_graph_def)
  have takeb: "takeWhile (\<lambda>c. c \<noteq> CHR ''/'') (strip_http_scheme (h @ CHR '':'' # bad)) = h @ CHR '':'' # bad"
    using h(4) assms(5) by (auto simp: no_colon_no_scheme takeWhile_eq_all_conv)
  show "parse_server (h @ '':'' @ bad) = Inl (InvalidConfig ''invalid server port'')"
    using parse_server_raw [OF trim_graph [OF graphb] _ takeb] normalize_plain(1) [OF assms(1,4)] assms(6,7)
    by simp
qed

text \<open>
  A trailing colon slips through the port check: the empty port text is neither a port
  nor malformed, so the default port is appended after the colon and the returned host keeps it.
\<close>

theorem parse_server_trailing_colon:
  assumes "plain_host h"
  shows "parse_server (h @ '':'') = Inr (h @ ''::443'', h @ '':'')"
proof -
  note h = plain_hostD [OF assms]
  have graph: "list_all is_graph (h @ '':'')" using h(2) by (simp add: is_graph_def)
  have take: "takeWhile (\<lambda>c. c \<noteq> CHR ''/'') (strip_http_scheme (h @ '':'')) = h @ '':''"
    using h(4) by (auto simp: no_colon_no_scheme takeWhile_eq_all_conv)
  have norm: "normalize_authority (h @ '':'') = Inr (h @ ''::443'')"
    using normalize_plain(1) [OF assms, of "[]"] by (simp add: parse_u16_def parse_uint_def)
  have "rsplit_once '':'' ((h @ '':'') @ CHR '':'' # ''443'') = Some (h @ '':'', ''443'')"
    by (rule rsplit_once_char_append) simp
  then have "extract_host (h @ ''::443'') = Inr (h @ '':'')"
    using h(5) [of "''::443''"] by (simp add: extract_host_def)
  with parse_server_raw [OF trim_graph [OF graph] _ take] norm show ?thesis by simp
qed

section \<open>Witnesses\<close>

theorem parse_server_authority_witness:
  "parse_server ''https://vpn.example.com:8443/login'' = Inr (''vpn.example.com:8443'', ''vpn.example.com'') \<and>
   ''vpn.example.com'' \<noteq> [] \<and>
   (\<exists>port. ''vpn.example.com:8443'' = ''vpn.example.com'' @ '':'' @ port \<and> parse_u16 port \<noteq> None)"
proof -
  have "parse_server ''https://vpn.example.com:8443/login'' = Inr (''vpn.example.com:8443'', ''vpn.example.com'')"
    by code_simp
  from this parse_server_authority [OF this] show ?thesis by simp
qed

theorem parse_server_plain_host_witness:
  "plain_host ''vpn'' \<and> parse_server ''vpn'' = Inr (''vpn:443'', ''vpn'') \<and>
   parse_server (''https://vpn:'' @ dec_u16 80 @ ''/por'') = Inr (''vpn:'' @ dec_u16 80, ''vpn'') \<and>
   parse_server ''vpn:abc'' = Inl (InvalidConfig ''invalid server port'')"
proof -
  have h: "plain_host ''vpn''" "list_all is_graph ''por''" "list_all is_graph ''abc''"
    "CHR '':'' \<notin> set ''abc''" "CHR ''/'' \<notin> set ''abc''" "''abc'' \<noteq> []"
    by (simp_all add: plain_host_def is_graph_def)
  have bad: "parse_u16 ''abc'' = None" by code_simp
  from parse_server_plain_host [OF h bad, of 80] h(1) show ?thesis by simp
qed

theorem parse_server_trailing_colon_witness:
  "plain_host ''vpn'' \<and> parse_server ''vpn:'' = Inr (''vpn::443'', ''vpn:'')"
proof -
  have "plain_host ''vpn''" by (simp add: plain_host_def is_graph_def)
  with parse_server_trailing_colon [OF this] show ?thesis by simp
qed

end
