(* ===== verification/Login.thy ===== *)
theory Login
  imports Config Tls Endpoint ProtocolWire
begin

text \<open>
  \<^verbatim>\<open>ec-core/src/auth.rs\<close> and \<^verbatim>\<open>token.rs\<close>: the login on the web interface of the server, and the agent
  token from a TLS connection. The HTTP client, the RSA key and encryption, the percent and
  hexadecimal encodings and the TLS connection are parameters. The result of a login comes with the requests that were sent
  and with its log lines.
\<close>

section \<open>The login\<close>

definition TAG_RESULT_SUCCESS :: string where "TAG_RESULT_SUCCESS = ''<Result>1</Result>''"

definition NEXT_SMS_MARKERS :: "string list" where
  "NEXT_SMS_MARKERS = [''<NextService>auth/sms</NextService>'', ''<NextAuth>2</NextAuth>'']"

definition NEXT_TOTP_MARKERS :: "string list" where
  "NEXT_TOTP_MARKERS =
     [''<NextService>auth/token</NextService>'', ''<NextServiceSubType>totp</NextServiceSubType>'']"

record http_request =
  hr_method :: string
  hr_url :: string
  hr_headers :: "(string \<times> string) list"
  hr_body :: string

text \<open>Sending fails (also on an error status), reading the body fails, or there is a body.\<close>

datatype http_reply = Send_Failed string | Body_Failed string | Http_Body string

record 'key login_env =
  le_ansi :: ansi
  le_client :: "string + unit"
  le_http :: "http_request \<Rightarrow> http_reply"
  le_urlencode :: "string \<Rightarrow> string"
  le_parse_hex :: "string \<Rightarrow> nat option"
  le_public_key :: "nat \<Rightarrow> u32 \<Rightarrow> string + 'key"
  le_encrypt :: "'key \<Rightarrow> bytes \<Rightarrow> string + bytes"
  le_hex :: "bytes \<Rightarrow> string"

definition build_http_client :: "'key login_env \<Rightarrow> unit ec_result" where
  "build_http_client E = try_map (lib_err ''http client build failed: '') (le_client E) Inr"

definition normalize_base_url :: "string \<Rightarrow> string" where
  "normalize_base_url server =
     (if starts_with ''https://'' server \<or> starts_with ''http://'' server then server else ''https://'' @ server)"

definition extract_tag :: "string \<Rightarrow> string \<Rightarrow> string option" where
  "extract_tag body tag =
     (let opening = ''<'' @ tag @ ''>''; closing = ''</'' @ tag @ ''>'' in
      case find_sub opening body of
        None \<Rightarrow> None
      | Some start \<Rightarrow>
          (let rest = drop (start + length opening) body in
           map_option (\<lambda>end_rel. take end_rel rest) (find_sub closing rest)))"

definition require_tag :: "string \<Rightarrow> string \<Rightarrow> string \<Rightarrow> string ec_result" where
  "require_tag body tag stage =
     ok_or (Runtime (''missing <'' @ tag @ ''> in '' @ stage @ '' response'')) (extract_tag body tag)"

definition contains_any :: "string \<Rightarrow> string list \<Rightarrow> bool" where
  "contains_any haystack needles = list_ex (\<lambda>needle. str_contains needle haystack) needles"

definition unsupported_2fa_reason :: "string \<Rightarrow> string option" where
  "unsupported_2fa_reason body =
     (if contains_any body NEXT_SMS_MARKERS then Some ''sms 2fa is out of current minimal scope''
      else if contains_any body NEXT_TOTP_MARKERS then Some ''totp 2fa is out of current minimal scope''
      else None)"

definition encrypt_password_hex :: "'key login_env \<Rightarrow> string \<Rightarrow> string \<Rightarrow> string \<Rightarrow> string ec_result" where
  "encrypt_password_hex E password rsa_key_hex rsa_exp =
     try_map id (ok_or (Runtime ''invalid RSA modulus'') (le_parse_hex E rsa_key_hex)) (\<lambda>modulus.
       try_map (lib_err ''invalid RSA exponent: '') (parse_uint 32 rsa_exp) (\<lambda>exponent.
         try_map (lib_err ''invalid RSA public key: '') (le_public_key E modulus (word_of_nat exponent)) (\<lambda>key.
           try_map (lib_err ''RSA encrypt failed: '') (le_encrypt E key (bytes_of_str password)) (\<lambda>encrypted.
             Inr (le_hex E encrypted)))))"

definition http_body :: "string \<Rightarrow> http_reply \<Rightarrow> string ec_result" where
  "http_body stage reply =
     (case reply of
        Send_Failed e \<Rightarrow> Inl (Runtime (stage @ '' request failed: '' @ e))
      | Body_Failed e \<Rightarrow> Inl (Runtime (stage @ '' body read failed: '' @ e))
      | Http_Body body \<Rightarrow> Inr body)"

definition login_auth_request :: "string \<Rightarrow> http_request" where
  "login_auth_request base_url =
     \<lparr>hr_method = ''GET'', hr_url = base_url @ ''/por/login_auth.csp?apiversion=1'', hr_headers = [], hr_body = []\<rparr>"

definition login_psw_request :: "'key login_env \<Rightarrow> app_config \<Rightarrow> string \<Rightarrow> string \<Rightarrow> string \<Rightarrow> string \<Rightarrow> http_request" where
  "login_psw_request E config base_url twf_id csrf encrypted_password_hex =
     \<lparr>hr_method = ''POST'', hr_url = base_url @ ''/por/login_psw.csp?anti_replay=1&encrypt=1&type=cs'',
      hr_headers = [(''Cookie'', ''TWFID='' @ twf_id), (''Content-Type'', ''application/x-www-form-urlencoded'')],
      hr_body = ''svpn_rand_code=&mitm=&svpn_req_randcode='' @ le_urlencode E csrf
        @ ''&svpn_name='' @ le_urlencode E (ac_username config)
        @ ''&svpn_password='' @ le_urlencode E encrypted_password_hex\<rparr>"

text \<open>What the first answer says: the session id, the CSRF code (empty if missing), the key and exponent.\<close>

definition login_auth_fields :: "string \<Rightarrow> (string \<times> string \<times> string \<times> string) ec_result" where
  "login_auth_fields body =
     try_map id (require_tag body ''TwfID'' ''login_auth'') (\<lambda>twf_id.
       try_map id (require_tag body ''RSA_ENCRYPT_KEY'' ''login_auth'') (\<lambda>rsa_key.
         let rsa_exp = (case extract_tag body ''RSA_ENCRYPT_EXP'' of Some e \<Rightarrow> e | None \<Rightarrow> ''65537'');
             csrf = (case extract_tag body ''CSRF_RAND_CODE'' of Some c \<Rightarrow> c | None \<Rightarrow> [])
         in Inr (twf_id, csrf, rsa_key, rsa_exp)))"

definition password_input :: "app_config \<Rightarrow> string \<Rightarrow> string" where
  "password_input config csrf = (if csrf = [] then ac_password config else ac_password config @ ''_'' @ csrf)"

definition login_result :: "string \<Rightarrow> string \<Rightarrow> string ec_result" where
  "login_result twf_id body =
     (case unsupported_2fa_reason body of
        Some reason \<Rightarrow> Inl (Unsupported reason)
      | None \<Rightarrow>
          if \<not> str_contains TAG_RESULT_SUCCESS body then
            Inl (Runtime ''login failed: missing success result marker'')
          else Inr (case extract_tag body ''TwfID'' of Some updated \<Rightarrow> updated | None \<Rightarrow> twf_id))"

definition login :: "'key login_env \<Rightarrow> app_config \<Rightarrow> string ec_result \<times> http_request list \<times> log_entry list" where
  "login E config =
     (let base_url = normalize_base_url (ac_server config);
          first = login_auth_request base_url;
          connecting = (Level_Info, Scope_Login, ''connecting to '' @ out_value (le_ansi E) (ac_server config) @ ''...'')
      in case build_http_client E of
           Inl e \<Rightarrow> (Inl e, [], [])
         | Inr _ \<Rightarrow>
             (case try_map id (http_body ''login_auth'' (le_http E first)) login_auth_fields of
                Inl e \<Rightarrow> (Inl e, [first], [connecting])
              | Inr (twf_id, csrf, rsa_key, rsa_exp) \<Rightarrow>
                  (let logs = connecting # (if csrf = []
                       then [(Level_Info, Scope_Login, ''CSRF code missing; using legacy auth flow'')] else []) in
                   case encrypt_password_hex E (password_input config csrf) rsa_key rsa_exp of
                     Inl e \<Rightarrow> (Inl e, [first], logs)
                   | Inr hex \<Rightarrow>
                       (let second = login_psw_request E config base_url twf_id csrf hex;
                            r = try_map id (http_body ''login_psw'' (le_http E second)) (login_result twf_id);
                            logs = logs @ [(Level_Info, Scope_Login, ''authenticating credentials...'')]
                        in (r, [first, second],
                            if isl r then logs
                            else logs @ [(Level_Success, Scope_Login, ''authentication successful'')])))))"

section \<open>The agent token\<close>

definition TOKEN_IO_TIMEOUT :: nat where "TOKEN_IO_TIMEOUT = 5000"
definition TOKEN_READ_DEADLINE :: nat where "TOKEN_READ_DEADLINE = 8000"
definition TOKEN_SESSION_HEX_SLICE_LEN :: nat where "TOKEN_SESSION_HEX_SLICE_LEN = 31"

definition build_token_request :: "string \<Rightarrow> string \<Rightarrow> string" where
  "build_token_request authority twf_id =
     ''GET /por/conf.csp HTTP/1.1'' @ crlf @ ''Host: '' @ authority @ crlf @ ''Cookie: TWFID='' @ twf_id @ crlf
     @ ''Connection: keep-alive'' @ crlf @ crlf
     @ ''GET /por/rclist.csp HTTP/1.1'' @ crlf @ ''Host: '' @ authority @ crlf @ ''Cookie: TWFID='' @ twf_id @ crlf
     @ ''Connection: close'' @ crlf @ crlf"

function token_read_loop :: "nat \<Rightarrow> bytes \<Rightarrow> stream \<Rightarrow> bytes ec_result \<times> stream" where
  "token_read_loop deadline sink s =
     (if clock s < deadline then
        (case io_read 4096 s of
           (Inr bs, s') \<Rightarrow> if bs = [] then (Inr sink, s') else token_read_loop deadline (sink @ bs) s'
         | (Inl e, s') \<Rightarrow>
             if is_wouldblock_or_timeout e then (Inr sink, s')
             else (Inl (io_err ''token response read failed: '' e), s'))
      else (Inr sink, s))"
  by pat_completeness auto
termination
  by (relation "measure (\<lambda>(deadline, sink, s). script_size s)") (auto dest: io_read_decreases [OF sym])

declare token_read_loop.simps [simp del]

text \<open>
  \<open>hex\<close> is \<^verbatim>\<open>hex::encode\<close>; \<open>session\<close> is the id of the TLS session after the reply, if the connection
  has one.
\<close>

definition session_token :: "(bytes \<Rightarrow> string) \<Rightarrow> bytes option \<Rightarrow> string ec_result" where
  "session_token hex session =
     (case session of
        None \<Rightarrow> Inl (Runtime ''missing server tls session'')
      | Some sid \<Rightarrow>
          if sid = [] then Inl (Runtime ''server tls session id is empty'')
          else
            (let session_id_hex = hex sid in
             if length session_id_hex < TOKEN_SESSION_HEX_SLICE_LEN then
               Inl (Runtime (''server session id hex too short: '' @ dec_of_nat (length session_id_hex)))
             else Inr (take TOKEN_SESSION_HEX_SLICE_LEN session_id_hex @ [CHR 0x00])))"

definition fetch_agent_token :: "(bytes \<Rightarrow> string) \<Rightarrow> (string \<Rightarrow> string \<Rightarrow> stream ec_result) \<Rightarrow> (stream \<Rightarrow> bytes option)
    \<Rightarrow> string \<Rightarrow> string \<Rightarrow> string ec_result \<times> stream option" where
  "fetch_agent_token hex connect session server twf_id =
     (case try_map id (parse_server server) (\<lambda>(authority, host).
             try_map id (connect authority host) (\<lambda>s. Inr (authority, s))) of
        Inl e \<Rightarrow> (Inl e, None)
      | Inr (authority, s) \<Rightarrow>
          map_prod id Some
            (try_io (io_err ''token request write failed: '')
              (write_all (bytes_of_str (build_token_request authority twf_id)) s) (\<lambda>_ s.
             try_io id (token_read_loop (clock s + TOKEN_READ_DEADLINE) [] s) (\<lambda>sink s.
               if sink = [] then (Inl (Runtime ''token response is empty or timed out''), s)
               else (session_token hex (session s), s)))))"

text \<open>Its connection.\<close>

definition token_connect_tls :: "tls_lib \<Rightarrow> string \<Rightarrow> string \<Rightarrow> stream ec_result" where
  "token_connect_tls T authority host =
     try_map id (connect_tcp_with_timeout T authority TOKEN_IO_TIMEOUT ''token'') (\<lambda>tcp.
       try_map id (new_insecure_connector T ''token'') (\<lambda>connector.
         try_map id (into_insecure_ssl T connector host ''token'') (\<lambda>ssl. tls_handshake T ssl tcp ''token'')))"

section \<open>Tags\<close>

lemma find_sub_first:
  "find_sub p s = Some i \<longleftrightarrow> i \<le> length s \<and> starts_with p (drop i s) \<and> (\<forall>j < i. \<not> starts_with p (drop j s))"
proof (induction p s arbitrary: i rule: find_sub.induct)
  case (1 p)
  then show ?case by (cases p) auto
next
  case (2 p c s)
  show ?case
  proof (cases "starts_with p (c # s)")
    case True
    then show ?thesis by (cases i) auto
  next
    case False
    with 2 show ?thesis by (cases i) (auto simp: less_Suc_eq_0_disj)
  qed
qed

text \<open>
  A tag is read exactly: the value is what stands between the first opening tag of the
  answer and the first closing tag after it, and there is a value exactly when there are such tags.
\<close>

theorem extract_tag_exact:
  "extract_tag body tag = Some v \<longleftrightarrow>
     (\<exists>pre post. body = pre @ (''<'' @ tag @ ''>'') @ v @ (''</'' @ tag @ ''>'') @ post \<and>
        list_all (\<lambda>j. \<not> starts_with (''<'' @ tag @ ''>'') (drop j body)) [0..<length pre] \<and>
        list_all (\<lambda>j. \<not> starts_with (''</'' @ tag @ ''>'') (drop j (v @ (''</'' @ tag @ ''>'') @ post))) [0..<length v])"
  (is "?L \<longleftrightarrow> ?R")
proof
  let ?o = "''<'' @ tag @ ''>''" and ?c = "''</'' @ tag @ ''>''"
  assume ?L
  then obtain i e where i: "find_sub ?o body = Some i" and e: "find_sub ?c (drop (i + length ?o) body) = Some e"
    and v: "v = take e (drop (i + length ?o) body)"
    unfolding extract_tag_def Let_def by (auto split: option.splits)
  define rest where "rest = drop (i + length ?o) body"
  from find_sub_Some [OF e] have "\<exists>post. rest = v @ ?c @ post" and lv: "length v = e"
    unfolding v rest_def [symmetric] by auto
  then obtain post where "rest = v @ ?c @ post" by blast
  with find_sub_Some [OF i] lv have b: "body = take i body @ ?o @ rest" "rest = v @ ?c @ post" "length v = e"
    "length (take i body) = i"
    unfolding rest_def by auto
  note e = e [folded rest_def]
  from i e have "\<forall>j < i. \<not> starts_with ?o (drop j body)" "\<forall>j < e. \<not> starts_with ?c (drop j (v @ ?c @ post))"
    unfolding find_sub_first b(2) by blast+
  with b show ?R by (intro exI [of _ "take i body"] exI [of _ post]) (auto simp: list_all_iff)
next
  let ?o = "''<'' @ tag @ ''>''" and ?c = "''</'' @ tag @ ''>''"
  assume ?R
  then obtain pre post where r: "body = pre @ ?o @ v @ ?c @ post"
    "\<forall>j < length pre. \<not> starts_with ?o (drop j body)" "\<forall>j < length v. \<not> starts_with ?c (drop j (v @ ?c @ post))"
    by (auto simp: list_all_iff)
  have "find_sub ?o body = Some (length pre)"
    unfolding find_sub_first using r(2) by (simp add: r(1) starts_with_iff)
  moreover have "drop (length pre + length ?o) body = v @ ?c @ post" unfolding r(1) by simp
  moreover have "find_sub ?c (v @ ?c @ post) = Some (length v)" unfolding find_sub_first using r(3) by (simp add: starts_with_iff)
  ultimately show ?L unfolding extract_tag_def Let_def by simp
qed

section \<open>What a login sends\<close>

text \<open>
  \<^bold>\<open>C10.\<close> The password leaves the program only through the encryption: two logins that differ in
  nothing but the password, and for which the encryption gives the same text, send the same requests,
  log the same lines and have the same result; at most two requests are sent, and the first carries
  neither the password nor the user name.
\<close>

theorem password_only_encrypted:
  assumes "\<And>suffix key exp. encrypt_password_hex E (p @ suffix) key exp = encrypt_password_hex E (p' @ suffix) key exp"
  shows "login E (config\<lparr>ac_password := p\<rparr>) = login E (config\<lparr>ac_password := p'\<rparr>) \<and>
    (case login E (config\<lparr>ac_password := p\<rparr>) of (r, requests, logs) \<Rightarrow>
       length requests \<le> 2 \<and> take 1 requests \<in> {[], [login_auth_request (normalize_base_url (ac_server config))]})"
proof -
  have enc: "encrypt_password_hex E (password_input (config\<lparr>ac_password := p\<rparr>) csrf) key exp =
      encrypt_password_hex E (password_input (config\<lparr>ac_password := p'\<rparr>) csrf) key exp" for csrf key exp
    using assms [of "[]"] assms by (simp add: password_input_def)
  have sel: "ac_server (config\<lparr>ac_password := x\<rparr>) = ac_server config"
    "ac_username (config\<lparr>ac_password := x\<rparr>) = ac_username config" for x by simp_all
  have e: "login E (config\<lparr>ac_password := p\<rparr>) = login E (config\<lparr>ac_password := p'\<rparr>)"
    unfolding login_def Let_def login_psw_request_def enc sel ..
  show ?thesis
    by (rule conjI [OF e]) (auto simp: login_def Let_def split: sum.splits)
qed

text \<open>
  A login succeeds exactly when the client can be built, both requests are answered, the
  first answer names a session and a key under which the password can be encrypted, and the second one
  asks for no second factor and holds the mark of success; the session is that of the second answer if
  it names one, of the first otherwise.
\<close>

theorem login_succeeds_iff:
  "fst (login E config) = Inr twf_id \<longleftrightarrow>
     (\<exists>first second id0 csrf key exp hex. le_client E = Inr () \<and>
        le_http E (login_auth_request (normalize_base_url (ac_server config))) = Http_Body first \<and>
        login_auth_fields first = Inr (id0, csrf, key, exp) \<and>
        encrypt_password_hex E (password_input config csrf) key exp = Inr hex \<and>
        le_http E (login_psw_request E config (normalize_base_url (ac_server config)) id0 csrf hex) = Http_Body second \<and>
        unsupported_2fa_reason second = None \<and> str_contains TAG_RESULT_SUCCESS second \<and>
        twf_id = (case extract_tag second ''TwfID'' of Some updated \<Rightarrow> updated | None \<Rightarrow> id0))"
proof (cases "le_client E")
  case (Inl e)
  then show ?thesis by (simp add: login_def build_http_client_def)
next
  case c: (Inr u)
  show ?thesis
  proof (cases "try_map id (http_body ''login_auth'' (le_http E (login_auth_request (normalize_base_url (ac_server config)))))
      login_auth_fields")
    case (Inl e)
    then have "\<not> (\<exists>first f. le_http E (login_auth_request (normalize_base_url (ac_server config))) = Http_Body first \<and>
      login_auth_fields first = Inr f)" by (auto simp: http_body_def)
    with Inl c show ?thesis by (auto simp: login_def build_http_client_def)
  next
    case (Inr f)
    obtain id0 csrf key exp where f: "f = (id0, csrf, key, exp)" by (cases f)
    from Inr obtain first where first: "le_http E (login_auth_request (normalize_base_url (ac_server config))) = Http_Body first"
      "login_auth_fields first = Inr (id0, csrf, key, exp)"
      unfolding f by (auto simp: http_body_def try_map_Inr_iff split: http_reply.splits)
    show ?thesis
      by (cases "encrypt_password_hex E (password_input config csrf) key exp";
          cases "le_http E (login_psw_request E config (normalize_base_url (ac_server config)) id0 csrf
            (projr (encrypt_password_hex E (password_input config csrf) key exp)))")
        (use c in \<open>simp_all add: login_def Inr f first build_http_client_def http_body_def login_result_def
          Let_def eq_commute [of twf_id] split: option.split\<close>)
  qed
qed

section \<open>The token\<close>

text \<open>What \<^verbatim>\<open>hex::encode\<close> documents: two lower-case hexadecimal digits for every byte.\<close>

definition hex_encoding :: "(bytes \<Rightarrow> string) \<Rightarrow> bool" where
  "hex_encoding hex \<longleftrightarrow> (\<forall>bs. length (hex bs) = 2 * length bs \<and> set (hex bs) \<subseteq> set ''0123456789abcdef'')"

lemma hex_encodingD:
  "hex_encoding hex \<Longrightarrow> length (hex bs) = 2 * length bs"
  "hex_encoding hex \<Longrightarrow> set (hex bs) \<subseteq> set ''0123456789abcdef''"
  by (simp_all only: hex_encoding_def)

lemma session_token_iff:
  assumes "hex_encoding hex"
  shows "session_token hex session = Inr tok \<longleftrightarrow>
     (\<exists>sid. session = Some sid \<and> 16 \<le> length sid \<and> tok = take 31 (hex sid) @ [CHR 0x00])"
  by (cases session)
     (auto simp: session_token_def Let_def hex_encodingD(1) [OF assms] TOKEN_SESSION_HEX_SLICE_LEN_def)

lemma fetch_agent_token_iff:
  "fetch_agent_token hex connect session server twf_id = (Inr tok, s') \<longleftrightarrow>
     (\<exists>authority host s s1 sink s2. parse_server server = Inr (authority, host) \<and> connect authority host = Inr s \<and>
        write_all (bytes_of_str (build_token_request authority twf_id)) s = (Inr (), s1) \<and>
        token_read_loop (clock s1 + TOKEN_READ_DEADLINE) [] s1 = (Inr sink, s2) \<and> sink \<noteq> [] \<and>
        session_token hex (session s2) = Inr tok \<and> s' = Some s2)"
  (is "?L \<longleftrightarrow> ?R")
proof
  assume ?L
  then obtain authority s where c: "try_map id (parse_server server) (\<lambda>(authority, host).
             try_map id (connect authority host) (\<lambda>s. Inr (authority, s))) = Inr (authority, s)"
    unfolding fetch_agent_token_def by (auto split: sum.splits)
  then have "\<exists>host. parse_server server = Inr (authority, host) \<and> connect authority host = Inr s"
    by (auto simp: try_map_Inr_iff)
  moreover from \<open>?L\<close> have "\<exists>s1 sink s2. write_all (bytes_of_str (build_token_request authority twf_id)) s = (Inr (), s1) \<and>
      token_read_loop (clock s1 + TOKEN_READ_DEADLINE) [] s1 = (Inr sink, s2) \<and> sink \<noteq> [] \<and>
      session_token hex (session s2) = Inr tok \<and> s' = Some s2"
    unfolding fetch_agent_token_def c
    by (auto simp: map_prod_def try_io_Inr_iff split: prod.splits if_splits)
  ultimately show ?R by blast
next
  assume ?R
  then show ?L unfolding fetch_agent_token_def by auto
qed

text \<open>
  \<^bold>\<open>C26.\<close> An agent token is made of the id of the TLS session after an answered request, an id of at
  least 16 bytes: it is 31 lower-case hexadecimal digits and a zero byte. With a session id of the
  web login behind it, it is a token of the tunnel protocol exactly when that id has 16 bytes.
\<close>

theorem agent_token_shape:
  assumes "hex_encoding hex"
    and "fetch_agent_token hex connect session server twf_id = (Inr tok, s')"
  shows "\<exists>stream sid digits. s' = Some stream \<and> session stream = Some sid \<and> 16 \<le> length sid \<and>
     digits = take 31 (hex sid) \<and> tok = digits @ [CHR 0x00] \<and>
     length digits = 31 \<and> set digits \<subseteq> set ''0123456789abcdef'' \<and>
     (isl (parse_protocol_token (tok @ twf_id)) \<longleftrightarrow> length twf_id \<noteq> 16)"
proof -
  from assms(2) obtain s2 sid where s: "s' = Some s2" "session s2 = Some sid" "16 \<le> length sid"
    "tok = take 31 (hex sid) @ [CHR 0x00]"
    unfolding fetch_agent_token_iff session_token_iff [OF assms(1)] by blast
  have "set (take 31 (hex sid)) \<subseteq> set ''0123456789abcdef''"
    using hex_encodingD(2) [OF assms(1), of sid] set_take_subset [of 31 "hex sid"] by blast
  moreover have "length (take 31 (hex sid)) = 31" using s(3) by (simp add: hex_encodingD(1) [OF assms(1)])
  moreover have "isl (parse_protocol_token (tok @ twf_id)) \<longleftrightarrow> length twf_id \<noteq> 16"
    using calculation(2) unfolding s(4) parse_protocol_token_def
    by (auto simp: PROTOCOL_TOKEN_LEN_def length_bytes_of_str)
  ultimately show ?thesis using s by blast
qed

definition toy_hex :: "bytes \<Rightarrow> string" where
  "toy_hex bs = concat (map hex2 bs)"

lemma toy_hex_encoding: "hex_encoding toy_hex"
proof -
  have "list_all (\<lambda>n. hex_digit n \<in> set ''0123456789abcdef'') [0..<16]" by code_simp
  then have "hex_digit n \<in> set ''0123456789abcdef''" if "n < 16" for n
    using that by (simp add: list_all_iff)
  moreover have "unat b div 16 < 16" for b :: u8
    using unsigned_less [of b, where ?'a = nat] by simp
  ultimately have "length (toy_hex bs) = 2 * length bs \<and> set (toy_hex bs) \<subseteq> set ''0123456789abcdef''" for bs
    by (induction bs) (simp_all add: toy_hex_def hex2_def)
  then show ?thesis unfolding hex_encoding_def by blast
qed

definition toy_web :: "http_request \<Rightarrow> http_reply" where
  "toy_web r =
     (if hr_method r = ''GET'' then
        Http_Body ''<TwfID>0123456789abcdef</TwfID><RSA_ENCRYPT_KEY>c5</RSA_ENCRYPT_KEY>''
      else if str_contains ''svpn_password=0708'' (hr_body r) then Http_Body ''<Result>1</Result>''
      else Send_Failed ''403'')"

definition toy_login :: "nat login_env" where
  "toy_login = \<lparr>le_ansi = plain_ansi, le_client = Inr (), le_http = toy_web, le_urlencode = (\<lambda>s. s),
     le_parse_hex = (\<lambda>_. Some 197), le_public_key = (\<lambda>n e. Inr n), le_encrypt = (\<lambda>k bs. Inr [7, 8]), le_hex = toy_hex\<rparr>"

definition toy_credentials :: app_config where
  "toy_credentials = \<lparr>ac_server = ''vpn.example:443'', ac_username = ''alice'', ac_password = ''secret'',
     ac_socks_bind = ''127.0.0.1:1080'', ac_fallback_proxy = None, ac_extra_ips = [''10.50.2.0/24''], ac_details = False,
     ac_debug_enabled = False\<rparr>"

theorem password_only_encrypted_witness:
  "fst (login toy_login toy_credentials) = Inr ''0123456789abcdef'' \<and>
   login toy_login (toy_credentials\<lparr>ac_password := ''secret''\<rparr>) = login toy_login (toy_credentials\<lparr>ac_password := ''other''\<rparr>)"
proof
  show "fst (login toy_login toy_credentials) = Inr ''0123456789abcdef''" by code_simp
  show "login toy_login (toy_credentials\<lparr>ac_password := ''secret''\<rparr>) = login toy_login (toy_credentials\<lparr>ac_password := ''other''\<rparr>)"
    by (rule password_only_encrypted [THEN conjunct1]) (simp add: encrypt_password_hex_def toy_login_def)
qed

theorem agent_token_shape_witness:
  "isl (parse_protocol_token (concat (replicate 15 ''2a'') @ ''2'' @ [CHR 0x00] @ ''0123456789abcdef'')) \<longleftrightarrow>
     length ''0123456789abcdef'' \<noteq> 16"
proof -
  let ?s = "\<lparr>clock = 5, incoming = [(10, Data [60, 63])], outgoing = [], write_script = []\<rparr>"
  have "fst (fetch_agent_token toy_hex (\<lambda>_ _. Inr ?s) (\<lambda>_. Some (replicate 16 42)) ''vpn:443'' ''0123456789abcdef'') =
     Inr (concat (replicate 15 ''2a'') @ ''2'' @ [CHR 0x00])"
    by code_simp
  then obtain s' where "fetch_agent_token toy_hex (\<lambda>_ _. Inr ?s) (\<lambda>_. Some (replicate 16 42)) ''vpn:443'' ''0123456789abcdef'' =
     (Inr (concat (replicate 15 ''2a'') @ ''2'' @ [CHR 0x00]), s')" by (metis prod.collapse)
  from agent_token_shape [OF toy_hex_encoding this] show ?thesis by auto
qed

end
