(* ===== verification/RouteTable.thy ===== *)
theory RouteTable
  imports RustIO Endpoint
begin

text \<open>
  \<^verbatim>\<open>ec-core/src/route_table.rs\<close>: the route table the server sends as XML. The XML reader
  (\<^verbatim>\<open>quick_xml\<close>) is a parameter that gives the events of a document (an element with its attributes,
  each of which may fail to parse or to decode; the end of the list is \<^verbatim>\<open>Event::Eof\<close>); what the
  program does with the events, the lists inside the attributes and the reply around the document
  is modelled.
\<close>

record port_range =
  pr_start :: u16
  pr_end :: u16

record route_rule =
  rule_rc_id :: int
  rule_proto :: int
  rule_svc :: string
  rule_name :: string
  rule_host :: string
  rule_port :: port_range

record dns_record =
  rec_rc_id :: int
  rec_host :: string
  rec_ip :: string

record route_table =
  rt_rules :: "route_rule list"
  rt_dns_servers :: "string list"
  rt_dns_records :: "dns_record list"

type_synonym xml_attr = "string + string \<times> (string + string)"

datatype xml_event =
    Start_Event string "xml_attr list"
  | Empty_Event string "xml_attr list"
  | Other_Event
  | Xml_Error string

section \<open>The lists inside attributes\<close>

definition normalize_host_token :: "string \<Rightarrow> string" where
  "normalize_host_token raw =
     (let token = trim raw;
          token = (case strip_prefix ''http://'' token of
                     Some r \<Rightarrow> r
                   | None \<Rightarrow> (case strip_prefix ''https://'' token of Some r \<Rightarrow> r | None \<Rightarrow> token))
      in trim (hd (split_char CHR ''/'' token)))"

definition split_hosts :: "string \<Rightarrow> string list" where
  "split_hosts raw = filter (\<lambda>h. h \<noteq> []) (map normalize_host_token (split_char CHR '';'' raw))"

definition parse_port_token :: "string \<Rightarrow> port_range option" where
  "parse_port_token token =
     (let t = trim token in
      if t = [] then None
      else
        (case split_once ''~'' t of
           Some (a, b) \<Rightarrow>
             (case parse_u16 (trim a) of
                None \<Rightarrow> None
              | Some start \<Rightarrow>
                  (case parse_u16 (trim b) of
                     None \<Rightarrow> None
                   | Some e \<Rightarrow> Some \<lparr>pr_start = start, pr_end = e\<rparr>))
         | None \<Rightarrow>
             (case parse_u16 t of
                None \<Rightarrow> None
              | Some port \<Rightarrow> Some \<lparr>pr_start = port, pr_end = port\<rparr>)))"

definition split_ports :: "string \<Rightarrow> port_range list" where
  "split_ports raw = List.map_filter parse_port_token (split_char CHR '';'' raw)"

definition parse_dns_record_item :: "string \<Rightarrow> dns_record option" where
  "parse_dns_record_item item =
     (case split_once '':'' item of
        None \<Rightarrow> None
      | Some (id_raw, rest) \<Rightarrow>
          (case rsplit_once '':'' rest of
             None \<Rightarrow> None
           | Some (host_raw, ip_raw) \<Rightarrow>
               (case ok (parse_i32 id_raw) of
                  None \<Rightarrow> None
                | Some rc_id \<Rightarrow>
                    (let host = normalize_host_token host_raw; ip = trim ip_raw in
                     if host = [] \<or> ip = [] then None
                     else Some \<lparr>rec_rc_id = rc_id, rec_host = host, rec_ip = ip\<rparr>))))"

definition push_dns_servers :: "string list \<Rightarrow> string \<Rightarrow> string list" where
  "push_dns_servers dns_servers servers =
     dns_servers @ filter (\<lambda>s. s \<noteq> []) (map trim (split_char CHR '';'' servers))"

section \<open>Elements\<close>

definition decode_attr_value :: "string + string \<Rightarrow> string ec_result" where
  "decode_attr_value v = try_map (\<lambda>e. Runtime (''xml attr decode failed: '' @ e)) v Inr"

record rc_attrs =
  at_id :: "string option"
  at_proto :: "string option"
  at_svc :: "string option"
  at_host :: "string option"
  at_port :: "string option"
  at_name :: "string option"

fun read_rc_attrs :: "rc_attrs \<Rightarrow> xml_attr list \<Rightarrow> rc_attrs ec_result" where
  "read_rc_attrs as [] = Inr as"
| "read_rc_attrs as (attr # rest) =
     try_map (\<lambda>e. Runtime (''xml attr parse failed: '' @ e)) attr (\<lambda>(key, raw).
       try_map id (decode_attr_value raw) (\<lambda>value.
         read_rc_attrs
           (if key = ''id'' then as\<lparr>at_id := Some value\<rparr>
            else if key = ''proto'' then as\<lparr>at_proto := Some value\<rparr>
            else if key = ''svc'' then as\<lparr>at_svc := Some value\<rparr>
            else if key = ''host'' then as\<lparr>at_host := Some value\<rparr>
            else if key = ''port'' then as\<lparr>at_port := Some value\<rparr>
            else if key = ''name'' then as\<lparr>at_name := Some value\<rparr>
            else as) rest))"

definition no_rc_attrs :: rc_attrs where
  "no_rc_attrs = \<lparr>at_id = None, at_proto = None, at_svc = None, at_host = None, at_port = None, at_name = None\<rparr>"

definition unwrap_or :: "'a \<Rightarrow> 'a option \<Rightarrow> 'a" where
  "unwrap_or d x = (case x of Some a \<Rightarrow> a | None \<Rightarrow> d)"

definition parse_rc :: "xml_attr list \<Rightarrow> route_rule list \<Rightarrow> route_rule list ec_result" where
  "parse_rc attrs rules =
     try_map id (read_rc_attrs no_rc_attrs attrs) (\<lambda>as.
       case at_id as of
         None \<Rightarrow> Inr rules
       | Some id_raw \<Rightarrow>
       (case at_host as of
          None \<Rightarrow> Inr rules
        | Some host_raw \<Rightarrow>
        (case at_port as of
           None \<Rightarrow> Inr rules
         | Some port_raw \<Rightarrow>
             try_map (\<lambda>e. Runtime (''invalid rc id '' @ [CHR 0x27] @ id_raw @ [CHR 0x27] @ '': '' @ e))
               (parse_i32 id_raw) (\<lambda>rc_id.
               let proto = unwrap_or 0 (Option.bind (at_proto as) (\<lambda>v. ok (parse_i32 v)));
                   svc = unwrap_or [] (at_svc as);
                   name = unwrap_or [] (at_name as);
                   hosts = split_hosts host_raw;
                   ports = split_ports port_raw
               in
               if hosts = [] \<or> ports = [] then Inr rules
               else if length hosts \<noteq> length ports then Inr rules
               else Inr (rules @
                      map (\<lambda>(host, port). \<lparr>rule_rc_id = rc_id, rule_proto = proto, rule_svc = svc,
                                            rule_name = name, rule_host = host, rule_port = port\<rparr>)
                          (zip hosts ports))))))"

fun read_dns_attrs :: "string option \<Rightarrow> string option \<Rightarrow> xml_attr list \<Rightarrow> (string option \<times> string option) ec_result" where
  "read_dns_attrs servers data [] = Inr (servers, data)"
| "read_dns_attrs servers data (attr # rest) =
     try_map (\<lambda>e. Runtime (''xml attr parse failed: '' @ e)) attr (\<lambda>(key, raw).
       try_map id (decode_attr_value raw) (\<lambda>value.
         if key = ''dnsserver'' then read_dns_attrs (Some value) data rest
         else if key = ''data'' then read_dns_attrs servers (Some value) rest
         else read_dns_attrs servers data rest))"

fun push_dns_records :: "dns_record list \<Rightarrow> string list \<Rightarrow> dns_record list" where
  "push_dns_records dns_records [] = dns_records"
| "push_dns_records dns_records (token # rest) =
     (let item = trim token in
      if item = [] then push_dns_records dns_records rest
      else
        (case parse_dns_record_item item of
           Some r \<Rightarrow> push_dns_records (dns_records @ [r]) rest
         | None \<Rightarrow> push_dns_records dns_records rest))"

definition parse_dns :: "xml_attr list \<Rightarrow> string list \<Rightarrow> dns_record list \<Rightarrow> (string list \<times> dns_record list) ec_result" where
  "parse_dns attrs dns_servers dns_records =
     try_map id (read_dns_attrs None None attrs) (\<lambda>(servers, data).
       Inr (case servers of Some s \<Rightarrow> push_dns_servers dns_servers s | None \<Rightarrow> dns_servers,
            case data of
              Some d \<Rightarrow> push_dns_records dns_records (split_char CHR '';'' d)
            | None \<Rightarrow> dns_records))"

section \<open>The document\<close>

definition parse_element :: "string \<Rightarrow> xml_attr list \<Rightarrow> route_table \<Rightarrow> route_table ec_result" where
  "parse_element name attrs t =
     (if name = ''Rc'' then
        try_map id (parse_rc attrs (rt_rules t)) (\<lambda>rules. Inr (t\<lparr>rt_rules := rules\<rparr>))
      else if name = ''Dns'' then
        try_map id (parse_dns attrs (rt_dns_servers t) (rt_dns_records t)) (\<lambda>(servers, records).
          Inr (t\<lparr>rt_dns_servers := servers, rt_dns_records := records\<rparr>))
      else Inr t)"

fun parse_events :: "route_table \<Rightarrow> xml_event list \<Rightarrow> route_table ec_result" where
  "parse_events t [] = Inr t"
| "parse_events t (event # rest) =
     (case event of
        Start_Event name attrs \<Rightarrow> try_map id (parse_element name attrs t) (\<lambda>t. parse_events t rest)
      | Empty_Event name attrs \<Rightarrow> try_map id (parse_element name attrs t) (\<lambda>t. parse_events t rest)
      | Other_Event \<Rightarrow> parse_events t rest
      | Xml_Error e \<Rightarrow> Inl (Runtime (''rclist xml parse failed: '' @ e)))"

definition parse_route_table_xml :: "(string \<Rightarrow> xml_event list) \<Rightarrow> string \<Rightarrow> route_table ec_result" where
  "parse_route_table_xml xml_events xml =
     parse_events \<lparr>rt_rules = [], rt_dns_servers = [], rt_dns_records = []\<rparr> (xml_events xml)"

definition extract_xml_payload :: "string \<Rightarrow> string ec_result" where
  "extract_xml_payload response_text =
     (case find_sub ''<?xml'' response_text of
        Some xml_start \<Rightarrow> Inr (drop xml_start response_text)
      | None \<Rightarrow>
          (case find_sub ''<Resource>'' response_text of
             Some xml_start \<Rightarrow> Inr (drop xml_start response_text)
           | None \<Rightarrow> Inl (Runtime ''rclist response does not contain XML payload'')))"

section \<open>Fetching\<close>

definition ROUTE_TABLE_RESPONSE_TIMEOUT :: nat where "ROUTE_TABLE_RESPONSE_TIMEOUT = 8000"


definition is_timeout_or_wouldblock :: "io_error \<Rightarrow> bool" where
  "is_timeout_or_wouldblock e \<longleftrightarrow> io_kind e \<in> {WouldBlock, TimedOut}"

function fetch_loop :: "nat \<Rightarrow> bytes \<Rightarrow> stream \<Rightarrow> bytes ec_result \<times> stream" where
  "fetch_loop deadline raw s =
     (if clock s < deadline then
        (case io_read 4096 s of
           (Inr bs, s') \<Rightarrow>
             if bs = [] then (Inr raw, s') else fetch_loop deadline (raw @ bs) s'
         | (Inl e, s') \<Rightarrow>
             if is_timeout_or_wouldblock e then (Inr raw, s')
             else (Inl (io_err ''rclist response read failed: '' e), s'))
      else (Inr raw, s))"
  by pat_completeness auto
termination
  by (relation "measure (\<lambda>(deadline, raw, s). script_size s)")
     (auto dest: io_read_decreases [OF sym])

declare fetch_loop.simps [simp del]

definition route_request :: "string \<Rightarrow> string \<Rightarrow> string" where
  "route_request authority twf_id =
     ''GET /por/rclist.csp HTTP/1.1'' @ crlf @ ''Host: '' @ authority @ crlf @
     ''Cookie: TWFID='' @ twf_id @ crlf @ ''Connection: close'' @ crlf @ crlf"

text \<open>\<open>connect authority host\<close> is \<^verbatim>\<open>connect_tls\<close>: the TLS connection, from the TLS library.\<close>

definition fetch_route_table :: "(string \<Rightarrow> string \<Rightarrow> stream ec_result) \<Rightarrow> (string \<Rightarrow> xml_event list)
    \<Rightarrow> string \<Rightarrow> string \<Rightarrow> route_table ec_result \<times> stream option" where
  "fetch_route_table connect xml_events server twf_id =
     (case parse_server server of
        Inl e \<Rightarrow> (Inl e, None)
      | Inr (authority, host) \<Rightarrow>
          (case connect authority host of
             Inl e \<Rightarrow> (Inl e, None)
           | Inr s \<Rightarrow>
               map_prod id Some
                 (try_io (io_err ''rclist request write failed: '')
                   (write_all (bytes_of_str (route_request authority twf_id)) s) (\<lambda>_ s.
                  try_io id (fetch_loop (clock s + ROUTE_TABLE_RESPONSE_TIMEOUT) [] s) (\<lambda>raw s.
                    if raw = [] then (Inl (Runtime ''rclist response is empty or timed out''), s)
                    else
                      (try_map id (extract_xml_payload (from_utf8_lossy raw)) (parse_route_table_xml xml_events),
                       s))))))"

section \<open>Strings\<close>

lemma trim_subset: "c \<in> set (trim s) \<Longrightarrow> c \<in> set s"
proof -
  assume c: "c \<in> set (trim s)"
  obtain r where "trim_start s = trim s @ r"
    using trim_end_prefix [of "trim_start s"] by (auto simp: trim_def)
  moreover obtain p where "s = p @ trim_start s"
    using strip_ws_suffix [of s ws_encodings] by (auto simp: trim_start_def)
  ultimately show ?thesis using c by (metis Un_iff set_append)
qed

lemma normalize_host_token_wf:
  "CHR ''/'' \<notin> set (normalize_host_token raw)" "trim (normalize_host_token raw) = normalize_host_token raw"
  by (auto simp: normalize_host_token_def Let_def split_char_hd dest!: trim_subset dest: set_takeWhileD)

lemma strip_prefix_graph_None:
  "CHR ''/'' \<notin> set h \<Longrightarrow> strip_prefix ''http://'' h = None \<and> strip_prefix ''https://'' h = None"
  by (auto simp: strip_prefix_def starts_with_iff)

lemma normalize_host_token_plain:
  "list_all is_graph h \<Longrightarrow> CHR ''/'' \<notin> set h \<Longrightarrow> normalize_host_token h = h"
proof -
  assume h: "list_all is_graph h" "CHR ''/'' \<notin> set h"
  from h(2) have "takeWhile (\<lambda>c. c \<noteq> CHR ''/'') h = h" by (auto simp: takeWhile_eq_all_conv)
  then have "trim (takeWhile (\<lambda>c. c \<noteq> CHR ''/'') h) = h" using trim_graph [OF h(1)] by metis
  with h show ?thesis
    by (simp add: normalize_host_token_def trim_graph strip_prefix_graph_None split_char_hd)
qed

lemma split_char_no_sep: "d \<notin> set s \<Longrightarrow> split_char d s = [s]"
  by (induction s) auto

lemma split_char_cons: "d \<notin> set s \<Longrightarrow> split_char d (s @ d # r) = s # split_char d r"
  by (induction s) auto

lemma split_char_join:
  "ss \<noteq> [] \<Longrightarrow> (\<And>s. s \<in> set ss \<Longrightarrow> d \<notin> set s) \<Longrightarrow> split_char d (join_with [d] ss) = ss"
proof (induction "[d]" ss rule: join_with.induct)
  case (2 s)
  then show ?case by (simp add: split_char_no_sep)
next
  case (3 s t ss)
  then show ?case by (simp add: split_char_cons)
qed simp

lemma parse_i32_dec: "- (2 ^ 31) \<le> i \<Longrightarrow> i < 2 ^ 31 \<Longrightarrow> parse_i32 (dec_of_int i) = Inr i"
  by (auto simp: parse_i32_def dec_of_int_def dec_of_nat_not_sign int_digits_dec)

lemma dec_of_int_chars: "c \<in> set (dec_of_int i) \<Longrightarrow> c = CHR ''-'' \<or> to_digit 10 c \<noteq> None"
  by (auto simp: dec_of_int_def dest!: dec_of_nat_is_digit split: if_splits)

section \<open>What is in a table\<close>

definition rule_wf :: "route_rule \<Rightarrow> bool" where
  "rule_wf r \<longleftrightarrow> rule_host r \<noteq> [] \<and> CHR ''/'' \<notin> set (rule_host r) \<and> trim (rule_host r) = rule_host r"

definition record_wf :: "dns_record \<Rightarrow> bool" where
  "record_wf r \<longleftrightarrow> rec_host r \<noteq> [] \<and> CHR ''/'' \<notin> set (rec_host r) \<and> trim (rec_host r) = rec_host r \<and>
     rec_ip r \<noteq> [] \<and> trim (rec_ip r) = rec_ip r"

definition table_wf :: "route_table \<Rightarrow> bool" where
  "table_wf t \<longleftrightarrow> list_all rule_wf (rt_rules t) \<and> list_all record_wf (rt_dns_records t) \<and>
     list_all (\<lambda>s. s \<noteq> [] \<and> trim s = s) (rt_dns_servers t)"

lemma split_hosts_wf:
  "h \<in> set (split_hosts raw) \<Longrightarrow> h \<noteq> [] \<and> CHR ''/'' \<notin> set h \<and> trim h = h"
  by (auto simp: split_hosts_def normalize_host_token_wf)

lemma parse_rc_wf:
  assumes "parse_rc attrs rules = Inr rules'" and "list_all rule_wf rules"
  shows "list_all rule_wf rules'"
proof -
  have new: "list_all rule_wf (map (\<lambda>(host, port). \<lparr>rule_rc_id = i, rule_proto = p, rule_svc = v,
      rule_name = n, rule_host = host, rule_port = port\<rparr>) (zip (split_hosts hr) ports))" for i p v n hr ports
    by (auto simp: list_all_iff rule_wf_def dest!: set_zip_leftD dest: split_hosts_wf)
  from assms(1) obtain as where "read_rc_attrs no_rc_attrs attrs = Inr as"
    by (auto simp: parse_rc_def try_map_Inr_iff)
  with assms show ?thesis
    by (cases "at_id as"; cases "at_host as"; cases "at_port as")
       (auto simp: parse_rc_def try_map_Inr_iff Let_def new split: if_splits)
qed

lemma parse_dns_record_item_wf: "parse_dns_record_item item = Some r \<Longrightarrow> record_wf r"
  by (auto simp: parse_dns_record_item_def Let_def record_wf_def normalize_host_token_wf
           split: option.splits if_splits)

lemma push_dns_records_wf: "list_all record_wf rs \<Longrightarrow> list_all record_wf (push_dns_records rs ts)"
  by (induction rs ts rule: push_dns_records.induct)
     (auto simp: Let_def split: option.splits dest: parse_dns_record_item_wf)

lemma push_dns_servers_wf:
  "list_all (\<lambda>s. s \<noteq> [] \<and> trim s = s) ss \<Longrightarrow> list_all (\<lambda>s. s \<noteq> [] \<and> trim s = s) (push_dns_servers ss raw)"
  by (auto simp: push_dns_servers_def list_all_iff)

lemma parse_element_wf:
  "parse_element name attrs t = Inr t' \<Longrightarrow> table_wf t \<Longrightarrow> table_wf t'"
  by (auto simp: parse_element_def parse_dns_def table_wf_def try_map_Inr_iff
           split: if_splits option.splits
           intro!: push_dns_records_wf push_dns_servers_wf intro: parse_rc_wf)

lemma parse_events_wf: "parse_events t evs = Inr t' \<Longrightarrow> table_wf t \<Longrightarrow> table_wf t'"
proof (induction t evs rule: parse_events.induct)
  case (2 t event rest)
  then show ?case
    by (cases event) (auto simp: try_map_Inr_iff dest: parse_element_wf)
qed simp

text \<open>
  Whatever document the server sends, a table that is returned holds only usable entries:
  every rule and record host is non-empty, trimmed and free of a path, every record address and
  every DNS server is non-empty and trimmed.
\<close>

theorem route_table_well_formed:
  "case parse_route_table_xml xml_events xml of Inl e \<Rightarrow> True | Inr t \<Rightarrow> table_wf t"
  using parse_events_wf [of "\<lparr>rt_rules = [], rt_dns_servers = [], rt_dns_records = []\<rparr>" "xml_events xml"]
  by (auto simp: parse_route_table_xml_def table_wf_def split: sum.splits)

section \<open>Lists survive their text form\<close>

definition show_port_range :: "port_range \<Rightarrow> string" where
  "show_port_range r = dec_u16 (pr_start r) @ ''~'' @ dec_u16 (pr_end r)"

definition show_dns_record :: "dns_record \<Rightarrow> string" where
  "show_dns_record r = dec_of_int (rec_rc_id r) @ '':'' @ rec_host r @ '':'' @ rec_ip r"

lemma show_port_range_graph: "list_all is_graph (show_port_range r)"
  by (simp add: show_port_range_def dec_of_nat_graph, simp add: is_graph_def)

lemma parse_show_port_range: "parse_port_token (show_port_range r) = Some r"
proof -
  have "CHR ''~'' \<notin> set (dec_u16 (pr_start r))" by (simp add: dec_of_nat_not_digit)
  then have "split_once ''~'' (show_port_range r) = Some (dec_u16 (pr_start r), dec_u16 (pr_end r))"
    by (simp add: show_port_range_def split_once_char_append)
  then show ?thesis
    using trim_graph [OF show_port_range_graph]
    by (simp add: parse_port_token_def Let_def trim_graph dec_of_nat_graph parse_u16_dec)
       (simp add: show_port_range_def)
qed

lemma split_ports_show: "split_ports (join_with '';'' (map show_port_range rs)) = rs"
proof (cases "rs = []")
  case True
  then show ?thesis by (simp add: split_ports_def List.map_filter_simps parse_port_token_def)
next
  case False
  have "CHR '';'' \<notin> set (show_port_range r)" for r
    by (simp add: show_port_range_def dec_of_nat_not_digit)
  then have "split_char CHR '';'' (join_with '';'' (map show_port_range rs)) = map show_port_range rs"
    using False by (intro split_char_join) auto
  then show ?thesis
    by (simp add: split_ports_def List.map_filter_def parse_show_port_range comp_def)
qed

definition plain_token :: "string \<Rightarrow> bool" where
  "plain_token h \<longleftrightarrow> h \<noteq> [] \<and> list_all is_graph h \<and> CHR ''/'' \<notin> set h \<and> CHR '';'' \<notin> set h"

lemma split_hosts_join:
  assumes "list_all plain_token hs"
  shows "split_hosts (join_with '';'' hs) = hs"
proof (cases "hs = []")
  case True
  then show ?thesis by (simp add: split_hosts_def normalize_host_token_def strip_prefix_def)
next
  case False
  have "split_char CHR '';'' (join_with '';'' hs) = hs"
    using assms False by (intro split_char_join) (auto simp: list_all_iff plain_token_def)
  moreover have "map normalize_host_token hs = hs"
    using assms by (intro map_idI) (auto simp: list_all_iff plain_token_def normalize_host_token_plain)
  moreover have "filter (\<lambda>h. h \<noteq> []) hs = hs"
    using assms by (auto simp: list_all_iff plain_token_def filter_id_conv)
  ultimately show ?thesis by (simp add: split_hosts_def)
qed

lemma parse_show_dns_record:
  assumes "- (2 ^ 31) \<le> rec_rc_id r" "rec_rc_id r < 2 ^ 31" "plain_token (rec_host r)"
    "plain_token (rec_ip r)" "CHR '':'' \<notin> set (rec_ip r)"
  shows "parse_dns_record_item (show_dns_record r) = Some r"
proof -
  have "CHR '':'' \<notin> set (dec_of_int (rec_rc_id r))"
    by (auto dest!: dec_of_int_chars simp: to_digit_def)
  then have "split_once '':'' (show_dns_record r) = Some (dec_of_int (rec_rc_id r), rec_host r @ '':'' @ rec_ip r)"
    by (simp add: show_dns_record_def split_once_char_append)
  moreover have "rsplit_once '':'' (rec_host r @ '':'' @ rec_ip r) = Some (rec_host r, rec_ip r)"
    using rsplit_once_char_append [OF assms(5)] by simp
  ultimately show ?thesis
    using assms
    by (simp add: parse_dns_record_item_def Let_def parse_i32_dec plain_token_def
        normalize_host_token_plain trim_graph)
qed

text \<open>
  An \<^verbatim>\<open>Rc\<close> element gives one rule for each host, in order, with the port range at the same
  position: reading the text form of a list of hosts and of as many port ranges appends exactly
  these rules; if the numbers of hosts and ports differ, the element is ignored.
\<close>

theorem parse_rc_rules:
  assumes "- (2 ^ 31) \<le> rc_id" "rc_id < 2 ^ 31" "list_all plain_token hosts" "hosts \<noteq> []"
  shows "parse_rc [Inr (''id'', Inr (dec_of_int rc_id)), Inr (''name'', Inr name),
                   Inr (''host'', Inr (join_with '';'' hosts)), Inr (''proto'', Inr (dec_of_int 1)),
                   Inr (''svc'', Inr svc), Inr (''port'', Inr (join_with '';'' (map show_port_range ports)))] rules =
    Inr (if length hosts = length ports
         then rules @ map2 (\<lambda>h p. \<lparr>rule_rc_id = rc_id, rule_proto = 1, rule_svc = svc, rule_name = name,
                                   rule_host = h, rule_port = p\<rparr>) hosts ports
         else rules)"
proof -
  have "parse_i32 (dec_of_int 1) = Inr 1" by (simp add: parse_i32_dec)
  with assms show ?thesis
    by (simp add: parse_rc_def decode_attr_value_def no_rc_attrs_def unwrap_or_def Let_def parse_i32_dec
        split_hosts_join split_ports_show)
qed

text \<open>
  A DNS record survives its text form \<^verbatim>\<open>rc_id:host:ip\<close>, whatever colons the host contains, as
  long as the address has none.
\<close>

theorem dns_record_roundtrip:
  assumes "- (2 ^ 31) \<le> rec_rc_id r" "rec_rc_id r < 2 ^ 31" "plain_token (rec_host r)"
    "plain_token (rec_ip r)" "CHR '':'' \<notin> set (rec_ip r)"
  shows "parse_dns_record_item (show_dns_record r) = Some r"
  by (rule parse_show_dns_record) (fact assms)+

text \<open>
  Empty hosts and unusable ports are dropped from their own list before the lists are
  paired, so a rule can get the port of another host: here the second host is empty and the third
  port unusable, and the third host is paired with the second port.
\<close>

theorem parse_rc_mispairs:
  "parse_rc [Inr (''id'', Inr ''7''), Inr (''host'', Inr ''a.cn;;c.cn''), Inr (''port'', Inr ''80;22;any'')] [] =
   Inr [\<lparr>rule_rc_id = 7, rule_proto = 0, rule_svc = [], rule_name = [], rule_host = ''a.cn'',
          rule_port = \<lparr>pr_start = 80, pr_end = 80\<rparr>\<rparr>,
        \<lparr>rule_rc_id = 7, rule_proto = 0, rule_svc = [], rule_name = [], rule_host = ''c.cn'',
          rule_port = \<lparr>pr_start = 22, pr_end = 22\<rparr>\<rparr>]"
  by code_simp

section \<open>Fetching\<close>

lemma fetch_loop_delivers:
  "delivers s bs \<Longrightarrow> clock s + script_delay s < deadline \<Longrightarrow>
   \<exists>s'. fetch_loop deadline raw s = (Inr (raw @ bs), s')"
proof (induction deadline raw s arbitrary: bs rule: fetch_loop.induct)
  case (1 deadline raw s)
  from "1.prems" have now: "clock s < deadline" by simp
  show ?case
  proof (cases "bs = []")
    case True
    with "1.prems"(1) have "incoming s = []"
      by (cases "incoming s" rule: chunk_bytes.cases) (auto simp: delivers_def split: if_splits)
    with now True show ?thesis by (simp add: fetch_loop.simps [of deadline raw s] io_read_def)
  next
    case False
    from io_read_deliver_time [OF "1.prems"(1) False, of 4096] obtain c s' where
      c: "io_read 4096 s = (Inr c, s')" "c \<noteq> []" "bs = c @ drop (length c) bs"
      "delivers s' (drop (length c) bs)" and t: "clock s' + script_delay s' = clock s + script_delay s"
      by auto
    from "1.IH" [OF now c(1) [symmetric] refl c(2,4)] t "1.prems"(2)
    obtain s'' where "fetch_loop deadline (raw @ c) s' = (Inr ((raw @ c) @ drop (length c) bs), s'')" by auto
    with now c show ?thesis by (simp add: fetch_loop.simps [of deadline raw s])
  qed
qed


section \<open>Witnesses\<close>

theorem parse_rc_rules_witness:
  "parse_rc [Inr (''id'', Inr (dec_of_int 205)), Inr (''name'', Inr ''ids''),
             Inr (''host'', Inr ''a.cn;b.cn''), Inr (''proto'', Inr (dec_of_int 1)),
             Inr (''svc'', Inr ''Other''),
             Inr (''port'', Inr (join_with '';'' (map show_port_range
                [\<lparr>pr_start = 1, pr_end = 65535\<rparr>, \<lparr>pr_start = 80, pr_end = 80\<rparr>])))] [] =
   Inr [\<lparr>rule_rc_id = 205, rule_proto = 1, rule_svc = ''Other'', rule_name = ''ids'', rule_host = ''a.cn'',
          rule_port = \<lparr>pr_start = 1, pr_end = 65535\<rparr>\<rparr>,
        \<lparr>rule_rc_id = 205, rule_proto = 1, rule_svc = ''Other'', rule_name = ''ids'', rule_host = ''b.cn'',
          rule_port = \<lparr>pr_start = 80, pr_end = 80\<rparr>\<rparr>]"
proof -
  have "list_all plain_token [''a.cn'', ''b.cn'']" by (simp add: plain_token_def is_graph_def)
  from parse_rc_rules [OF _ _ this, of 205 "''ids''" "''Other''"
      "[\<lparr>pr_start = 1, pr_end = 65535\<rparr>, \<lparr>pr_start = 80, pr_end = 80\<rparr>]" "[]"]
  show ?thesis by simp
qed

theorem dns_record_roundtrip_witness:
  "parse_dns_record_item ''-98:ids.cn:10.1.2.3'' =
     Some \<lparr>rec_rc_id = -98, rec_host = ''ids.cn'', rec_ip = ''10.1.2.3''\<rparr>"
proof -
  have "plain_token ''ids.cn''" "plain_token ''10.1.2.3''" by (simp_all add: plain_token_def is_graph_def)
  moreover have "show_dns_record \<lparr>rec_rc_id = -98, rec_host = ''ids.cn'', rec_ip = ''10.1.2.3''\<rparr>
      = ''-98:ids.cn:10.1.2.3''" by code_simp
  ultimately show ?thesis
    using dns_record_roundtrip [of "\<lparr>rec_rc_id = -98, rec_host = ''ids.cn'', rec_ip = ''10.1.2.3''\<rparr>"] by simp
qed

definition toy_xml :: "string \<Rightarrow> xml_event list" where
  "toy_xml xml = (if starts_with ''<?xml'' xml then
     [Other_Event, Empty_Event ''Dns'' [Inr (''dnsserver'', Inr ''10.0.0.53; 10.0.0.54'')]] else [])"


end
