(* ===== verification/Dedup.thy ===== *)
theory Dedup
  imports Prelude "HOL-Library.Sublist"
begin

text \<open>
  Loops that push an item only if its key has not been seen: the program has four of them (rules,
  DNS servers, DNS records, DNS answers). \<open>firsts_by\<close> is what such a loop computes, the first item
  of every key in the order of the input, and the locale \<open>dedup_loop\<close> is the interface a loop
  has to offer for it.
\<close>

fun firsts_by :: "('a \<Rightarrow> 'k) \<Rightarrow> 'k set \<Rightarrow> 'a list \<Rightarrow> 'a list" where
  "firsts_by key S [] = []"
| "firsts_by key S (x # xs) =
     (if key x \<in> S then firsts_by key S xs else x # firsts_by key (insert (key x) S) xs)"

lemma subseq_firsts_by: "subseq (firsts_by key S xs) xs"
  by (induction key S xs rule: firsts_by.induct) auto

lemma firsts_by_subset: "x \<in> set (firsts_by key S xs) \<Longrightarrow> x \<in> set xs"
  by (induction key S xs rule: firsts_by.induct) (auto split: if_splits)

lemma firsts_by_keys: "key ` set (firsts_by key S xs) = key ` set xs - S"
  by (induction key S xs rule: firsts_by.induct) auto

lemma distinct_firsts_by: "distinct (map key (firsts_by key S xs))"
proof (induction key S xs rule: firsts_by.induct)
  case (2 key S x xs)
  then show ?case using firsts_by_keys [of key "insert (key x) S" xs] by auto
qed simp

lemma firsts_by_first:
  "x \<in> set (firsts_by key S xs) \<Longrightarrow> key x \<notin> S \<and> find (\<lambda>y. key y = key x) xs = Some x"
proof (induction key S xs rule: firsts_by.induct)
  case (2 key S y xs)
  then show ?case by (cases "key y \<in> S") auto
qed simp

lemma firsts_by_find:
  assumes "\<And>x y. key x = key y \<Longrightarrow> P x = P y"
  shows "find P (firsts_by key {} xs) = find P xs"
proof -
  have "(\<And>x. P x \<Longrightarrow> key x \<notin> S) \<Longrightarrow> find P (firsts_by key S xs) = find P xs" for S
  proof (induction xs arbitrary: S)
    case (Cons x xs)
    show ?case
    proof (cases "P x")
      case True
      with Cons.prems [of x] show ?thesis by simp
    next
      case False
      then have "P y \<Longrightarrow> key y \<noteq> key x" for y using assms [of y x] by auto
      then have ins: "P y \<Longrightarrow> key y \<notin> insert (key x) S" for y using Cons.prems [of y] by auto
      show ?thesis
        using False Cons.IH [of S, OF Cons.prems] Cons.IH [OF ins] by simp
    qed
  qed simp
  then show ?thesis by simp
qed

lemma firsts_by_id_set [simp]: "set (firsts_by (\<lambda>x. x) {} xs) = set xs"
  using firsts_by_keys [of "\<lambda>x. x" "{}" xs] by simp

lemma firsts_by_id_distinct [simp]: "distinct (firsts_by (\<lambda>x. x) S xs)"
  using distinct_firsts_by [of "\<lambda>x. x" S xs] by simp

lemma hd_firsts_by: "xs \<noteq> [] \<Longrightarrow> hd (firsts_by key {} xs) = hd xs"
  by (cases xs) auto

lemma firsts_by_Nil_iff [simp]: "firsts_by key {} xs = [] \<longleftrightarrow> xs = []"
  by (cases xs) auto

text \<open>
  The interface: a loop over raw inputs, with a state that holds the keys seen and the items
  pushed; an input gives an item or is skipped.
\<close>

locale dedup_loop =
  fixes loop :: "'s \<Rightarrow> 'x list \<Rightarrow> 's"
    and item :: "'x \<Rightarrow> 'a option"
    and key :: "'a \<Rightarrow> 'k"
    and seen :: "'s \<Rightarrow> 'k set"
    and out :: "'s \<Rightarrow> 'a list"
  assumes loop_Nil: "loop s [] = s"
    and loop_skip: "item x = None \<Longrightarrow> loop s (x # xs) = loop s xs"
    and loop_seen: "item x = Some a \<Longrightarrow> key a \<in> seen s \<Longrightarrow> loop s (x # xs) = loop s xs"
    and loop_push: "item x = Some a \<Longrightarrow> key a \<notin> seen s \<Longrightarrow>
      \<exists>s'. loop s (x # xs) = loop s' xs \<and> seen s' = insert (key a) (seen s) \<and> out s' = out s @ [a]"

context dedup_loop begin

lemma out_loop: "out (loop s xs) = out s @ firsts_by key (seen s) (List.map_filter item xs)"
proof (induction xs arbitrary: s)
  case Nil
  show ?case by (simp add: loop_Nil)
next
  case (Cons x xs)
  show ?case
  proof (cases "item x")
    case None
    with Cons show ?thesis by (simp add: loop_skip)
  next
    case (Some a)
    show ?thesis
    proof (cases "key a \<in> seen s")
      case True
      with Cons Some show ?thesis by (simp add: loop_seen)
    next
      case False
      with loop_push [OF Some False, of xs] Cons Some show ?thesis by auto
    qed
  qed
qed

lemma seen_loop: "seen (loop s xs) = seen s \<union> key ` set (List.map_filter item xs)"
proof (induction xs arbitrary: s)
  case Nil
  show ?case by (simp add: loop_Nil)
next
  case (Cons x xs)
  show ?case
  proof (cases "item x")
    case None
    with Cons show ?thesis by (simp add: loop_skip)
  next
    case (Some a)
    show ?thesis
    proof (cases "key a \<in> seen s")
      case True
      with Cons Some show ?thesis by (auto simp: loop_seen)
    next
      case False
      with loop_push [OF Some False, of xs] Cons Some show ?thesis by auto
    qed
  qed
qed

end

end
