(* ===== verification/RuleIndex.thy ===== *)
theory RuleIndex
  imports RouteTable Dedup
begin

text \<open>
  \<^verbatim>\<open>ec-core/src/routing.rs\<close>, the rules: compiling the rows of the route table into matchers, removing
  duplicates, the index over the compiled rules (\<^verbatim>\<open>RuleIndex\<close>: a map for domains, a map for
  addresses, and 256 buckets by first octet for address ranges) and the lookup of the first rule
  that matches a target. The index is shown to find exactly the first rule that matches in the
  order of the table.
\<close>

datatype flow_proto = Tcp | Udp | Icmp

fun flow_code :: "flow_proto \<Rightarrow> int" where
  "flow_code Tcp = 0"
| "flow_code Udp = 1"
| "flow_code Icmp = 2"

datatype host_matcher = Domain string | Ipv4_Match ipv4 | Ipv4_Range u32 u32

datatype target_kind = Target_Domain string | Target_Ipv4 ipv4

record compiled_rule =
  cr_rc_id :: int
  cr_rc_name :: string
  cr_proto :: int
  cr_svc :: string
  cr_matcher :: host_matcher
  cr_port :: port_range

record rule_index =
  ix_domain :: "string \<rightharpoonup> nat list"
  ix_ipv4 :: "ipv4 \<rightharpoonup> nat list"
  ix_range_buckets :: "nat list list"

definition normalize_domain :: "string \<Rightarrow> string" where
  "normalize_domain host = to_ascii_lowercase (trim_end_dots (trim host))"

definition parse_target :: "string \<Rightarrow> target_kind" where
  "parse_target host =
     (case parse_ipv4 (trim host) of
        Some ip \<Rightarrow> Target_Ipv4 ip
      | None \<Rightarrow> Target_Domain (normalize_domain host))"

section \<open>Does a rule admit a flow\<close>

definition port_matches :: "port_range \<Rightarrow> u16 \<Rightarrow> bool" where
  "port_matches r port \<longleftrightarrow> pr_start r \<le> port \<and> port \<le> pr_end r"

definition proto_matches :: "int \<Rightarrow> flow_proto \<Rightarrow> bool" where
  "proto_matches p flow \<longleftrightarrow> p = -1 \<or> p = flow_code flow"

definition is_vipall :: "compiled_rule \<Rightarrow> bool" where
  "is_vipall rule \<longleftrightarrow> trim (cr_svc rule) = ''vipall''"

definition rule_matches_flow :: "compiled_rule \<Rightarrow> u16 \<Rightarrow> flow_proto \<Rightarrow> bool" where
  "rule_matches_flow rule port flow \<longleftrightarrow>
     (if is_vipall rule then True
      else if \<not> proto_matches (cr_proto rule) flow then False
      else if flow = Icmp then True
      else port_matches (cr_port rule) port)"

section \<open>Compiling\<close>

definition ordered_range :: "u32 \<Rightarrow> u32 \<Rightarrow> host_matcher" where
  "ordered_range ai bi = (if ai \<le> bi then Ipv4_Range ai bi else Ipv4_Range bi ai)"

definition range_matcher :: "string \<Rightarrow> string \<Rightarrow> host_matcher option" where
  "range_matcher start e =
     (case parse_ipv4 (trim start) of
        None \<Rightarrow> None
      | Some a \<Rightarrow>
          (case parse_ipv4 (trim e) of
             None \<Rightarrow> None
           | Some b \<Rightarrow> Some (ordered_range (u32_of_ipv4 a) (u32_of_ipv4 b))))"

definition compile_matcher :: "string \<Rightarrow> host_matcher option" where
  "compile_matcher host =
     (if str_contains ''~'' host then
        (case split_once ''~'' host of
           None \<Rightarrow> None
         | Some (start, e) \<Rightarrow> range_matcher start e)
      else
        (case parse_ipv4 (trim host) of
           Some ip \<Rightarrow> Some (Ipv4_Match ip)
         | None \<Rightarrow>
             (let domain = normalize_domain host in
              if domain = [] then None else Some (Domain domain))))"

definition compile_rule :: "route_rule \<Rightarrow> compiled_rule option" where
  "compile_rule rule =
     (case compile_matcher (rule_host rule) of
        None \<Rightarrow> None
      | Some matcher \<Rightarrow>
          Some \<lparr>cr_rc_id = rule_rc_id rule, cr_rc_name = rule_name rule, cr_proto = rule_proto rule,
                cr_svc = rule_svc rule, cr_matcher = matcher, cr_port = rule_port rule\<rparr>)"

datatype matcher_dedup_key = Key_Domain string | Key_Ipv4 ipv4 | Key_Range u32 u32

record rule_dedup_key =
  key_rc_id :: int
  key_rc_name :: string
  key_proto :: int
  key_svc :: string
  key_matcher :: matcher_dedup_key
  key_port_start :: u16
  key_port_end :: u16

definition dedup_key :: "compiled_rule \<Rightarrow> rule_dedup_key" where
  "dedup_key rule =
     \<lparr>key_rc_id = cr_rc_id rule, key_rc_name = cr_rc_name rule, key_proto = cr_proto rule,
      key_svc = cr_svc rule,
      key_matcher = (case cr_matcher rule of
                       Domain host \<Rightarrow> Key_Domain host
                     | Ipv4_Match ip \<Rightarrow> Key_Ipv4 ip
                     | Ipv4_Range a b \<Rightarrow> Key_Range a b),
      key_port_start = pr_start (cr_port rule), key_port_end = pr_end (cr_port rule)\<rparr>"

fun compile_loop :: "rule_dedup_key set \<times> compiled_rule list \<Rightarrow> route_rule list \<Rightarrow> rule_dedup_key set \<times> compiled_rule list" where
  "compile_loop st [] = st"
| "compile_loop st (rule # rest) =
     (case compile_rule rule of
        None \<Rightarrow> compile_loop st rest
      | Some compiled \<Rightarrow>
          (let key = dedup_key compiled in
           if key \<in> fst st then compile_loop st rest
           else compile_loop (insert key (fst st), snd st @ [compiled]) rest))"

definition compile_rules :: "route_rule list \<Rightarrow> compiled_rule list" where
  "compile_rules raw_rules = snd (compile_loop ({}, []) raw_rules)"

section \<open>The index\<close>

definition bucket_of :: "u32 \<Rightarrow> nat" where
  "bucket_of w = unat (drop_bit 24 w AND 0xff)"

definition push_entry :: "('k \<rightharpoonup> 'v list) \<Rightarrow> 'k \<Rightarrow> 'v \<Rightarrow> 'k \<rightharpoonup> 'v list" where
  "push_entry m k v = m(k \<mapsto> (case m k of Some vs \<Rightarrow> vs | None \<Rightarrow> []) @ [v])"

fun push_buckets :: "nat list \<Rightarrow> nat \<Rightarrow> nat list list \<Rightarrow> nat list list" where
  "push_buckets [] idx buckets = buckets"
| "push_buckets (b # bs) idx buckets = push_buckets bs idx (buckets[b := buckets ! b @ [idx]])"

definition index_rule :: "nat \<Rightarrow> compiled_rule \<Rightarrow> rule_index \<Rightarrow> rule_index" where
  "index_rule idx rule index =
     (case cr_matcher rule of
        Domain domain \<Rightarrow> index\<lparr>ix_domain := push_entry (ix_domain index) domain idx\<rparr>
      | Ipv4_Match ip \<Rightarrow> index\<lparr>ix_ipv4 := push_entry (ix_ipv4 index) ip idx\<rparr>
      | Ipv4_Range start e \<Rightarrow>
          index\<lparr>ix_range_buckets :=
            push_buckets [bucket_of start..<Suc (bucket_of e)] idx (ix_range_buckets index)\<rparr>)"

fun build_from :: "nat \<Rightarrow> compiled_rule list \<Rightarrow> rule_index \<Rightarrow> rule_index" where
  "build_from idx [] index = index"
| "build_from idx (rule # rest) index = build_from (Suc idx) rest (index_rule idx rule index)"

definition build_index :: "compiled_rule list \<Rightarrow> rule_index" where
  "build_index rules =
     build_from 0 rules \<lparr>ix_domain = Map.empty, ix_ipv4 = Map.empty, ix_range_buckets = replicate 256 []\<rparr>"

text \<open>The loops of the lookup: over candidates, keeping the least index that passes.\<close>

fun best_of :: "(nat \<Rightarrow> bool) \<Rightarrow> nat list \<Rightarrow> nat option \<Rightarrow> nat option" where
  "best_of ok_idx [] best = best"
| "best_of ok_idx (idx # ids) best =
     best_of ok_idx ids
       (if ok_idx idx \<and> (case best of None \<Rightarrow> True | Some b \<Rightarrow> idx < b) then Some idx else best)"

definition in_range :: "compiled_rule \<Rightarrow> u32 \<Rightarrow> bool" where
  "in_range rule needle \<longleftrightarrow>
     (case cr_matcher rule of Ipv4_Range start e \<Rightarrow> start \<le> needle \<and> needle \<le> e | _ \<Rightarrow> False)"

definition find_first_match :: "rule_index \<Rightarrow> compiled_rule list \<Rightarrow> target_kind \<Rightarrow> u16 \<Rightarrow> flow_proto \<Rightarrow> compiled_rule option" where
  "find_first_match index rules target port flow =
     (case target of
        Target_Domain domain \<Rightarrow>
          map_option (\<lambda>idx. rules ! idx)
            (case ix_domain index domain of
               None \<Rightarrow> None
             | Some ids \<Rightarrow> find (\<lambda>idx. rule_matches_flow (rules ! idx) port flow) ids)
      | Target_Ipv4 ip \<Rightarrow>
          (let best = (case ix_ipv4 index ip of
                         None \<Rightarrow> None
                       | Some ids \<Rightarrow> best_of (\<lambda>idx. rule_matches_flow (rules ! idx) port flow) ids None);
               needle = u32_of_ipv4 ip;
               best = best_of (\<lambda>idx. in_range (rules ! idx) needle \<and> rule_matches_flow (rules ! idx) port flow)
                        (ix_range_buckets index ! bucket_of needle) best
           in map_option (\<lambda>idx. rules ! idx) best))"

section \<open>The specification: the first matching rule of the table\<close>

definition host_hits :: "host_matcher \<Rightarrow> target_kind \<Rightarrow> bool" where
  "host_hits matcher target \<longleftrightarrow>
     (case (matcher, target) of
        (Domain d, Target_Domain d') \<Rightarrow> d = d'
      | (Ipv4_Match ip, Target_Ipv4 ip') \<Rightarrow> ip = ip'
      | (Ipv4_Range a b, Target_Ipv4 ip) \<Rightarrow> a \<le> u32_of_ipv4 ip \<and> u32_of_ipv4 ip \<le> b
      | _ \<Rightarrow> False)"

definition rule_hits :: "target_kind \<Rightarrow> u16 \<Rightarrow> flow_proto \<Rightarrow> compiled_rule \<Rightarrow> bool" where
  "rule_hits target port flow rule \<longleftrightarrow>
     host_hits (cr_matcher rule) target \<and> rule_matches_flow rule port flow"

lemma best_of_result:
  "best_of P ids best =
     (let good = filter P ids @ (case best of None \<Rightarrow> [] | Some b \<Rightarrow> [b])
      in if good = [] then None else Some (Min (set good)))"
proof (induction P ids best rule: best_of.induct)
  case (1 P best)
  show ?case by (cases best) simp_all
next
  case (2 P idx ids best)
  have min: "Min (insert a (insert b S)) = Min (insert (min a b) S)" if "finite S" for a b :: nat and S
    using that by (cases "S = {}") (simp_all add: min.assoc)
  show ?case
  proof (cases best)
    case None
    with 2 show ?thesis by (cases "P idx") (simp_all add: Let_def)
  next
    case (Some b)
    show ?thesis
    proof (cases "P idx")
      case True
      have "insert idx (insert b (set (filter P ids))) = insert idx (set (filter P ids) \<union> {b})" by auto
      with 2 Some True min [of "set (filter P ids)" idx b] show ?thesis
        by (auto simp: Let_def min_def insert_commute)
    next
      case False
      with 2 Some show ?thesis by (simp add: Let_def)
    qed
  qed
qed

text \<open>What the index holds for the first \<open>n\<close> rules.\<close>

definition ids_where :: "(compiled_rule \<Rightarrow> bool) \<Rightarrow> compiled_rule list \<Rightarrow> nat \<Rightarrow> nat list" where
  "ids_where P rules n = filter (\<lambda>i. P (rules ! i)) [0..<n]"

definition entry_list :: "('k \<rightharpoonup> 'v list) \<Rightarrow> 'k \<Rightarrow> 'v list" where
  "entry_list m k = (case m k of None \<Rightarrow> [] | Some vs \<Rightarrow> vs)"

definition covers_bucket :: "nat \<Rightarrow> compiled_rule \<Rightarrow> bool" where
  "covers_bucket b rule \<longleftrightarrow>
     (case cr_matcher rule of Ipv4_Range s e \<Rightarrow> bucket_of s \<le> b \<and> b \<le> bucket_of e | _ \<Rightarrow> False)"

definition indexes :: "compiled_rule list \<Rightarrow> nat \<Rightarrow> rule_index \<Rightarrow> bool" where
  "indexes rules n ix \<longleftrightarrow>
     (\<forall>d. entry_list (ix_domain ix) d = ids_where (\<lambda>r. cr_matcher r = Domain d) rules n) \<and>
     (\<forall>ip. entry_list (ix_ipv4 ix) ip = ids_where (\<lambda>r. cr_matcher r = Ipv4_Match ip) rules n) \<and>
     length (ix_range_buckets ix) = 256 \<and>
     (\<forall>b < 256. ix_range_buckets ix ! b = ids_where (covers_bucket b) rules n)"

lemma entry_list_push: "entry_list (push_entry m k v) k' = entry_list m k' @ (if k' = k then [v] else [])"
  by (auto simp: entry_list_def push_entry_def split: option.splits)

lemma push_buckets_result:
  "distinct bs \<Longrightarrow> (\<And>b. b \<in> set bs \<Longrightarrow> b < length buckets) \<Longrightarrow>
   length (push_buckets bs idx buckets) = length buckets \<and>
   (\<forall>b < length buckets. push_buckets bs idx buckets ! b = buckets ! b @ (if b \<in> set bs then [idx] else []))"
  by (induction bs idx buckets rule: push_buckets.induct) (auto simp: nth_list_update)

lemma bucket_of_alt: "bucket_of w = unat w div 16777216"
proof -
  have "unat (drop_bit 24 w) = unat w div 16777216"
    by (subst unat_drop_bit_eq) (simp add: drop_bit_eq_div)
  moreover have "unat w < 2 ^ 32" using unsigned_less [of w, where ?'a = nat] by simp
  ultimately have d: "unat (drop_bit 24 w) < 256" "unat (drop_bit 24 w) = unat w div 16777216"
    by (simp_all add: less_mult_imp_div_less)
  have "drop_bit 24 w AND 0xff = take_bit 8 (drop_bit 24 w)"
    by (simp add: take_bit_eq_mask mask_numeral)
  then have "bucket_of w = unat (take_bit 8 (drop_bit 24 w))" by (simp only: bucket_of_def)
  also have "\<dots> = unat (drop_bit 24 w) mod 256"
    by (subst unsigned_take_bit_eq) (simp add: take_bit_eq_mod)
  finally show ?thesis using d by simp
qed

lemma bucket_of_less: "bucket_of w < 256"
  using unsigned_less [of w, where ?'a = nat] by (simp add: bucket_of_alt less_mult_imp_div_less)

lemma bucket_of_mono: "a \<le> b \<Longrightarrow> bucket_of a \<le> bucket_of b"
  by (simp add: bucket_of_alt div_le_mono word_le_nat_alt)

lemma ids_where_Suc: "ids_where P rules (Suc n) = ids_where P rules n @ (if P (rules ! n) then [n] else [])"
  by (simp add: ids_where_def)

lemma indexes_step:
  assumes "indexes rules n ix"
  shows "indexes rules (Suc n) (index_rule n (rules ! n) ix)"
proof (cases "cr_matcher (rules ! n)")
  case (Ipv4_Range s e)
  let ?bs = "[bucket_of s..<Suc (bucket_of e)]" and ?B = "ix_range_buckets ix"
  have "length (push_buckets ?bs n ?B) = length ?B \<and>
      (\<forall>b < length ?B. push_buckets ?bs n ?B ! b = ?B ! b @ (if b \<in> set ?bs then [n] else []))"
    by (rule push_buckets_result)
       (use assms bucket_of_less [of e] in \<open>auto simp: indexes_def simp del: upt_Suc\<close>)
  then show ?thesis
    using assms Ipv4_Range
    by (auto simp: indexes_def index_rule_def ids_where_Suc covers_bucket_def simp del: upt_Suc)
qed (use assms in \<open>auto simp: indexes_def index_rule_def ids_where_Suc entry_list_push covers_bucket_def\<close>)

lemma indexes_build_from:
  "indexes rules n ix \<Longrightarrow> n \<le> length rules \<Longrightarrow> indexes rules (length rules) (build_from n (drop n rules) ix)"
proof (induction "drop n rules" arbitrary: n ix)
  case Nil
  then have "n = length rules" by simp
  with Nil show ?case by simp
next
  case (Cons r rest)
  then have n: "n < length rules" "r = rules ! n" "rest = drop (Suc n) rules"
    by (metis drop_all leI list.distinct(1), metis nth_via_drop, metis drop_Suc list.sel(3) tl_drop)
  with Cons.hyps(1) [OF n(3) indexes_step [OF Cons.prems(1)]] Cons.hyps(2) [symmetric] show ?case
    by simp
qed

lemma indexes_build: "indexes rules (length rules) (build_index rules)"
proof -
  have "indexes rules 0 \<lparr>ix_domain = Map.empty, ix_ipv4 = Map.empty, ix_range_buckets = replicate 256 []\<rparr>"
    by (simp add: indexes_def ids_where_def entry_list_def)
  from indexes_build_from [OF this] show ?thesis by (simp add: build_index_def)
qed

section \<open>The lookup finds the first matching rule\<close>

lemma find_ids_where:
  "find Q (ids_where P rules (length rules)) =
     find (\<lambda>i. P (rules ! i) \<and> Q i) [0..<length rules]"
proof -
  have "find Q (filter P' xs) = find (\<lambda>i. P' i \<and> Q i) xs" for P' :: "nat \<Rightarrow> bool" and xs
    by (induction xs) auto
  then show ?thesis by (simp add: ids_where_def)
qed

lemma find_index:
  "map_option (\<lambda>i. xs ! i) (find (\<lambda>i. P (xs ! i)) [0..<length xs]) = find P xs"
proof -
  have "map_option f (find (\<lambda>i. P (f i)) ys) = find P (map f ys)" for f :: "nat \<Rightarrow> 'a" and ys
    by (induction ys) auto
  from this [of "(!) xs"] show ?thesis by (simp add: map_nth)
qed

lemma best_of_sorted:
  assumes "sorted_wrt (<) ids"
  shows "best_of P ids None = find P ids"
proof -
  have "filter P ids \<noteq> [] \<Longrightarrow> Min (set (filter P ids)) = hd (filter P ids)"
  proof -
    assume ne: "filter P ids \<noteq> []"
    have "sorted_wrt (<) (filter P ids)" using assms by (rule sorted_wrt_filter)
    with ne obtain a as where a: "filter P ids = a # as" "sorted_wrt (<) (a # as)"
      by (cases "filter P ids") auto
    then have "Min (insert a (set as)) = a" by (intro Min_insert2) auto
    with a show "Min (set (filter P ids)) = hd (filter P ids)" by (simp del: set_filter)
  qed
  moreover have "find P xs = (if filter P xs = [] then None else Some (hd (filter P xs)))" for xs
    by (induction xs) auto
  ultimately show ?thesis by (simp add: best_of_result Let_def)
qed

lemma find_min_upt:
  "find P [0..<n] = (if \<exists>i < n. P i then Some (Min {i. i < n \<and> P i}) else None)"
proof -
  have "find P [0..<n] = best_of P [0..<n] None"
    by (rule best_of_sorted [symmetric]) (rule strict_sorted_iff [THEN iffD2], simp)
  moreover have "set (filter P [0..<n]) = {i. i < n \<and> P i}" by auto
  moreover have "filter P [0..<n] = [] \<longleftrightarrow> \<not> (\<exists>i < n. P i)" by (auto simp: filter_empty_conv)
  ultimately show ?thesis by (simp add: best_of_result Let_def del: set_filter)
qed

lemma best_of_two:
  "best_of Q (ids_where B rules (length rules)) (best_of P (ids_where A rules (length rules)) None) =
   find (\<lambda>i. A (rules ! i) \<and> P i \<or> B (rules ! i) \<and> Q i) [0..<length rules]"
proof -
  let ?n = "length rules"
  let ?X = "{i. i < ?n \<and> A (rules ! i) \<and> P i}" and ?Y = "{i. i < ?n \<and> B (rules ! i) \<and> Q i}"
  have X: "set (filter P (ids_where A rules ?n)) = ?X" and Y: "set (filter Q (ids_where B rules ?n)) = ?Y"
    by (auto simp: ids_where_def)
  have eX: "filter P (ids_where A rules ?n) = [] \<longleftrightarrow> ?X = {}"
    and eY: "filter Q (ids_where B rules ?n) = [] \<longleftrightarrow> ?Y = {}"
    using X Y by (metis set_empty)+
  have inner: "best_of P (ids_where A rules ?n) None = (if ?X = {} then None else Some (Min ?X))"
    by (simp add: best_of_result Let_def eX X del: set_filter)
  have union: "{i. i < ?n \<and> (A (rules ! i) \<and> P i \<or> B (rules ! i) \<and> Q i)} = ?X \<union> ?Y" by auto
  have ex: "(\<exists>i < ?n. A (rules ! i) \<and> P i \<or> B (rules ! i) \<and> Q i) \<longleftrightarrow> ?X \<union> ?Y \<noteq> {}" by auto
  have min: "Min (?X \<union> ?Y) = min (Min ?X) (Min ?Y)" if "?X \<noteq> {}" "?Y \<noteq> {}"
    using that by (intro Min_Un) auto
  have outer: "best_of Q (ids_where B rules ?n) best =
      (case best of
         None \<Rightarrow> if ?Y = {} then None else Some (Min ?Y)
       | Some b \<Rightarrow> Some (if ?Y = {} then b else min b (Min ?Y)))" for best
  proof (cases best)
    case None
    then show ?thesis by (simp add: best_of_result Let_def eY Y del: set_filter)
  next
    case (Some b)
    have "finite ?Y" by simp
    then have "Min (insert b ?Y) = (if ?Y = {} then b else min b (Min ?Y))"
      by (cases "?Y = {}") (simp_all only: Min_singleton Min_insert if_True if_False simp_thms)
    with Some show ?thesis
      by (simp add: best_of_result Let_def eY Y del: set_filter Collect_empty_eq)
  qed
  show ?thesis
    unfolding find_min_upt union ex inner outer
    by (cases "?X = {}"; cases "?Y = {}")
       (simp_all add: min del: Collect_empty_eq Un_empty)
qed

lemma find_first_match_indexed:
  assumes "indexes rules (length rules) ix"
  shows "find_first_match ix rules target port flow = find (rule_hits target port flow) rules"
proof (cases target)
  case (Target_Domain d)
  have hits: "rule_hits target port flow r \<longleftrightarrow> cr_matcher r = Domain d \<and> rule_matches_flow r port flow" for r
    by (cases "cr_matcher r") (auto simp: rule_hits_def host_hits_def Target_Domain)
  have "(case ix_domain ix d of None \<Rightarrow> None
         | Some ids \<Rightarrow> find (\<lambda>idx. rule_matches_flow (rules ! idx) port flow) ids) =
        find (\<lambda>idx. rule_matches_flow (rules ! idx) port flow) (entry_list (ix_domain ix) d)"
    by (simp add: entry_list_def split: option.splits)
  also have "\<dots> = find (\<lambda>i. rule_hits target port flow (rules ! i)) [0..<length rules]"
    using assms by (simp add: indexes_def find_ids_where hits)
  finally show ?thesis
    using find_index [of rules "rule_hits target port flow"] by (simp add: find_first_match_def Target_Domain)
next
  case (Target_Ipv4 ip)
  let ?w = "u32_of_ipv4 ip"
  let ?F = "\<lambda>i. rule_matches_flow (rules ! i) port flow"
  have hits: "rule_hits target port flow r \<longleftrightarrow>
      cr_matcher r = Ipv4_Match ip \<and> rule_matches_flow r port flow \<or>
      covers_bucket (bucket_of ?w) r \<and> in_range r ?w \<and> rule_matches_flow r port flow" for r
    by (cases "cr_matcher r")
       (auto simp: rule_hits_def host_hits_def Target_Ipv4 covers_bucket_def in_range_def intro: bucket_of_mono)
  have "(case ix_ipv4 ix ip of None \<Rightarrow> None | Some ids \<Rightarrow> best_of ?F ids None) =
      best_of ?F (entry_list (ix_ipv4 ix) ip) None"
    by (simp add: entry_list_def split: option.splits)
  then show ?thesis
    using assms bucket_of_less [of ?w] find_index [of rules "rule_hits target port flow"]
    by (simp add: find_first_match_def Target_Ipv4 indexes_def best_of_two hits [unfolded Target_Ipv4])
qed

text \<open>
  \<^bold>\<open>C11.\<close> The index is an optimisation only: for every rule list, target, port and protocol, looking
  the target up in the index built from the rules gives the first rule of the list that hits the
  target (same domain, same address, or address inside the range) and admits the flow.
\<close>

theorem find_first_match_linear:
  "find_first_match (build_index rules) rules target port flow = find (rule_hits target port flow) rules"
  by (rule find_first_match_indexed) (rule indexes_build)

text \<open>
  No lookup indexes out of bounds: every position stored in the index of a rule list is a
  position of that list, there are 256 buckets, and the bucket of every address is one of them.
\<close>

theorem index_positions_valid:
  "set (entry_list (ix_domain (build_index rules)) d) \<subseteq> {..<length rules} \<and>
   set (entry_list (ix_ipv4 (build_index rules)) ip) \<subseteq> {..<length rules} \<and>
   set (concat (ix_range_buckets (build_index rules))) \<subseteq> {..<length rules} \<and>
   length (ix_range_buckets (build_index rules)) = 256 \<and> bucket_of (u32_of_ipv4 ip) < 256"
proof -
  note ix = indexes_build [of rules, unfolded indexes_def]
  from ix have "\<forall>b < length (ix_range_buckets (build_index rules)).
      set (ix_range_buckets (build_index rules) ! b) \<subseteq> {..<length rules}"
    by (auto simp: ids_where_def)
  then have "\<forall>b \<in> set (ix_range_buckets (build_index rules)). set b \<subseteq> {..<length rules}"
    by (metis in_set_conv_nth)
  with ix bucket_of_less show ?thesis by (auto simp: ids_where_def)
qed

section \<open>Compiled rules\<close>

interpretation compiled: dedup_loop compile_loop compile_rule dedup_key fst snd
proof unfold_locales
  fix x :: route_rule and a and s :: "rule_dedup_key set \<times> compiled_rule list" and xs
  assume "compile_rule x = Some a" "dedup_key a \<notin> fst s"
  then show "\<exists>s'. compile_loop s (x # xs) = compile_loop s' xs \<and> fst s' = insert (dedup_key a) (fst s) \<and>
      snd s' = snd s @ [a]"
    by (intro exI [of _ "(insert (dedup_key a) (fst s), snd s @ [a])"]) (simp add: Let_def)
qed (simp_all add: Let_def)

lemma dedup_key_inj [simp]: "dedup_key a = dedup_key b \<longleftrightarrow> a = b"
  by (cases a; cases b; cases "cr_matcher a"; cases "cr_matcher b"; cases "cr_port a"; cases "cr_port b")
     (auto simp: dedup_key_def)

lemma compile_rules_firsts:
  "compile_rules raw = firsts_by dedup_key {} (List.map_filter compile_rule raw)"
  using compiled.out_loop [of "({}, [])" raw] by (simp add: compile_rules_def)

text \<open>
  Compiling keeps the table's meaning: the compiled rules are the compilable rows in the
  table's order, each once; and removing the duplicates never changes which rule a target finds
  first, so a lookup is a scan of the table.
\<close>

theorem compile_rules_keeps_first_match:
  "subseq (compile_rules raw) (List.map_filter compile_rule raw) \<and> distinct (compile_rules raw) \<and>
   set (compile_rules raw) = set (List.map_filter compile_rule raw) \<and>
   find_first_match (build_index (compile_rules raw)) (compile_rules raw) target port flow =
     find (rule_hits target port flow) (List.map_filter compile_rule raw)"
proof -
  have "find (rule_hits target port flow) (compile_rules raw) =
      find (rule_hits target port flow) (List.map_filter compile_rule raw)"
    unfolding compile_rules_firsts by (rule firsts_by_find) simp
  moreover have "distinct (compile_rules raw)"
    using distinct_firsts_by [of dedup_key "{}" "List.map_filter compile_rule raw"]
    by (simp add: compile_rules_firsts distinct_map)
  moreover have "set (compile_rules raw) = set (List.map_filter compile_rule raw)"
    using firsts_by_keys [of dedup_key "{}" "List.map_filter compile_rule raw"]
    by (simp add: compile_rules_firsts inj_image_eq_iff [of dedup_key] inj_def)
  moreover have "find_first_match (build_index (compile_rules raw)) (compile_rules raw) target port flow =
      find (rule_hits target port flow) (compile_rules raw)"
    by (rule find_first_match_indexed) (rule indexes_build)
  ultimately show ?thesis by (simp add: compile_rules_firsts subseq_firsts_by)
qed

end
