(* ===== verification/DnsResolver.thy ===== *)
theory DnsResolver
  imports RustIO Dedup
begin

text \<open>
  \<^verbatim>\<open>ec-core/src/dns_resolver.rs\<close>: the resolver that asks the DNS servers of the route table. Its
  state \<open>dns_state\<close> is the two process-wide caches, the query id counter, the clock and the
  number of sockets opened so far. What the network does is a parameter (\<open>udp_net\<close>, \<open>tcp_net\<close>: a
  script for each socket opened), and so is the DNS message library \<^verbatim>\<open>hickory_proto\<close>
  (\<open>dns_codec\<close>); the program reads a decoded message through the fields of \<open>dns_message\<close>. The
  mutexes around the caches are taken for one cache operation each and never poisoned (no code
  panics while it holds one), so a cache operation is one step.
\<close>

definition DNS_IO_TIMEOUT :: nat where "DNS_IO_TIMEOUT = 1200"
definition DNS_CACHE_TTL :: nat where "DNS_CACHE_TTL = 300000"
definition DNS_UDP_BUFFER_SIZE :: nat where "DNS_UDP_BUFFER_SIZE = 4096"
definition DNS_TCP_MAX_PAYLOAD :: nat where "DNS_TCP_MAX_PAYLOAD = 65535"

datatype resolve_source = Cache | Server sock_addr

record resolve_result =
  rr_ip :: ipv4
  rr_source :: resolve_source

record lookup_result =
  lr_aliases :: "string list"
  lr_ips :: "ipv4 list"
  lr_source :: resolve_source

record cache_entry =
  ce_ip :: ipv4
  ce_expires_at :: nat

record lookup_cache_entry =
  le_aliases :: "string list"
  le_ips :: "ipv4 list"
  le_expires_at :: nat

type_synonym cache_key = "int \<times> string"

section \<open>The message library and the network\<close>

datatype rdata = RData_A ipv4 | RData_CNAME string | RData_Other

datatype response_code = NoError | Response_Code string

record dns_message =
  msg_id :: u16
  msg_is_response :: bool
  msg_code :: response_code
  msg_truncated :: bool
  msg_answers :: "rdata list"

text \<open>
  \<open>name_error\<close> is the error of \<^verbatim>\<open>Name::from_ascii\<close>, if any; \<open>encode_query id fqdn\<close> is \<^verbatim>\<open>to_vec\<close> of the
  A query with recursion desired; \<open>decode_message\<close> is \<^verbatim>\<open>Message::from_vec\<close>.
\<close>

record dns_codec =
  name_error :: "string \<Rightarrow> string option"
  encode_query :: "u16 \<Rightarrow> string \<Rightarrow> string + bytes"
  decode_message :: "bytes \<Rightarrow> string + dns_message"

text \<open>
  One socket: what binding, its options and sending answer (\<open>None\<close> is success), and the datagrams
  that arrive, each with its delay and its peer. When no event is left, \<^verbatim>\<open>recv_from\<close> times out.
\<close>

record udp_script =
  udp_bind_error :: "string \<Rightarrow> string option"
  udp_read_opt_error :: "string option"
  udp_write_opt_error :: "string option"
  udp_send_error :: "string option"
  udp_events :: "(nat \<times> (string + sock_addr \<times> bytes)) list"

record tcp_script =
  tcp_connect_delay :: nat
  tcp_connect_error :: "string option"
  tcp_read_opt_error :: "string option"
  tcp_write_opt_error :: "string option"
  tcp_stream :: stream

record dns_env =
  dns_codec :: dns_codec
  udp_net :: "nat \<Rightarrow> udp_script"
  tcp_net :: "nat \<Rightarrow> tcp_script"

record dns_state =
  dns_now :: nat
  query_id :: u16
  dns_cache :: "cache_key \<rightharpoonup> cache_entry"
  lookup_cache :: "string \<rightharpoonup> lookup_cache_entry"
  net_step :: nat

definition timeout_text :: string where
  "timeout_text = ''Resource temporarily unavailable (os error 11)''"

section \<open>The caches\<close>

definition clear_cache :: "dns_state \<Rightarrow> dns_state" where
  "clear_cache st = st\<lparr>dns_cache := Map.empty, lookup_cache := Map.empty\<rparr>"

definition cache_get :: "cache_key \<Rightarrow> dns_state \<Rightarrow> ipv4 option \<times> dns_state" where
  "cache_get key st =
     (case dns_cache st key of
        Some entry \<Rightarrow>
          if dns_now st < ce_expires_at entry then (Some (ce_ip entry), st)
          else (None, st\<lparr>dns_cache := (dns_cache st)(key := None)\<rparr>)
      | None \<Rightarrow> (None, st))"

definition cache_put :: "cache_key \<Rightarrow> ipv4 \<Rightarrow> dns_state \<Rightarrow> dns_state" where
  "cache_put key ip st =
     st\<lparr>dns_cache := (dns_cache st)(key \<mapsto> \<lparr>ce_ip = ip, ce_expires_at = dns_now st + DNS_CACHE_TTL\<rparr>)\<rparr>"

definition lookup_cache_get :: "string \<Rightarrow> dns_state \<Rightarrow> (string list \<times> ipv4 list) option \<times> dns_state" where
  "lookup_cache_get key st =
     (case lookup_cache st key of
        Some entry \<Rightarrow>
          if dns_now st < le_expires_at entry then (Some (le_aliases entry, le_ips entry), st)
          else (None, st\<lparr>lookup_cache := (lookup_cache st)(key := None)\<rparr>)
      | None \<Rightarrow> (None, st))"

definition lookup_cache_put :: "string \<Rightarrow> string list \<times> ipv4 list \<Rightarrow> dns_state \<Rightarrow> dns_state" where
  "lookup_cache_put key val st =
     st\<lparr>lookup_cache := (lookup_cache st)(key \<mapsto>
          \<lparr>le_aliases = fst val, le_ips = snd val, le_expires_at = dns_now st + DNS_CACHE_TTL\<rparr>)\<rparr>"

section \<open>Messages\<close>

definition next_query_id :: "dns_state \<Rightarrow> u16 \<times> dns_state" where
  "next_query_id st = (query_id st, st\<lparr>query_id := query_id st + 1\<rparr>)"

definition build_a_query :: "dns_codec \<Rightarrow> string \<Rightarrow> dns_state \<Rightarrow> (u16 \<times> bytes) ec_result \<times> dns_state" where
  "build_a_query c host st =
     (let (qid, st) = next_query_id st;
          fqdn = (if host \<noteq> [] \<and> last host = CHR ''.'' then host else host @ ''.'') in
      case name_error c fqdn of
        Some e \<Rightarrow> (Inl (Runtime (''dns query name build failed: '' @ e)), st)
      | None \<Rightarrow>
          (case encode_query c qid fqdn of
             Inl e \<Rightarrow> (Inl (Runtime (''dns query encode failed: '' @ e)), st)
           | Inr payload \<Rightarrow> (Inr (qid, payload), st)))"

definition decode_dns_response :: "dns_codec \<Rightarrow> bytes \<Rightarrow> u16 \<Rightarrow> sock_addr \<Rightarrow> dns_message ec_result" where
  "decode_dns_response c payload expected_id server =
     try_map (\<lambda>e. Runtime (''dns response decode failed: '' @ e)) (decode_message c payload) (\<lambda>message.
       if msg_id message \<noteq> expected_id then
         Inl (Runtime (''dns response id mismatch from '' @ show_sock_addr server @ '': expected ''
                       @ dec_u16 expected_id @ '', got '' @ dec_u16 (msg_id message)))
       else if \<not> msg_is_response message then
         Inl (Runtime (''dns response message type is not response from '' @ show_sock_addr server))
       else
         (case msg_code message of
            NoError \<Rightarrow> Inr message
          | Response_Code c \<Rightarrow>
              Inl (Runtime (''dns response code from '' @ show_sock_addr server @ '': '' @ c))))"

definition normalize_dns_name :: "string \<Rightarrow> string" where
  "normalize_dns_name host = to_ascii_lowercase (trim_end_dots (trim host))"

text \<open>The loops over the answers push what is not yet in the vector.\<close>

definition push_new :: "'a \<Rightarrow> 'a list \<Rightarrow> 'a list" where
  "push_new x xs = (if x \<in> set xs then xs else xs @ [x])"

fun extract_ipv4s_from :: "ipv4 list \<Rightarrow> rdata list \<Rightarrow> ipv4 list" where
  "extract_ipv4s_from ips [] = ips"
| "extract_ipv4s_from ips (answer # rest) =
     (case answer of
        RData_A ip \<Rightarrow> extract_ipv4s_from (push_new ip ips) rest
      | _ \<Rightarrow> extract_ipv4s_from ips rest)"

definition extract_ipv4s :: "dns_message \<Rightarrow> ipv4 list" where
  "extract_ipv4s message = extract_ipv4s_from [] (msg_answers message)"

fun extract_aliases_from :: "string list \<Rightarrow> rdata list \<Rightarrow> string list" where
  "extract_aliases_from aliases [] = aliases"
| "extract_aliases_from aliases (answer # rest) =
     (case answer of
        RData_CNAME cname \<Rightarrow>
          (let alias = normalize_dns_name cname in
           extract_aliases_from (if alias \<noteq> [] then push_new alias aliases else aliases) rest)
      | _ \<Rightarrow> extract_aliases_from aliases rest)"

definition extract_cname_aliases :: "dns_message \<Rightarrow> string list" where
  "extract_cname_aliases message = extract_aliases_from [] (msg_answers message)"

definition extract_first_ipv4 :: "dns_message \<Rightarrow> sock_addr \<Rightarrow> ipv4 ec_result" where
  "extract_first_ipv4 message server =
     (case extract_ipv4s message of
        ip # _ \<Rightarrow> Inr ip
      | [] \<Rightarrow> Inl (Runtime (''dns no A answer from '' @ show_sock_addr server)))"

section \<open>Queries\<close>

datatype udp_query_result = Complete dns_message | Truncated

definition bind_udp_socket :: "udp_script \<Rightarrow> sock_addr \<Rightarrow> unit ec_result" where
  "bind_udp_socket u server =
     (let bind_addr = (case server of V4 _ \<Rightarrow> ''0.0.0.0:0'' | V6 _ _ _ \<Rightarrow> ''[::]:0'') in
      case udp_bind_error u bind_addr of
        Some e \<Rightarrow> Inl (Runtime (''dns udp bind failed: '' @ e))
      | None \<Rightarrow>
          (case udp_read_opt_error u of
             Some e \<Rightarrow> Inl (Runtime (''dns udp set read timeout failed: '' @ e))
           | None \<Rightarrow>
               (case udp_write_opt_error u of
                  Some e \<Rightarrow> Inl (Runtime (''dns udp set write timeout failed: '' @ e))
                | None \<Rightarrow> Inr ())))"

fun recv_loop :: "dns_codec \<Rightarrow> u16 \<Rightarrow> sock_addr \<Rightarrow> nat \<Rightarrow> nat \<Rightarrow> (nat \<times> (string + sock_addr \<times> bytes)) list
    \<Rightarrow> udp_query_result ec_result \<times> nat" where
  "recv_loop c qid server deadline now [] =
     (if now < deadline
      then (Inl (Runtime (''dns udp recv failed: '' @ timeout_text)), now + DNS_IO_TIMEOUT)
      else (Inl (Runtime (''dns udp recv failed: no valid response from '' @ show_sock_addr server)), now))"
| "recv_loop c qid server deadline now (ev # rest) =
     (if now < deadline
      then
        (case snd ev of
           Inl e \<Rightarrow> (Inl (Runtime (''dns udp recv failed: '' @ e)), now + fst ev)
         | Inr (peer, datagram) \<Rightarrow>
             if peer \<noteq> server then recv_loop c qid server deadline (now + fst ev) rest
             else
               (try_map id (decode_dns_response c (take DNS_UDP_BUFFER_SIZE datagram) qid server)
                  (\<lambda>message. if msg_truncated message then Inr Truncated else Inr (Complete message)),
                now + fst ev))
      else (Inl (Runtime (''dns udp recv failed: no valid response from '' @ show_sock_addr server)), now))"

definition query_udp :: "dns_env \<Rightarrow> u16 \<Rightarrow> bytes \<Rightarrow> sock_addr \<Rightarrow> dns_state \<Rightarrow> udp_query_result ec_result \<times> dns_state" where
  "query_udp env qid request server st =
     (let u = udp_net env (net_step st);
          st = st\<lparr>net_step := net_step st + 1\<rparr> in
      case bind_udp_socket u server of
        Inl e \<Rightarrow> (Inl e, st)
      | Inr _ \<Rightarrow>
          (case udp_send_error u of
             Some e \<Rightarrow> (Inl (Runtime (''dns udp send failed: '' @ e)), st)
           | None \<Rightarrow>
               (let (r, now) = recv_loop (dns_codec env) qid server (dns_now st + DNS_IO_TIMEOUT)
                                 (dns_now st) (udp_events u)
                in (r, st\<lparr>dns_now := now\<rparr>))))"

definition tcp_exchange :: "dns_codec \<Rightarrow> u16 \<Rightarrow> bytes \<Rightarrow> sock_addr \<Rightarrow> stream \<Rightarrow> dns_message ec_result \<times> stream" where
  "tcp_exchange c qid request server s =
     (if 65535 < length request then (Inl (Runtime ''dns tcp request is too large''), s)
      else
        try_io (io_err ''dns tcp write failed: '') (write_all (u16_to_be (word_of_nat (length request))) s) (\<lambda>_ s.
        try_io (io_err ''dns tcp write failed: '') (write_all request s) (\<lambda>_ s.
        try_io (io_err ''dns tcp length read failed: '') (read_exact 2 s) (\<lambda>len_buf s.
          let resp_len = unat (u16_be (len_buf ! 0) (len_buf ! 1)) in
          if resp_len = 0 \<or> DNS_TCP_MAX_PAYLOAD < resp_len then
            (Inl (Runtime (''dns tcp response length is invalid: '' @ dec_of_nat resp_len)), s)
          else
            try_io (io_err ''dns tcp payload read failed: '') (read_exact resp_len s) (\<lambda>payload s.
              (decode_dns_response c payload qid server, s))))))"

definition query_tcp :: "dns_env \<Rightarrow> u16 \<Rightarrow> bytes \<Rightarrow> sock_addr \<Rightarrow> dns_state \<Rightarrow> dns_message ec_result \<times> dns_state" where
  "query_tcp env qid request server st =
     (let t = tcp_net env (net_step st);
          st = st\<lparr>net_step := net_step st + 1, dns_now := dns_now st + tcp_connect_delay t\<rparr> in
      case tcp_connect_error t of
        Some e \<Rightarrow> (Inl (Runtime (''dns tcp connect failed: '' @ e)), st)
      | None \<Rightarrow>
          (case tcp_read_opt_error t of
             Some e \<Rightarrow> (Inl (Runtime (''dns tcp set read timeout failed: '' @ e)), st)
           | None \<Rightarrow>
               (case tcp_write_opt_error t of
                  Some e \<Rightarrow> (Inl (Runtime (''dns tcp set write timeout failed: '' @ e)), st)
                | None \<Rightarrow>
                    (let (r, s) = tcp_exchange (dns_codec env) qid request server
                                    ((tcp_stream t)\<lparr>clock := dns_now st\<rparr>)
                     in (r, st\<lparr>dns_now := clock s\<rparr>)))))"

definition query_server_message :: "dns_env \<Rightarrow> string \<Rightarrow> sock_addr \<Rightarrow> dns_state \<Rightarrow> dns_message ec_result \<times> dns_state" where
  "query_server_message env host server st =
     try_io id (build_a_query (dns_codec env) host st) (\<lambda>(qid, request) st.
       try_io id (query_udp env qid request server st) (\<lambda>r st.
         case r of
           Complete message \<Rightarrow> (Inr message, st)
         | Truncated \<Rightarrow> query_tcp env qid request server st))"

definition query_server :: "dns_env \<Rightarrow> string \<Rightarrow> sock_addr \<Rightarrow> dns_state \<Rightarrow> ipv4 ec_result \<times> dns_state" where
  "query_server env host server st =
     try_io id (query_server_message env host server st) (\<lambda>message st.
       (extract_first_ipv4 message server, st))"

section \<open>Resolving\<close>

text \<open>
  The loop over the servers, shared by the two resolvers: the first server that answers ends it;
  a failure is remembered as the last error.
\<close>

fun query_each :: "(sock_addr \<Rightarrow> dns_state \<Rightarrow> 'a ec_result \<times> dns_state) \<Rightarrow> sock_addr list \<Rightarrow> string option
    \<Rightarrow> dns_state \<Rightarrow> (string option + 'a \<times> sock_addr) \<times> dns_state" where
  "query_each q [] last_error st = (Inl last_error, st)"
| "query_each q (server # rest) last_error st =
     (case q server st of
        (Inr a, st') \<Rightarrow> (Inr (a, server), st')
      | (Inl err, st') \<Rightarrow>
          query_each q rest (Some (show_sock_addr server @ '': '' @ concise_error err)) st')"

definition lookup_failure :: "string \<Rightarrow> sock_addr list \<Rightarrow> string option \<Rightarrow> ec_error" where
  "lookup_failure host dns_servers last_error =
     (if dns_servers = [] then Runtime ''dnsserver lookup has no valid server address''
      else Runtime (''dnsserver lookup failed for '' @ host @ ''; ''
                    @ (case last_error of Some e \<Rightarrow> e | None \<Rightarrow> ''no response'')))"

definition resolve_first_ipv4 :: "dns_env \<Rightarrow> int \<Rightarrow> string \<Rightarrow> sock_addr list \<Rightarrow> dns_state \<Rightarrow> resolve_result ec_result \<times> dns_state" where
  "resolve_first_ipv4 env rc_id host dns_servers st =
     (case cache_get (rc_id, host) st of
        (Some ip, st) \<Rightarrow> (Inr \<lparr>rr_ip = ip, rr_source = Cache\<rparr>, st)
      | (None, st) \<Rightarrow>
          (case query_each (query_server env host) dns_servers None st of
             (Inr (ip, server), st) \<Rightarrow>
               (Inr \<lparr>rr_ip = ip, rr_source = Server server\<rparr>, cache_put (rc_id, host) ip st)
           | (Inl last_error, st) \<Rightarrow> (Inl (lookup_failure host dns_servers last_error), st)))"

definition resolve_lookup :: "dns_env \<Rightarrow> string \<Rightarrow> sock_addr list \<Rightarrow> dns_state \<Rightarrow> lookup_result ec_result \<times> dns_state" where
  "resolve_lookup env host dns_servers st =
     (case lookup_cache_get (normalize_dns_name host) st of
        (Some (aliases, ips), st) \<Rightarrow>
          (Inr \<lparr>lr_aliases = aliases, lr_ips = ips, lr_source = Cache\<rparr>, st)
      | (None, st) \<Rightarrow>
          (case query_each (query_server_message env host) dns_servers None st of
             (Inr (message, server), st) \<Rightarrow>
               (let aliases = extract_cname_aliases message; ips = extract_ipv4s message in
                (Inr \<lparr>lr_aliases = aliases, lr_ips = ips, lr_source = Server server\<rparr>,
                 lookup_cache_put (normalize_dns_name host) (aliases, ips) st))
           | (Inl last_error, st) \<Rightarrow> (Inl (lookup_failure host dns_servers last_error), st)))"

section \<open>What a cache with expiry promises\<close>

text \<open>
  The contract of both caches, over a clock that only \<open>wait\<close> advances: a stored value is found
  until its time to live has passed and not after, reading removes nothing that could still be
  found, other keys are not affected, and clearing forgets everything.
\<close>

datatype ('k, 'v) cache_op = Op_Get 'k | Op_Put 'k 'v | Op_Wait nat | Op_Clear

locale ttl_cache =
  fixes get :: "'k \<Rightarrow> 's \<Rightarrow> 'v option \<times> 's"
    and put :: "'k \<Rightarrow> 'v \<Rightarrow> 's \<Rightarrow> 's"
    and clear :: "'s \<Rightarrow> 's"
    and wait :: "nat \<Rightarrow> 's \<Rightarrow> 's"
    and ttl :: nat
  assumes get_put: "fst (get k (wait d (put k v s))) = (if d < ttl then Some v else None)"
    and get_put_other: "k \<noteq> k' \<Longrightarrow> fst (get k' (wait d (put k v s))) = fst (get k' (wait d s))"
    and get_after_get: "fst (get k' (wait d (snd (get k s)))) = fst (get k' (wait d s))"
    and get_clear: "fst (get k (wait d (clear s))) = None"
    and wait_wait: "wait d (wait e s) = wait (e + d) s"
    and wait_zero: "wait 0 s = s"

text \<open>One operation, and the abstract content: a key's value is what the last store to it wrote,
  unless the cache was cleared or the time to live has passed since.\<close>

fun cache_step :: "('k \<Rightarrow> 's \<Rightarrow> 'v option \<times> 's) \<Rightarrow> ('k \<Rightarrow> 'v \<Rightarrow> 's \<Rightarrow> 's) \<Rightarrow> ('s \<Rightarrow> 's) \<Rightarrow> (nat \<Rightarrow> 's \<Rightarrow> 's)
    \<Rightarrow> ('k, 'v) cache_op \<Rightarrow> 's \<Rightarrow> 's" where
  "cache_step get put clear wait (Op_Get k) s = snd (get k s)"
| "cache_step get put clear wait (Op_Put k v) s = put k v s"
| "cache_step get put clear wait (Op_Wait d) s = wait d s"
| "cache_step get put clear wait Op_Clear s = clear s"

fun cache_spec :: "nat \<Rightarrow> 'k \<Rightarrow> nat \<Rightarrow> ('k, 'v) cache_op list \<Rightarrow> 'v option" where
  "cache_spec ttl k age [] = None"
| "cache_spec ttl k age (Op_Get k' # newest_first) = cache_spec ttl k age newest_first"
| "cache_spec ttl k age (Op_Put k' v # newest_first) =
     (if k' = k then (if age < ttl then Some v else None) else cache_spec ttl k age newest_first)"
| "cache_spec ttl k age (Op_Wait d # newest_first) = cache_spec ttl k (d + age) newest_first"
| "cache_spec ttl k age (Op_Clear # newest_first) = None"

context ttl_cache begin

lemma run_wait:
  "fst (get k (wait d (foldr (cache_step get put clear wait) ops (clear s)))) = cache_spec ttl k d ops"
proof (induction ops arbitrary: d)
  case Nil
  show ?case by (simp add: get_clear)
next
  case (Cons op ops)
  then show ?case
    by (cases op) (auto simp: get_put get_put_other get_after_get get_clear wait_wait)
qed

lemma refines:
  "fst (get k (fold (cache_step get put clear wait) ops (clear s))) = cache_spec ttl k 0 (rev ops)"
  using run_wait [of k 0 "rev ops" s] by (simp add: wait_zero foldr_conv_fold)

lemma fresh_hit: "d < ttl \<Longrightarrow> fst (get k (wait d (put k v s))) = Some v"
  by (simp add: get_put)

lemma stale_miss: "ttl \<le> d \<Longrightarrow> fst (get k (wait d (put k v s))) = None"
  by (simp add: get_put)

end

definition dns_wait :: "nat \<Rightarrow> dns_state \<Rightarrow> dns_state" where
  "dns_wait d st = st\<lparr>dns_now := dns_now st + d\<rparr>"

interpretation ip_cache: ttl_cache cache_get cache_put clear_cache dns_wait DNS_CACHE_TTL
  by unfold_locales
     (auto simp: cache_get_def cache_put_def clear_cache_def dns_wait_def split: option.splits)

interpretation name_cache: ttl_cache lookup_cache_get lookup_cache_put clear_cache dns_wait DNS_CACHE_TTL
  by unfold_locales
     (auto simp: lookup_cache_get_def lookup_cache_put_def clear_cache_def dns_wait_def split: option.splits)

text \<open>
  \<^bold>\<open>C27.\<close> Both caches implement the abstract one: after any sequence of reads, stores, waits and
  clears from a cleared cache, a lookup returns exactly the last value stored under that key and
  not cleared since, if less than 300 seconds have passed since it was stored, and nothing
  otherwise.
\<close>

theorem caches_refine_spec:
  "fst (cache_get k (fold (cache_step cache_get cache_put clear_cache dns_wait) ops (clear_cache st)))
     = cache_spec 300000 k 0 (rev ops) \<and>
   fst (lookup_cache_get name
          (fold (cache_step lookup_cache_get lookup_cache_put clear_cache dns_wait) lops (clear_cache st)))
     = cache_spec 300000 name 0 (rev lops)"
  using ip_cache.refines name_cache.refines by (simp add: DNS_CACHE_TTL_def)

section \<open>Queries keep the caches\<close>

definition same_caches :: "dns_state \<Rightarrow> dns_state \<Rightarrow> bool" where
  "same_caches st st' \<longleftrightarrow> dns_cache st' = dns_cache st \<and> lookup_cache st' = lookup_cache st \<and>
     net_step st \<le> net_step st' \<and> dns_now st \<le> dns_now st'"

lemma same_caches_refl [simp, intro]: "same_caches st st"
  by (simp add: same_caches_def)

lemma same_caches_trans [trans]: "same_caches a b \<Longrightarrow> same_caches b c \<Longrightarrow> same_caches a c"
  by (auto simp: same_caches_def)

lemma recv_loop_time: "now \<le> snd (recv_loop c qid server deadline now evs)"
  by (induction c qid server deadline now evs rule: recv_loop.induct)
     (fastforce split: sum.splits dest: add_leD1)+

lemma try_io_clock:
  "n \<le> clock (snd r) \<Longrightarrow> (\<And>a s. n \<le> clock s \<Longrightarrow> n \<le> clock (snd (k a s))) \<Longrightarrow> n \<le> clock (snd (try_io f r k))"
  by (auto simp: try_io_def split: prod.splits sum.splits)

lemma tcp_exchange_clock: "clock s \<le> clock (snd (tcp_exchange c qid request server s))"
  unfolding tcp_exchange_def
  by (auto simp: Let_def intro!: try_io_clock order_trans [OF _ read_exact_clock])

lemma query_udp_caches: "query_udp env qid request server st = (r, st') \<Longrightarrow> same_caches st st'"
  using recv_loop_time [of "dns_now st" "dns_codec env" qid server "dns_now st + DNS_IO_TIMEOUT"
      "udp_events (udp_net env (net_step st))"]
  by (auto simp: query_udp_def Let_def same_caches_def split: sum.splits option.splits prod.splits)

lemma query_tcp_caches: "query_tcp env qid request server st = (r, st') \<Longrightarrow> same_caches st st'"
  using tcp_exchange_clock [of "(tcp_stream (tcp_net env (net_step st)))
          \<lparr>clock := dns_now st + tcp_connect_delay (tcp_net env (net_step st))\<rparr>"
      "dns_codec env" qid request server]
  by (auto simp: query_tcp_def Let_def same_caches_def split: option.splits prod.splits)

lemma build_a_query_caches: "build_a_query c host st = (r, st') \<Longrightarrow> same_caches st st'"
  by (auto simp: build_a_query_def next_query_id_def Let_def same_caches_def split: option.splits sum.splits)

lemma try_io_caches:
  assumes "try_io f p k = (r, st')"
    and "\<And>a s. p = (a, s) \<Longrightarrow> same_caches st s"
    and "\<And>a s r s'. k a s = (r, s') \<Longrightarrow> same_caches s s'"
  shows "same_caches st st'"
  using assms by (cases p; cases "fst p") (auto intro: same_caches_trans)

lemma query_server_message_caches:
  assumes "query_server_message env host server st = (r, st')"
  shows "same_caches st st'"
  using assms unfolding query_server_message_def
  by (rule try_io_caches)
     (auto dest: build_a_query_caches query_udp_caches query_tcp_caches
           elim!: try_io_caches split: udp_query_result.splits)

lemma query_server_caches:
  assumes "query_server env host server st = (r, st')"
  shows "same_caches st st'"
  using assms unfolding query_server_def
  by (rule try_io_caches) (auto dest: query_server_message_caches)

lemma query_each_caches:
  assumes "\<And>server s r s'. q server s = (r, s') \<Longrightarrow> same_caches s s'"
  shows "query_each q servers last_error st = (r, st') \<Longrightarrow> same_caches st st'"
  using assms
  by (induction q servers last_error st rule: query_each.induct)
     (fastforce split: prod.splits sum.splits intro: same_caches_trans)+

lemma cache_get_steps: "cache_get k st = (r, st') \<Longrightarrow> net_step st' = net_step st \<and> dns_now st' = dns_now st"
  by (auto simp: cache_get_def split: option.splits if_splits)

section \<open>Answers\<close>

fun a_record :: "rdata \<Rightarrow> ipv4 option" where
  "a_record (RData_A ip) = Some ip"
| "a_record _ = None"

fun cname_alias :: "rdata \<Rightarrow> string option" where
  "cname_alias (RData_CNAME c) = (let a = normalize_dns_name c in if a = [] then None else Some a)"
| "cname_alias _ = None"

interpretation ipv4_answers: dedup_loop extract_ipv4s_from a_record "\<lambda>ip. ip" set "\<lambda>ips. ips"
  by unfold_locales (auto simp: push_new_def elim!: a_record.elims split: rdata.splits)

interpretation alias_answers: dedup_loop extract_aliases_from cname_alias "\<lambda>a. a" set "\<lambda>as. as"
  by unfold_locales
     (auto simp: push_new_def Let_def split: rdata.splits if_splits)

lemma extract_ipv4s_firsts:
  "extract_ipv4s m = firsts_by (\<lambda>ip. ip) {} (List.map_filter a_record (msg_answers m))"
  using ipv4_answers.out_loop [of "[]" "msg_answers m"] by (simp add: extract_ipv4s_def)

lemma extract_aliases_firsts:
  "extract_cname_aliases m = firsts_by (\<lambda>a. a) {} (List.map_filter cname_alias (msg_answers m))"
  using alias_answers.out_loop [of "[]" "msg_answers m"] by (simp add: extract_cname_aliases_def)

lemma set_map_filter_iff: "y \<in> set (List.map_filter f xs) \<longleftrightarrow> (\<exists>x \<in> set xs. f x = Some y)"
  by (induction xs) (auto simp: List.map_filter_simps split: option.splits)

lemma a_record_iff: "a_record r = Some ip \<longleftrightarrow> r = RData_A ip"
  by (cases r) auto

lemma extract_ipv4s_set: "ip \<in> set (extract_ipv4s m) \<longleftrightarrow> RData_A ip \<in> set (msg_answers m)"
  by (auto simp: extract_ipv4s_firsts set_map_filter_iff a_record_iff)

text \<open>
  What is read out of an answer: \<^verbatim>\<open>extract_ipv4s\<close> and \<^verbatim>\<open>extract_cname_aliases\<close> list the
  addresses of the A records and the non-empty normalised names of the CNAME records, each once, in
  the order of their first occurrence; the address a query returns is that of the first A record.
\<close>

theorem answers_in_order:
  "subseq (extract_ipv4s m) (List.map_filter a_record (msg_answers m)) \<and> distinct (extract_ipv4s m) \<and>
   set (extract_ipv4s m) = {ip. RData_A ip \<in> set (msg_answers m)} \<and>
   subseq (extract_cname_aliases m) (List.map_filter cname_alias (msg_answers m)) \<and>
   distinct (extract_cname_aliases m) \<and>
   set (extract_cname_aliases m) = normalize_dns_name ` {c. RData_CNAME c \<in> set (msg_answers m)} - {[]} \<and>
   extract_first_ipv4 m server =
     (case List.map_filter a_record (msg_answers m) of
        ip # _ \<Rightarrow> Inr ip
      | [] \<Rightarrow> Inl (Runtime (''dns no A answer from '' @ show_sock_addr server)))"
proof -
  have al: "cname_alias r = Some a \<longleftrightarrow> a \<noteq> [] \<and> (\<exists>c. r = RData_CNAME c \<and> a = normalize_dns_name c)" for r a
    by (cases r) (auto simp: Let_def)
  have "set (extract_cname_aliases m) = normalize_dns_name ` {c. RData_CNAME c \<in> set (msg_answers m)} - {[]}"
    by (simp add: extract_aliases_firsts set_eq_iff set_map_filter_iff al image_iff) blast
  moreover have "set (extract_ipv4s m) = {ip. RData_A ip \<in> set (msg_answers m)}"
    by (auto simp: extract_ipv4s_set)
  moreover have "extract_first_ipv4 m server =
     (case List.map_filter a_record (msg_answers m) of
        ip # _ \<Rightarrow> Inr ip
      | [] \<Rightarrow> Inl (Runtime (''dns no A answer from '' @ show_sock_addr server)))"
    by (cases "List.map_filter a_record (msg_answers m)")
       (auto simp: extract_first_ipv4_def extract_ipv4s_firsts)
  ultimately show ?thesis
    by (simp add: extract_ipv4s_firsts extract_aliases_firsts subseq_firsts_by)
qed

section \<open>Only the server that was asked is believed\<close>

definition good_response :: "dns_codec \<Rightarrow> u16 \<Rightarrow> bytes \<Rightarrow> dns_message \<Rightarrow> bool" where
  "good_response c qid payload m \<longleftrightarrow>
     decode_message c payload = Inr m \<and> msg_id m = qid \<and> msg_is_response m \<and> msg_code m = NoError"

lemma decode_dns_response_Inr:
  "decode_dns_response c payload qid server = Inr m \<longleftrightarrow> good_response c qid payload m"
  by (cases "decode_message c payload")
     (auto simp: decode_dns_response_def good_response_def split: response_code.splits)

text \<open>The datagrams before the answer come from other peers and within the deadline.\<close>

definition elapsed :: "(nat \<times> 'e) list \<Rightarrow> nat" where
  "elapsed evs = sum_list (map fst evs)"

definition foreign :: "sock_addr \<Rightarrow> nat \<times> (string + sock_addr \<times> bytes) \<Rightarrow> bool" where
  "foreign server ev \<longleftrightarrow> (\<exists>peer datagram. snd ev = Inr (peer, datagram) \<and> peer \<noteq> server)"

lemma recv_loop_answer:
  "recv_loop c qid server deadline now evs = (Inr r, now') \<Longrightarrow>
   \<exists>pre d datagram post m. evs = pre @ (d, Inr (server, datagram)) # post \<and>
     list_all (foreign server) pre \<and> now + elapsed pre < deadline \<and> now' = now + elapsed pre + d \<and>
     good_response c qid (take DNS_UDP_BUFFER_SIZE datagram) m \<and>
     r = (if msg_truncated m then Truncated else Complete m)"
proof (induction c qid server deadline now evs rule: recv_loop.induct)
  case (2 c qid server deadline now ev rest)
  obtain d x where ev: "ev = (d, x)" by (cases ev)
  from "2.prems" ev have now: "now < deadline" by (auto split: if_splits)
  from "2.prems" now ev obtain peer datagram where x: "x = Inr (peer, datagram)"
    by (cases x) auto
  show ?case
  proof (cases "peer = server")
    case True
    with "2.prems" now ev x obtain m where m: "good_response c qid (take DNS_UDP_BUFFER_SIZE datagram) m"
      "r = (if msg_truncated m then Truncated else Complete m)" "now' = now + d"
      by (auto simp: try_map_Inr_iff decode_dns_response_Inr split: if_splits)
    with ev x True now show ?thesis
      by (intro exI [of _ "[]"] exI [of _ d] exI [of _ datagram] exI [of _ rest] exI [of _ m])
         (simp add: elapsed_def)
  next
    case False
    with "2.prems" now ev x have "recv_loop c qid server deadline (now + d) rest = (Inr r, now')" by simp
    with "2.IH" now ev x False obtain pre d' dg post m where
      "rest = pre @ (d', Inr (server, dg)) # post" "list_all (foreign server) pre"
      "now + d + elapsed pre < deadline" "now' = now + d + elapsed pre + d'"
      "good_response c qid (take DNS_UDP_BUFFER_SIZE dg) m"
      "r = (if msg_truncated m then Truncated else Complete m)"
      by fastforce
    with ev x False have "ev # rest = (ev # pre) @ (d', Inr (server, dg)) # post"
      "list_all (foreign server) (ev # pre)" "now + elapsed (ev # pre) < deadline"
      "now' = now + elapsed (ev # pre) + d'" "good_response c qid (take DNS_UDP_BUFFER_SIZE dg) m"
      "r = (if msg_truncated m then Truncated else Complete m)"
      by (simp_all add: elapsed_def foreign_def)
    then show ?thesis by blast
  qed
qed (auto split: if_splits)

lemma query_udp_Inr:
  "query_udp env qid request server st = (Inr r, st') \<Longrightarrow>
   \<exists>now. recv_loop (dns_codec env) qid server (dns_now st + DNS_IO_TIMEOUT) (dns_now st)
      (udp_events (udp_net env (net_step st))) = (Inr r, now) \<and>
      st' = st\<lparr>net_step := net_step st + 1, dns_now := now\<rparr>"
  by (auto simp: query_udp_def Let_def split: sum.splits option.splits prod.splits)


lemma recv_loop_bound:
  assumes "list_all (\<lambda>ev. fst ev \<le> DNS_IO_TIMEOUT) evs" and "now < deadline"
  shows "snd (recv_loop c qid server deadline now evs) < deadline + DNS_IO_TIMEOUT"
  using assms
proof (induction c qid server deadline now evs rule: recv_loop.induct)
  case (2 c qid server deadline now ev rest)
  show ?case
  proof (cases "\<exists>peer dg. snd ev = Inr (peer, dg) \<and> peer \<noteq> server")
    case False
    with "2.prems" show ?thesis by (auto split: sum.splits)
  next
    case True
    then obtain peer dg where ev: "snd ev = Inr (peer, dg)" "peer \<noteq> server" by blast
    show ?thesis
    proof (cases "now + fst ev < deadline")
      case True
      with "2.IH" [OF "2.prems"(2) ev(1) refl ev(2) _ True] "2.prems" ev show ?thesis by simp
    next
      case late: False
      then have "recv_loop c qid server deadline (now + fst ev) rest =
        (Inl (Runtime (''dns udp recv failed: no valid response from '' @ show_sock_addr server)), now + fst ev)"
        by (cases rest) simp_all
      with "2.prems" ev show ?thesis by simp
    qed
  qed
qed simp

text \<open>
  A UDP query ends: with a socket whose reads time out after 1200 ms, and whatever arrives
  from whomever, it returns less than 2400 ms after it started.
\<close>

theorem query_udp_bounded:
  assumes "list_all (\<lambda>ev. fst ev \<le> 1200) (udp_events (udp_net env (net_step st)))"
  shows "dns_now (snd (query_udp env qid request server st)) < dns_now st + 2400"
  using recv_loop_bound [of "udp_events (udp_net env (net_step st))" "dns_now st" "dns_now st + DNS_IO_TIMEOUT"
      "dns_codec env" qid server] assms
  by (auto simp: query_udp_def Let_def DNS_IO_TIMEOUT_def split: sum.splits option.splits prod.splits)

section \<open>Resolving\<close>

lemma tcp_exchange_Inr:
  "tcp_exchange c qid request server s = (Inr m, s') \<Longrightarrow> \<exists>payload. good_response c qid payload m"
  by (auto simp: tcp_exchange_def Let_def try_io_Inr_iff decode_dns_response_Inr split: if_splits)

lemma query_tcp_Inr:
  "query_tcp env qid request server st = (Inr m, st') \<Longrightarrow> \<exists>payload. good_response (dns_codec env) qid payload m"
  by (auto simp: query_tcp_def Let_def split: option.splits prod.splits dest: tcp_exchange_Inr)

lemma build_a_query_Inr:
  "build_a_query c host st = (Inr (qid, request), st') \<Longrightarrow>
     qid = query_id st \<and> query_id st' = query_id st + 1 \<and> net_step st' = net_step st"
  by (auto simp: build_a_query_def next_query_id_def Let_def split: option.splits sum.splits if_splits)

lemma query_server_message_Inr:
  assumes "query_server_message env host server st = (Inr m, st')"
  shows "\<exists>payload. good_response (dns_codec env) (query_id st) payload m"
proof -
  from assms obtain qid request st1 r st2 where
    q: "build_a_query (dns_codec env) host st = (Inr (qid, request), st1)"
    and u: "query_udp env qid request server st1 = (Inr r, st2)"
    and r: "(case r of Complete message \<Rightarrow> (Inr message, st2)
            | Truncated \<Rightarrow> query_tcp env qid request server st2) = (Inr m, st')"
    by (auto simp: query_server_message_def try_io_Inr_iff)
  from query_udp_Inr [OF u] obtain now where
    "recv_loop (dns_codec env) qid server (dns_now st1 + DNS_IO_TIMEOUT) (dns_now st1)
      (udp_events (udp_net env (net_step st1))) = (Inr r, now)" by blast
  from recv_loop_answer [OF this] have "\<And>x. r = Complete x \<Longrightarrow> \<exists>payload. good_response (dns_codec env) qid payload x"
    by (auto split: if_splits)
  with r build_a_query_Inr [OF q] query_tcp_Inr show ?thesis
    by (cases r) auto
qed

lemma query_each_first:
  "query_each q servers last_error st = (Inr (a, server), st') \<Longrightarrow>
   \<exists>pre post st0. servers = pre @ server # post \<and> q server st0 = (Inr a, st')"
proof (induction q servers last_error st rule: query_each.induct)
  case (2 q s rest last_error st)
  show ?case
  proof (cases "q s st")
    case (Pair r st1)
    show ?thesis
    proof (cases r)
      case (Inl err)
      from "2.IH" [OF Pair [symmetric] Inl] "2.prems" Pair Inl show ?thesis
        by simp (metis append_Cons)
    next
      case (Inr b)
      with "2.prems" Pair have "b = a" "s = server" "st1 = st'" by simp_all
      with Pair Inr show ?thesis by (metis append_Nil)
    qed
  qed
qed simp

lemma resolve_first_ipv4_put:
  assumes "resolve_first_ipv4 env rc_id host servers st = (Inr r, st')" and "rr_source r = Server server"
  shows "\<exists>st0 st1. query_each (query_server env host) servers None st0 = (Inr (rr_ip r, server), st1) \<and>
    st' = cache_put (rc_id, host) (rr_ip r) st1"
  using assms
  by (auto simp: resolve_first_ipv4_def split: prod.splits option.splits sum.splits) blast

lemma dns_wait_now [simp]: "dns_now (dns_wait d st) = dns_now st + d"
  by (simp add: dns_wait_def)

text \<open>
  An address obtained from a server is reused: for 300 seconds after it was stored, resolving
  the same name for the same rule returns that address from the cache, opens no socket and changes
  no state; from then on the cache is not consulted for it any more.
\<close>

theorem resolve_first_ipv4_cached:
  assumes "resolve_first_ipv4 env rc_id host servers st = (Inr r, st')" and "rr_source r = Server server"
  shows "if d < 300000
    then resolve_first_ipv4 env' rc_id host servers' (dns_wait d st') =
           (Inr \<lparr>rr_ip = rr_ip r, rr_source = Cache\<rparr>, dns_wait d st')
    else (case resolve_first_ipv4 env' rc_id host servers' (dns_wait d st') of
            (Inr r', st'') \<Rightarrow> rr_source r' \<in> Server ` set servers'
          | (Inl e, st'') \<Rightarrow> True)"
proof -
  from resolve_first_ipv4_put [OF assms] obtain st1 where st': "st' = cache_put (rc_id, host) (rr_ip r) st1"
    by blast
  show ?thesis
  proof (cases "d < 300000")
    case True
    have "cache_get (rc_id, host) (dns_wait d st') = (Some (rr_ip r), dns_wait d st')"
      using True by (simp add: st' cache_get_def cache_put_def dns_wait_def DNS_CACHE_TTL_def)
    with True show ?thesis by (simp add: resolve_first_ipv4_def)
  next
    case False
    then have "fst (cache_get (rc_id, host) (dns_wait d st')) = None"
      unfolding st' by (intro ip_cache.stale_miss) (simp add: DNS_CACHE_TTL_def)
    with False show ?thesis
      by (auto simp: resolve_first_ipv4_def split: prod.splits sum.splits dest!: query_each_first)
  qed
qed


lemma query_each_failure:
  "(\<And>server s. \<exists>e s'. q server s = (Inl e, s')) \<Longrightarrow>
   \<exists>last st'. query_each q servers last_error st = (Inl last, st') \<and>
     (servers \<noteq> [] \<longrightarrow> (\<exists>e. last = Some (show_sock_addr (List.last servers) @ '': '' @ concise_error e)))"
proof (induction servers arbitrary: last_error st)
  case (Cons s rest)
  from Cons.prems [of s st] obtain e st1 where "q s st = (Inl e, st1)" by blast
  with Cons.IH [OF Cons.prems, of "Some (show_sock_addr s @ '': '' @ concise_error e)" st1]
  show ?case by (cases rest) auto
qed simp

section \<open>Witnesses\<close>

definition toy_server :: sock_addr where
  "toy_server = V4 (Sock_V4 (Ipv4 10 0 0 53) 53)"

definition toy_message :: dns_message where
  "toy_message = \<lparr>msg_id = 7, msg_is_response = True, msg_code = NoError, msg_truncated = False,
     msg_answers = [RData_CNAME ''WAF.example.'', RData_A (Ipv4 10 1 2 3), RData_A (Ipv4 10 1 2 4)]\<rparr>"

definition toy_env :: dns_env where
  "toy_env =
    \<lparr>dns_codec = \<lparr>name_error = (\<lambda>_. None), encode_query = (\<lambda>_ n. Inr (bytes_of_str n)),
                  decode_message = (\<lambda>b. if b = [1] then Inr toy_message else Inl ''bad'')\<rparr>,
     udp_net = (\<lambda>_. \<lparr>udp_bind_error = (\<lambda>_. None), udp_read_opt_error = None, udp_write_opt_error = None,
        udp_send_error = None,
        udp_events = [(100, Inr (V4 (Sock_V4 (Ipv4 6 6 6 6) 53), [1])), (200, Inr (toy_server, [1]))]\<rparr>),
     tcp_net = (\<lambda>_. \<lparr>tcp_connect_delay = 5, tcp_connect_error = Some ''refused'', tcp_read_opt_error = None,
        tcp_write_opt_error = None, tcp_stream = \<lparr>clock = 0, incoming = [], outgoing = [], write_script = []\<rparr>\<rparr>)\<rparr>"

definition toy_state :: dns_state where
  "toy_state = \<lparr>dns_now = 1000, query_id = 7, dns_cache = Map.empty, lookup_cache = Map.empty, net_step = 0\<rparr>"

lemma toy_query: "query_udp toy_env 7 [] toy_server toy_state =
   (Inr (Complete toy_message), toy_state\<lparr>net_step := 1, dns_now := 1300\<rparr>)"
  by (simp add: query_udp_def toy_env_def toy_state_def bind_udp_socket_def toy_server_def
      DNS_IO_TIMEOUT_def decode_dns_response_def DNS_UDP_BUFFER_SIZE_def toy_message_def)

lemma toy_resolve: "resolve_first_ipv4 toy_env 205 ''ids'' [toy_server] toy_state =
   (Inr \<lparr>rr_ip = Ipv4 10 1 2 3, rr_source = Server toy_server\<rparr>,
    cache_put (205, ''ids'') (Ipv4 10 1 2 3) (toy_state\<lparr>query_id := 8, net_step := 1, dns_now := 1300\<rparr>))"
  by (simp add: resolve_first_ipv4_def cache_get_def query_server_def query_server_message_def
      build_a_query_def next_query_id_def query_udp_def toy_env_def toy_state_def bind_udp_socket_def
      toy_server_def DNS_IO_TIMEOUT_def decode_dns_response_def DNS_UDP_BUFFER_SIZE_def toy_message_def
      extract_first_ipv4_def extract_ipv4s_def push_new_def)


theorem query_udp_bounded_witness:
  "dns_now (snd (query_udp toy_env 7 [] toy_server toy_state)) < 1000 + 2400"
  using query_udp_bounded [of toy_env toy_state 7 "[]" toy_server]
  by (simp add: toy_env_def toy_state_def)

theorem resolve_first_ipv4_cached_witness:
  "resolve_first_ipv4 toy_env 205 ''ids'' []
     (dns_wait 299999 (snd (resolve_first_ipv4 toy_env 205 ''ids'' [toy_server] toy_state))) =
   (Inr \<lparr>rr_ip = Ipv4 10 1 2 3, rr_source = Cache\<rparr>,
    dns_wait 299999 (snd (resolve_first_ipv4 toy_env 205 ''ids'' [toy_server] toy_state)))"
  using resolve_first_ipv4_cached [OF toy_resolve, of toy_server 299999 toy_env "[]"]
  by (simp add: toy_resolve)


text \<open>
  A lookup is reused under every spelling of the name (letter case, surrounding blanks,
  trailing dots): for 300 seconds the aliases and addresses a server gave are returned from the
  cache without a query, and they are those of the answer, the addresses its A records.
\<close>

theorem resolve_lookup_cached:
  assumes "resolve_lookup env host servers st = (Inr r, st')" and "lr_source r = Server server"
    and "normalize_dns_name host' = normalize_dns_name host" and "d < 300000"
  shows "resolve_lookup env' host' servers' (dns_wait d st') =
      (Inr \<lparr>lr_aliases = lr_aliases r, lr_ips = lr_ips r, lr_source = Cache\<rparr>, dns_wait d st') \<and>
    server \<in> set servers \<and>
    (\<exists>qid payload m. good_response (dns_codec env) qid payload m \<and>
       lr_aliases r = extract_cname_aliases m \<and> set (lr_ips r) = {ip. RData_A ip \<in> set (msg_answers m)})"
proof -
  from assms(1,2) obtain st0 m st1 where
    q: "query_each (query_server_message env host) servers None st0 = (Inr (m, server), st1)"
    and r: "lr_aliases r = extract_cname_aliases m" "lr_ips r = extract_ipv4s m"
    and st': "st' = lookup_cache_put (normalize_dns_name host) (extract_cname_aliases m, extract_ipv4s m) st1"
    by (auto simp: resolve_lookup_def Let_def split: prod.splits option.splits sum.splits)
  from query_each_first [OF q] obtain st2 where
    server: "server \<in> set servers" and m: "query_server_message env host server st2 = (Inr m, st1)" by auto
  have "lookup_cache_get (normalize_dns_name host') (dns_wait d st') =
      (Some (lr_aliases r, lr_ips r), dns_wait d st')"
    using assms(3,4) r
    by (simp add: st' lookup_cache_get_def lookup_cache_put_def dns_wait_def DNS_CACHE_TTL_def)
  then have "resolve_lookup env' host' servers' (dns_wait d st') =
      (Inr \<lparr>lr_aliases = lr_aliases r, lr_ips = lr_ips r, lr_source = Cache\<rparr>, dns_wait d st')"
    by (simp add: resolve_lookup_def)
  moreover have "set (lr_ips r) = {ip. RData_A ip \<in> set (msg_answers m)}"
    by (auto simp: r extract_ipv4s_set)
  ultimately show ?thesis
    using server r(1) query_server_message_Inr [OF m] by blast
qed

lemma toy_lookup: "resolve_lookup toy_env ''ids.example'' [toy_server] toy_state =
   (Inr \<lparr>lr_aliases = [''waf.example''], lr_ips = [Ipv4 10 1 2 3, Ipv4 10 1 2 4], lr_source = Server toy_server\<rparr>,
    lookup_cache_put (normalize_dns_name ''ids.example'')
      ([''waf.example''], [Ipv4 10 1 2 3, Ipv4 10 1 2 4])
      (toy_state\<lparr>query_id := 8, net_step := 1, dns_now := 1300\<rparr>))"
proof -
  have a: "normalize_dns_name ''WAF.example.'' = ''waf.example''"
    by code_simp
  show ?thesis
    by (simp add: resolve_lookup_def lookup_cache_get_def query_server_message_def
        build_a_query_def next_query_id_def query_udp_def toy_env_def toy_state_def bind_udp_socket_def
        toy_server_def DNS_IO_TIMEOUT_def decode_dns_response_def DNS_UDP_BUFFER_SIZE_def toy_message_def
        extract_ipv4s_def extract_cname_aliases_def push_new_def a Let_def)
qed

theorem resolve_lookup_cached_witness:
  "resolve_lookup toy_env ''IDS.example.'' []
     (dns_wait 100 (snd (resolve_lookup toy_env ''ids.example'' [toy_server] toy_state))) =
   (Inr \<lparr>lr_aliases = [''waf.example''], lr_ips = [Ipv4 10 1 2 3, Ipv4 10 1 2 4], lr_source = Cache\<rparr>,
    dns_wait 100 (snd (resolve_lookup toy_env ''ids.example'' [toy_server] toy_state)))"
proof -
  have "normalize_dns_name ''IDS.example.'' = normalize_dns_name ''ids.example''"
    by code_simp
  from resolve_lookup_cached [OF toy_lookup _ this, of toy_server 100 toy_env "[]"]
  show ?thesis by (simp add: toy_lookup)
qed

end
