(* ===== verification/Routing.thy ===== *)
theory Routing
  imports RuleIndex DnsResolver
begin

text \<open>
  \<^verbatim>\<open>ec-core/src/routing.rs\<close>, the planner: from a target host, port and protocol to a route plan,
  through the rules, the DNS records of the table, the extra addresses, the DNS servers and the
  system resolver, in the order of the code. The DNS resolver's state is threaded through; the
  network, the DNS library and the system resolver are the parameter \<open>route_env\<close>. The process-wide
  \<^verbatim>\<open>ROUTER\<close> is a value of type \<open>route_mode option\<close>: \<open>None\<close> until the first installation, like the
  \<^verbatim>\<open>OnceLock\<close>; its mutex is held for a whole plan, so plans are atomic steps.
\<close>

datatype route_source =
    RouteTableUnavailable
  | RuleIp
  | DnsMap
  | DnsDataIpRule
  | DnsServerCache
  | DnsServerQuery sock_addr
  | CnameDnsMap
  | CnameDnsServerCache
  | CnameDnsServerQuery sock_addr
  | ExtraIp
  | DnsServerIpRuleCache
  | DnsServerIpRuleQuery sock_addr

fun source_label :: "route_source \<Rightarrow> string" where
  "source_label RouteTableUnavailable = ''route-table-unavailable''"
| "source_label RuleIp = ''rule-ip''"
| "source_label DnsMap = ''dns-map''"
| "source_label DnsDataIpRule = ''dns-data-ip-rule''"
| "source_label DnsServerCache = ''dns-cache''"
| "source_label (DnsServerQuery _) = ''dns-server''"
| "source_label CnameDnsMap = ''cname-dns-map''"
| "source_label CnameDnsServerCache = ''cname-dns-cache''"
| "source_label (CnameDnsServerQuery _) = ''cname-dns-server''"
| "source_label ExtraIp = ''extra-ip''"
| "source_label DnsServerIpRuleCache = ''dns-server-ip-rule-cache''"
| "source_label (DnsServerIpRuleQuery _) = ''dns-server-ip-rule''"

definition source_describe :: "route_source \<Rightarrow> string" where
  "source_describe s =
     (case s of
        DnsServerQuery server \<Rightarrow> ''dns-server('' @ show_sock_addr server @ '')''
      | CnameDnsServerQuery server \<Rightarrow> ''cname-dns-server('' @ show_sock_addr server @ '')''
      | DnsServerIpRuleQuery server \<Rightarrow> ''dns-server-ip-rule('' @ show_sock_addr server @ '')''
      | _ \<Rightarrow> source_label s)"

datatype route_plan =
    Remote (plan_dial: string) (plan_rc_id: int) (plan_rc_name: string) (plan_source: route_source)
  | Fallback (plan_target: string) (plan_reason: string)

record route_matcher =
  rm_rules :: "compiled_rule list"
  rm_rule_index :: rule_index
  rm_dns_map :: "int \<rightharpoonup> (string \<rightharpoonup> ipv4 list)"
  rm_dns_exact :: "string \<rightharpoonup> ipv4 list"
  rm_dns_servers :: "sock_addr list"
  rm_dns_records :: nat
  rm_extra_matchers :: "host_matcher list"

datatype route_mode = Unavailable | Matcher route_matcher | TunnelFallback

record route_env =
  re_dns :: dns_env
  re_resolver :: resolver

definition dial_ip :: "ipv4 \<Rightarrow> u16 \<Rightarrow> string" where
  "dial_ip ip port = show_ipv4 ip @ '':'' @ dec_u16 port"

definition dial_host :: "string \<Rightarrow> u16 \<Rightarrow> string" where
  "dial_host host port = host @ '':'' @ dec_u16 port"

section \<open>DNS data of the table\<close>

record dns_indexes =
  di_scoped :: "int \<rightharpoonup> (string \<rightharpoonup> ipv4 list)"
  di_exact :: "string \<rightharpoonup> ipv4 list"
  di_record_count :: nat

record dns_build =
  db_scoped :: "int \<rightharpoonup> (string \<rightharpoonup> ipv4 list)"
  db_exact :: "string \<rightharpoonup> ipv4 list"
  db_seen_dns :: "(int \<times> string \<times> ipv4) set"
  db_seen_exact :: "(string \<times> ipv4) set"

definition push_scoped :: "(int \<rightharpoonup> (string \<rightharpoonup> ipv4 list)) \<Rightarrow> int \<Rightarrow> string \<Rightarrow> ipv4 \<Rightarrow> int \<rightharpoonup> (string \<rightharpoonup> ipv4 list)" where
  "push_scoped m rc_id host ip =
     m(rc_id \<mapsto> push_entry (case m rc_id of Some domains \<Rightarrow> domains | None \<Rightarrow> Map.empty) host ip)"

fun build_dns_loop :: "dns_build \<Rightarrow> dns_record list \<Rightarrow> dns_build" where
  "build_dns_loop st [] = st"
| "build_dns_loop st (r # rest) =
     (let host = normalize_domain (rec_host r) in
      if host = [] then build_dns_loop st rest
      else
        (case parse_ipv4 (trim (rec_ip r)) of
           None \<Rightarrow> build_dns_loop st rest
         | Some ip \<Rightarrow>
             if (rec_rc_id r, host, ip) \<in> db_seen_dns st then build_dns_loop st rest
             else
               (let st = st\<lparr>db_seen_dns := insert (rec_rc_id r, host, ip) (db_seen_dns st),
                            db_scoped := push_scoped (db_scoped st) (rec_rc_id r) host ip\<rparr> in
                if (host, ip) \<in> db_seen_exact st then build_dns_loop st rest
                else build_dns_loop
                       (st\<lparr>db_seen_exact := insert (host, ip) (db_seen_exact st),
                           db_exact := push_entry (db_exact st) host ip\<rparr>) rest)))"

definition build_dns_indexes :: "dns_record list \<Rightarrow> dns_indexes" where
  "build_dns_indexes raw_dns_records =
     (let st = build_dns_loop \<lparr>db_scoped = Map.empty, db_exact = Map.empty, db_seen_dns = {}, db_seen_exact = {}\<rparr>
                 raw_dns_records
      in \<lparr>di_scoped = db_scoped st, di_exact = db_exact st, di_record_count = card (db_seen_dns st)\<rparr>)"

definition DNS_DEFAULT_PORT :: u16 where "DNS_DEFAULT_PORT = 53"

definition parse_dns_server :: "string \<Rightarrow> sock_addr option" where
  "parse_dns_server raw =
     (let token = trim raw in
      if token = [] then None
      else
        (case parse_sock_addr token of
           Some addr \<Rightarrow> Some addr
         | None \<Rightarrow>
             (case parse_ip_addr token of
                Some (IP4 ip) \<Rightarrow> Some (V4 (Sock_V4 ip DNS_DEFAULT_PORT))
              | Some (IP6 ip) \<Rightarrow> Some (V6 ip DNS_DEFAULT_PORT 0)
              | None \<Rightarrow> None)))"

fun dns_servers_loop :: "sock_addr set \<times> sock_addr list \<Rightarrow> string list \<Rightarrow> sock_addr set \<times> sock_addr list" where
  "dns_servers_loop st [] = st"
| "dns_servers_loop st (raw # rest) =
     (case parse_dns_server raw of
        None \<Rightarrow> dns_servers_loop st rest
      | Some addr \<Rightarrow>
          if addr \<in> fst st then dns_servers_loop st rest
          else dns_servers_loop (insert addr (fst st), snd st @ [addr]) rest)"

definition normalize_dns_servers :: "string list \<Rightarrow> sock_addr list" where
  "normalize_dns_servers servers = snd (dns_servers_loop ({}, []) servers)"

section \<open>Extra addresses\<close>

definition cidr_range :: "ipv4 \<Rightarrow> u8 \<Rightarrow> host_matcher" where
  "cidr_range ip prefix_len =
     (let mask = (if prefix_len = 0 then 0 else push_bit (32 - unat prefix_len) (NOT 0 :: u32));
          ip_u32 = u32_of_ipv4 ip
      in Ipv4_Range (ip_u32 AND mask) (ip_u32 OR NOT mask))"

definition parse_extra_ip :: "string \<Rightarrow> host_matcher option" where
  "parse_extra_ip raw =
     (let input = trim raw in
      if input = [] then None
      else
        (case split_once ''/'' input of
           Some (cidr_ip, bits) \<Rightarrow>
             (case parse_ipv4 (trim cidr_ip) of
                None \<Rightarrow> None
              | Some ip \<Rightarrow>
                  (case parse_u8 (trim bits) of
                     None \<Rightarrow> None
                   | Some prefix_len \<Rightarrow>
                       if 32 < prefix_len then None else Some (cidr_range ip prefix_len)))
         | None \<Rightarrow>
             (case split_once ''~'' input of
                Some (start, e) \<Rightarrow> range_matcher start e
              | None \<Rightarrow> map_option Ipv4_Match (parse_ipv4 input))))"

definition from_table :: "route_table \<Rightarrow> string list \<Rightarrow> route_matcher ec_result" where
  "from_table table extra_ips =
     (let rules = compile_rules (rt_rules table);
          dns_indexes = build_dns_indexes (rt_dns_records table)
      in Inr \<lparr>rm_rules = rules, rm_rule_index = build_index rules,
              rm_dns_map = di_scoped dns_indexes, rm_dns_exact = di_exact dns_indexes,
              rm_dns_servers = normalize_dns_servers (rt_dns_servers table),
              rm_dns_records = di_record_count dns_indexes,
              rm_extra_matchers = List.map_filter parse_extra_ip extra_ips\<rparr>)"

section \<open>Planning\<close>

definition extra_hit :: "host_matcher \<Rightarrow> ipv4 \<Rightarrow> bool" where
  "extra_hit matcher ip \<longleftrightarrow>
     (case matcher of
        Ipv4_Match matched_ip \<Rightarrow> matched_ip = ip
      | Ipv4_Range start e \<Rightarrow> start \<le> u32_of_ipv4 ip \<and> u32_of_ipv4 ip \<le> e
      | Domain _ \<Rightarrow> False)"

definition extra_plan :: "string \<Rightarrow> u16 \<Rightarrow> route_plan" where
  "extra_plan host port = Remote (dial_host host port) 0 ''--extra'' ExtraIp"

definition plan_extra_ip :: "route_matcher \<Rightarrow> string \<Rightarrow> u16 \<Rightarrow> target_kind \<Rightarrow> route_plan option" where
  "plan_extra_ip m host port target =
     (case target of
        Target_Domain _ \<Rightarrow> None
      | Target_Ipv4 ip \<Rightarrow>
          map_option (\<lambda>_. extra_plan host port) (find (\<lambda>matcher. extra_hit matcher ip) (rm_extra_matchers m)))"

fun plan_from_resolved_ips :: "route_matcher \<Rightarrow> u16 \<Rightarrow> ipv4 list \<Rightarrow> flow_proto \<Rightarrow> route_source \<Rightarrow> route_plan option" where
  "plan_from_resolved_ips m port [] flow source = None"
| "plan_from_resolved_ips m port (ip # ips) flow source =
     (case find_first_match (rm_rule_index m) (rm_rules m) (Target_Ipv4 ip) port flow of
        Some rule \<Rightarrow> Some (Remote (dial_ip ip port) (cr_rc_id rule) (cr_rc_name rule) source)
      | None \<Rightarrow> plan_from_resolved_ips m port ips flow source)"

definition plan_dns_data_ip_rule :: "route_matcher \<Rightarrow> u16 \<Rightarrow> string \<Rightarrow> flow_proto \<Rightarrow> route_plan option" where
  "plan_dns_data_ip_rule m port domain flow =
     (case rm_dns_exact m domain of
        None \<Rightarrow> None
      | Some ips \<Rightarrow> plan_from_resolved_ips m port ips flow DnsDataIpRule)"

definition dns_map_ip :: "route_matcher \<Rightarrow> int \<Rightarrow> string \<Rightarrow> ipv4 option" where
  "dns_map_ip m rc_id domain =
     (case rm_dns_map m rc_id of
        None \<Rightarrow> None
      | Some domains \<Rightarrow>
          (case domains domain of
             None \<Rightarrow> None
           | Some ipv4s \<Rightarrow> (case ipv4s of [] \<Rightarrow> None | ip # _ \<Rightarrow> Some ip)))"

definition plan_remote_with_rule :: "route_env \<Rightarrow> route_matcher \<Rightarrow> compiled_rule \<Rightarrow> string \<Rightarrow> u16 \<Rightarrow> target_kind
    \<Rightarrow> dns_state \<Rightarrow> route_plan \<times> dns_state" where
  "plan_remote_with_rule env m rule host port target st =
     (case target of
        Target_Ipv4 ip \<Rightarrow> (Remote (dial_ip ip port) (cr_rc_id rule) (cr_rc_name rule) RuleIp, st)
      | Target_Domain domain \<Rightarrow>
          (case dns_map_ip m (cr_rc_id rule) domain of
             Some ip \<Rightarrow> (Remote (dial_ip ip port) (cr_rc_id rule) (cr_rc_name rule) DnsMap, st)
           | None \<Rightarrow>
               if rm_dns_servers m = [] then
                 (Fallback (dial_host host port)
                    (''hostname matched rc_id='' @ dec_of_int (cr_rc_id rule)
                     @ '' but dns map is missing and dnsserver is unavailable''), st)
               else
                 (case resolve_first_ipv4 (re_dns env) (cr_rc_id rule) domain (rm_dns_servers m) st of
                    (Inr resolved, st) \<Rightarrow>
                      (Remote (dial_ip (rr_ip resolved) port) (cr_rc_id rule) (cr_rc_name rule)
                         (case rr_source resolved of
                            Cache \<Rightarrow> DnsServerCache
                          | Server server \<Rightarrow> DnsServerQuery server), st)
                  | (Inl err, st) \<Rightarrow>
                      (Fallback (dial_host host port)
                         (''hostname matched rc_id='' @ dec_of_int (cr_rc_id rule)
                          @ '' but dns map is missing and dnsserver lookup failed: ''
                          @ concise_error err), st))))"

fun cname_route_source :: "route_source \<Rightarrow> route_source" where
  "cname_route_source DnsMap = CnameDnsMap"
| "cname_route_source DnsServerCache = CnameDnsServerCache"
| "cname_route_source (DnsServerQuery server) = CnameDnsServerQuery server"
| "cname_route_source other = other"

definition plan_remote_with_cname_rule :: "route_env \<Rightarrow> route_matcher \<Rightarrow> compiled_rule \<Rightarrow> string \<Rightarrow> u16 \<Rightarrow> target_kind
    \<Rightarrow> dns_state \<Rightarrow> route_plan \<times> dns_state" where
  "plan_remote_with_cname_rule env m rule host port target st =
     (case plan_remote_with_rule env m rule host port target st of
        (Remote dial rc_id rc_name source, st) \<Rightarrow> (Remote dial rc_id rc_name (cname_route_source source), st)
      | (other, st) \<Rightarrow> (other, st))"

fun plan_from_cname_aliases :: "route_env \<Rightarrow> route_matcher \<Rightarrow> string \<Rightarrow> u16 \<Rightarrow> string list \<Rightarrow> flow_proto
    \<Rightarrow> dns_state \<Rightarrow> route_plan option \<times> dns_state" where
  "plan_from_cname_aliases env m host port [] flow st = (None, st)"
| "plan_from_cname_aliases env m host port (raw # aliases) flow st =
     (let a = normalize_domain raw in
      if a = [] \<or> parse_ipv4 a \<noteq> None then plan_from_cname_aliases env m host port aliases flow st
      else
        (case find_first_match (rm_rule_index m) (rm_rules m) (Target_Domain a) port flow of
           Some rule \<Rightarrow> map_prod Some id (plan_remote_with_cname_rule env m rule host port (Target_Domain a) st)
         | None \<Rightarrow> plan_from_cname_aliases env m host port aliases flow st))"

definition plan_dnsserver_derived_rules :: "route_env \<Rightarrow> route_matcher \<Rightarrow> string \<Rightarrow> u16 \<Rightarrow> string \<Rightarrow> flow_proto
    \<Rightarrow> dns_state \<Rightarrow> route_plan option \<times> dns_state" where
  "plan_dnsserver_derived_rules env m host port domain flow st =
     (if rm_dns_servers m = [] then (None, st)
      else
        (case resolve_lookup (re_dns env) domain (rm_dns_servers m) st of
           (Inl _, st) \<Rightarrow> (None, st)
         | (Inr resolved, st) \<Rightarrow>
             (case plan_from_cname_aliases env m host port (lr_aliases resolved) flow st of
                (Some plan, st) \<Rightarrow> (Some plan, st)
              | (None, st) \<Rightarrow>
                  (let source = (case lr_source resolved of
                                   Cache \<Rightarrow> DnsServerIpRuleCache
                                 | Server server \<Rightarrow> DnsServerIpRuleQuery server)
                   in (plan_from_resolved_ips m port (lr_ips resolved) flow source, st)))))"

definition resolve_domain_to_ipv4 :: "resolver \<Rightarrow> string \<Rightarrow> ipv4 option" where
  "resolve_domain_to_ipv4 lookup domain =
     (case to_socket_addrs lookup (domain @ '':0'') of
        Inl _ \<Rightarrow> None
      | Inr addrs \<Rightarrow> map_option v4_ip (first_v4 addrs))"

definition plan_via_domain_ip_resolution :: "route_env \<Rightarrow> route_matcher \<Rightarrow> string \<Rightarrow> u16 \<Rightarrow> string \<Rightarrow> flow_proto \<Rightarrow> route_plan option" where
  "plan_via_domain_ip_resolution env m host port domain flow =
     (case resolve_domain_to_ipv4 (re_resolver env) domain of
        None \<Rightarrow> None
      | Some ip \<Rightarrow>
          (case find_first_match (rm_rule_index m) (rm_rules m) (Target_Ipv4 ip) port flow of
             Some rule \<Rightarrow> Some (Remote (dial_ip ip port) (cr_rc_id rule) (cr_rc_name rule) RuleIp)
           | None \<Rightarrow> plan_extra_ip m host port (Target_Ipv4 ip)))"

definition no_rule_fallback :: "string \<Rightarrow> u16 \<Rightarrow> route_plan" where
  "no_rule_fallback host port = Fallback (dial_host host port) ''no whitelist rule matched''"

text \<open>The stages that only apply to a domain target, tried after the rules and the extra addresses.\<close>

definition plan_domain_late :: "route_env \<Rightarrow> route_matcher \<Rightarrow> string \<Rightarrow> u16 \<Rightarrow> string \<Rightarrow> flow_proto
    \<Rightarrow> dns_state \<Rightarrow> route_plan \<times> dns_state" where
  "plan_domain_late env m host port domain flow st =
     (case plan_dnsserver_derived_rules env m host port domain flow st of
        (Some plan, st) \<Rightarrow> (plan, st)
      | (None, st) \<Rightarrow>
          (case plan_via_domain_ip_resolution env m host port domain flow of
             Some plan \<Rightarrow> (plan, st)
           | None \<Rightarrow> (no_rule_fallback host port, st)))"

definition plan :: "route_env \<Rightarrow> route_matcher \<Rightarrow> string \<Rightarrow> u16 \<Rightarrow> flow_proto \<Rightarrow> dns_state \<Rightarrow> route_plan \<times> dns_state" where
  "plan env m host port flow st =
     (let target = parse_target host in
      case find_first_match (rm_rule_index m) (rm_rules m) target port flow of
        Some rule \<Rightarrow> plan_remote_with_rule env m rule host port target st
      | None \<Rightarrow>
          (case (case target of
                   Target_Domain domain \<Rightarrow> plan_dns_data_ip_rule m port domain flow
                 | Target_Ipv4 _ \<Rightarrow> None) of
             Some p \<Rightarrow> (p, st)
           | None \<Rightarrow>
               (case plan_extra_ip m host port target of
                  Some p \<Rightarrow> (p, st)
                | None \<Rightarrow>
                    (case target of
                       Target_Domain domain \<Rightarrow> plan_domain_late env m host port domain flow st
                     | Target_Ipv4 _ \<Rightarrow> (no_rule_fallback host port, st)))))"

section \<open>The installed router\<close>

record route_install_summary =
  sum_rule_count :: nat
  sum_dns_server_count :: nat
  sum_dns_record_count :: nat

record router_state =
  router :: "route_mode option"
  router_dns :: dns_state

definition ROUTER_NOT_INITIALIZED :: string where
  "ROUTER_NOT_INITIALIZED = ''route matcher is not initialized''"

definition install_route_table :: "route_table \<Rightarrow> string list \<Rightarrow> router_state \<Rightarrow> route_install_summary ec_result \<times> router_state" where
  "install_route_table table extra_ips s =
     (case from_table table extra_ips of
        Inl e \<Rightarrow> (Inl e, s)
      | Inr matcher \<Rightarrow>
          (Inr \<lparr>sum_rule_count = length (rm_rules matcher),
                sum_dns_server_count = length (rm_dns_servers matcher),
                sum_dns_record_count = rm_dns_records matcher\<rparr>,
           s\<lparr>router_dns := clear_cache (router_dns s), router := Some (Matcher matcher)\<rparr>))"

definition install_tunnel_fallback :: "router_state \<Rightarrow> unit ec_result \<times> router_state" where
  "install_tunnel_fallback s =
     (Inr (), s\<lparr>router_dns := clear_cache (router_dns s), router := Some TunnelFallback\<rparr>)"

definition plan_from_mode :: "route_env \<Rightarrow> route_mode \<Rightarrow> string \<Rightarrow> u16 \<Rightarrow> flow_proto \<Rightarrow> dns_state
    \<Rightarrow> route_plan ec_result \<times> dns_state" where
  "plan_from_mode env mode host port flow st =
     (case mode of
        Matcher matcher \<Rightarrow> map_prod Inr id (plan env matcher host port flow st)
      | TunnelFallback \<Rightarrow>
          (Inr (Remote (dial_host host port) 0 ''route-table-unavailable'' RouteTableUnavailable), st)
      | Unavailable \<Rightarrow> (Inl (Runtime ROUTER_NOT_INITIALIZED), st))"

definition plan_target_with_proto :: "route_env \<Rightarrow> string \<Rightarrow> u16 \<Rightarrow> flow_proto \<Rightarrow> router_state
    \<Rightarrow> route_plan ec_result \<times> router_state" where
  "plan_target_with_proto env host port flow s =
     (case router s of
        None \<Rightarrow> (Inl (Runtime ROUTER_NOT_INITIALIZED), s)
      | Some mode \<Rightarrow>
          (let (r, st) = plan_from_mode env mode host port flow (router_dns s)
           in (r, s\<lparr>router_dns := st\<rparr>)))"

definition plan_target :: "route_env \<Rightarrow> string \<Rightarrow> u16 \<Rightarrow> router_state \<Rightarrow> route_plan ec_result \<times> router_state" where
  "plan_target env host port s = plan_target_with_proto env host port Tcp s"

section \<open>CIDR ranges\<close>

lemma unat_drop_bit_u32: "unat (drop_bit k (x :: u32)) = unat x div 2 ^ k"
  by (subst unat_drop_bit_eq) (simp add: drop_bit_eq_div)

lemma unat_range_start:
  "unat ((x :: u32) AND push_bit k (NOT 0)) = unat x div 2 ^ k * 2 ^ k"
proof -
  have e: "x AND push_bit k (NOT 0) = push_bit k (drop_bit k x)"
    by (rule bit_word_eqI) (auto simp: bit_simps)
  have "unat x < 2 ^ 32" using unsigned_less [of x, where ?'a = nat] by simp
  then have lt: "unat x div 2 ^ k * 2 ^ k < 2 ^ 32"
    using div_times_less_eq_dividend [of "unat x" "2 ^ k"] by linarith
  have "unat (push_bit k (drop_bit k x)) = take_bit 32 (push_bit k (unat (drop_bit k x)))"
    by (simp add: unsigned_push_bit_eq)
  also have "\<dots> = unat x div 2 ^ k * 2 ^ k"
    using lt by (simp add: unat_drop_bit_u32 push_bit_eq_mult take_bit_eq_mod)
  finally show ?thesis unfolding e .
qed

lemma unat_range_end:
  assumes "k \<le> 32"
  shows "unat ((x :: u32) OR NOT (push_bit k (NOT 0))) = unat x div 2 ^ k * 2 ^ k + (2 ^ k - 1)"
proof -
  have n: "NOT (push_bit k (NOT 0)) = (mask k :: u32)"
    by (rule bit_word_eqI) (auto simp: bit_simps)
  have u: "unat (mask k :: u32) = 2 ^ k - 1"
  proof -
    have "unat (mask k :: u32) = unat (take_bit k (- 1) :: u32)"
      by (simp only: take_bit_minus_one_eq_mask)
    also have "\<dots> = take_bit k (unat (- 1 :: u32))" by (rule unsigned_take_bit_eq)
    also have "unat (- 1 :: u32) = mask 32"
      using unsigned_minus_1_eq_mask [where ?'a = nat and ?'b = 32] by (simp only: len_num1 len_num0 len_bit0 mult_1_right) simp
    also have "take_bit k (mask 32 :: nat) = mask k"
      using assms by (simp only: take_bit_of_mask min.absorb1)
    finally show "unat (mask k :: u32) = 2 ^ k - 1" by (simp only: mask_eq_exp_minus_1)
  qed
  have "x OR mask k = (x AND push_bit k (NOT 0)) OR mask k"
    by (rule bit_word_eqI) (auto simp: bit_simps)
  also have "\<dots> = (x AND push_bit k (NOT 0)) + mask k"
  proof (rule disjunctive_add_eq_or [symmetric])
    show "(x AND push_bit k (NOT 0)) AND mask k = 0"
      by (rule bit_word_eqI) (auto simp: bit_simps)
  qed
  finally have s: "x OR mask k = (x AND push_bit k (NOT 0)) + mask k" .
  have "unat x < 2 ^ 32" using unsigned_less [of x, where ?'a = nat] by simp
  then have "unat x div 2 ^ k < 2 ^ (32 - k)"
    using assms by (simp add: less_mult_imp_div_less power_add [symmetric])
  then have "Suc (unat x div 2 ^ k) * 2 ^ k \<le> 2 ^ (32 - k) * 2 ^ k"
    by (intro mult_le_mono1) simp
  then have "unat x div 2 ^ k * 2 ^ k + 2 ^ k \<le> 2 ^ 32"
    using assms by (simp add: power_add [symmetric])
  moreover have "(1 :: nat) \<le> 2 ^ k" by simp
  ultimately have "unat x div 2 ^ k * 2 ^ k + (2 ^ k - 1) < 2 ^ 32" by linarith
  then show ?thesis
    unfolding n s by (subst unat_word_ariths(1)) (simp only: unat_range_start u, simp)
qed

lemma cidr_hit:
  assumes "prefix_len \<le> (32 :: u8)"
  shows "extra_hit (cidr_range ip prefix_len) ip' \<longleftrightarrow>
    drop_bit (32 - unat prefix_len) (u32_of_ipv4 ip') = drop_bit (32 - unat prefix_len) (u32_of_ipv4 ip)"
proof -
  let ?k = "32 - unat prefix_len" and ?x = "u32_of_ipv4 ip" and ?w = "u32_of_ipv4 ip'"
  have mask: "(if prefix_len = 0 then 0 else push_bit ?k (NOT 0)) = (push_bit ?k (NOT 0) :: u32)"
    by (auto simp: push_bit_eq_mult intro!: bit_word_eqI simp: bit_simps)
  have "extra_hit (cidr_range ip prefix_len) ip' \<longleftrightarrow>
      ?x AND push_bit ?k (NOT 0) \<le> ?w \<and> ?w \<le> ?x OR NOT (push_bit ?k (NOT 0))"
    unfolding extra_hit_def cidr_range_def Let_def mask by simp
  also have "\<dots> \<longleftrightarrow> unat ?x div 2 ^ ?k * 2 ^ ?k \<le> unat ?w \<and> unat ?w \<le> unat ?x div 2 ^ ?k * 2 ^ ?k + (2 ^ ?k - 1)"
    by (simp only: word_le_nat_alt unat_range_start unat_range_end diff_le_self)
  also have "\<dots> \<longleftrightarrow> unat ?w div 2 ^ ?k = unat ?x div 2 ^ ?k"
  proof
    assume a: "unat ?x div 2 ^ ?k * 2 ^ ?k \<le> unat ?w \<and> unat ?w \<le> unat ?x div 2 ^ ?k * 2 ^ ?k + (2 ^ ?k - 1)"
    then have "unat ?w < Suc (unat ?x div 2 ^ ?k) * 2 ^ ?k"
      using one_le_power [of "2 :: nat" ?k] unfolding mult_Suc by linarith
    with a show "unat ?w div 2 ^ ?k = unat ?x div 2 ^ ?k"
      by (intro div_nat_eqI) (simp_all add: mult.commute)
  next
    assume a: "unat ?w div 2 ^ ?k = unat ?x div 2 ^ ?k"
    have "unat ?w div 2 ^ ?k * 2 ^ ?k + unat ?w mod 2 ^ ?k = unat ?w" by (rule div_mult_mod_eq)
    moreover have "unat ?w mod 2 ^ ?k < 2 ^ ?k" by simp
    ultimately show "unat ?x div 2 ^ ?k * 2 ^ ?k \<le> unat ?w \<and> unat ?w \<le> unat ?x div 2 ^ ?k * 2 ^ ?k + (2 ^ ?k - 1)"
      unfolding a [symmetric] by linarith
  qed
  also have "\<dots> \<longleftrightarrow> drop_bit ?k ?w = drop_bit ?k ?x"
    unfolding unat_drop_bit_u32 [symmetric] by (rule word_eq_iff_unsigned [symmetric])
  finally show ?thesis .
qed

lemma range_matcher_show:
  "range_matcher (show_ipv4 a) (show_ipv4 b) = Some (ordered_range (u32_of_ipv4 a) (u32_of_ipv4 b))"
  by (simp add: range_matcher_def trim_show_ipv4 parse_show_ipv4)

lemma ordered_range_hit:
  "extra_hit (ordered_range a b) ip \<longleftrightarrow> min a b \<le> u32_of_ipv4 ip \<and> u32_of_ipv4 ip \<le> max a b"
  by (auto simp: ordered_range_def extra_hit_def min_def max_def)

lemma parse_extra_cidr:
  "parse_extra_ip (show_ipv4 ip @ ''/'' @ dec_of_nat (unat n)) =
     (if 32 < n then None else Some (cidr_range ip (n :: u8)))"
proof -
  have g: "list_all is_graph (show_ipv4 ip @ CHR ''/'' # dec_of_nat (unat n))"
    by (simp add: show_ipv4_graph dec_of_nat_graph) (simp add: is_graph_def)
  have "split_once ''/'' (show_ipv4 ip @ CHR ''/'' # dec_of_nat (unat n)) = Some (show_ipv4 ip, dec_of_nat (unat n))"
    by (rule split_once_char_append) (rule show_ipv4_no_sep)
  with trim_graph [OF g] show ?thesis
    by (simp add: parse_extra_ip_def Let_def trim_show_ipv4 parse_show_ipv4 trim_graph [OF dec_of_nat_graph]
        parse_u8_dec)
qed

lemma show_ipv4_nonempty [simp]: "show_ipv4 ip \<noteq> []"
  by (cases ip) simp

text \<open>
  The extra addresses mean what they say: \<^verbatim>\<open>a.b.c.d/n\<close> admits exactly the addresses that agree with
  \<^verbatim>\<open>a.b.c.d\<close> on the first \<open>n\<close> bits (and is refused for \<open>n > 32\<close>), \<^verbatim>\<open>x~y\<close> exactly the addresses
  between the two in either order, and a single address only itself.
\<close>

theorem parse_extra_ip_admits:
  "(case parse_extra_ip (show_ipv4 ip @ ''/'' @ dec_of_nat (unat (n :: u8))) of
      None \<Rightarrow> 32 < n
    | Some m \<Rightarrow> n \<le> 32 \<and>
        (extra_hit m ip' \<longleftrightarrow>
           drop_bit (32 - unat n) (u32_of_ipv4 ip') = drop_bit (32 - unat n) (u32_of_ipv4 ip))) \<and>
   (case parse_extra_ip (show_ipv4 ip @ ''~'' @ show_ipv4 b) of
      None \<Rightarrow> False
    | Some m \<Rightarrow> extra_hit m ip' \<longleftrightarrow> min ip b \<le> ip' \<and> ip' \<le> max ip b) \<and>
   (case parse_extra_ip (show_ipv4 ip) of None \<Rightarrow> False | Some m \<Rightarrow> extra_hit m ip' \<longleftrightarrow> ip' = ip)"
proof -
  have g: "list_all is_graph (show_ipv4 ip @ CHR ''~'' # show_ipv4 b)"
    by (simp add: show_ipv4_graph) (simp add: is_graph_def)
  have slash: "split_once ''/'' (show_ipv4 ip @ CHR ''~'' # show_ipv4 b) = None"
    by (simp add: show_ipv4_no_sep)
  have "split_once ''~'' (show_ipv4 ip @ CHR ''~'' # show_ipv4 b) = Some (show_ipv4 ip, show_ipv4 b)"
    by (rule split_once_char_append) (rule show_ipv4_no_sep)
  with trim_graph [OF g] slash have rng:
    "parse_extra_ip (show_ipv4 ip @ ''~'' @ show_ipv4 b) = Some (ordered_range (u32_of_ipv4 ip) (u32_of_ipv4 b))"
    by (simp add: parse_extra_ip_def Let_def range_matcher_show del: split_once_char_None)
  have single: "parse_extra_ip (show_ipv4 ip) = Some (Ipv4_Match ip)"
  proof -
    have "split_once ''/'' (show_ipv4 ip) = None" "split_once ''~'' (show_ipv4 ip) = None"
      by (simp_all add: show_ipv4_no_sep)
    then show "parse_extra_ip (show_ipv4 ip) = Some (Ipv4_Match ip)"
      by (simp add: parse_extra_ip_def Let_def trim_show_ipv4 parse_show_ipv4 del: split_once_char_None)
  qed
  show ?thesis
    unfolding parse_extra_cidr rng single
    using cidr_hit [of n ip ip'] ordered_range_hit [of "u32_of_ipv4 ip" "u32_of_ipv4 b" ip', unfolded ipv4_between]
    by (auto simp: extra_hit_def [of "Ipv4_Match ip"] not_less)
qed

section \<open>DNS data\<close>

text \<open>A usable record: its rule, its normalised name and its address.\<close>

definition dns_triple :: "dns_record \<Rightarrow> (int \<times> string \<times> ipv4) option" where
  "dns_triple r =
     (if normalize_domain (rec_host r) = [] then None
      else map_option (\<lambda>ip. (rec_rc_id r, normalize_domain (rec_host r), ip)) (parse_ipv4 (trim (rec_ip r))))"

fun push_triple :: "int \<times> string \<times> ipv4 \<Rightarrow> dns_build \<Rightarrow> dns_build" where
  "push_triple (i, h, ip) st =
     (if (i, h, ip) \<in> db_seen_dns st then st
      else
        (let st = st\<lparr>db_seen_dns := insert (i, h, ip) (db_seen_dns st),
                     db_scoped := push_scoped (db_scoped st) i h ip\<rparr> in
         if (h, ip) \<in> db_seen_exact st then st
         else st\<lparr>db_seen_exact := insert (h, ip) (db_seen_exact st),
                 db_exact := push_entry (db_exact st) h ip\<rparr>))"

lemma build_dns_loop_fold:
  "build_dns_loop st rs = fold push_triple (List.map_filter dns_triple rs) st"
  by (induction st rs rule: build_dns_loop.induct)
     (auto simp: Let_def dns_triple_def List.map_filter_simps split: option.splits)

definition scoped_ips :: "(int \<rightharpoonup> (string \<rightharpoonup> ipv4 list)) \<Rightarrow> int \<Rightarrow> string \<Rightarrow> ipv4 list" where
  "scoped_ips m i h = (case m i of None \<Rightarrow> [] | Some domains \<Rightarrow> entry_list domains h)"

lemma scoped_ips_push:
  "scoped_ips (push_scoped m i h ip) i' h' = scoped_ips m i' h' @ (if i' = i \<and> h' = h then [ip] else [])"
  by (auto simp: scoped_ips_def push_scoped_def entry_list_push split: option.splits)
     (simp_all add: entry_list_def)

definition dns_inv :: "dns_build \<Rightarrow> bool" where
  "dns_inv st \<longleftrightarrow>
     (\<forall>i h ip. (i, h, ip) \<in> db_seen_dns st \<longleftrightarrow> ip \<in> set (scoped_ips (db_scoped st) i h)) \<and>
     (\<forall>h ip. (h, ip) \<in> db_seen_exact st \<longleftrightarrow> ip \<in> set (entry_list (db_exact st) h)) \<and>
     (\<forall>i h ip. (i, h, ip) \<in> db_seen_dns st \<longrightarrow> (h, ip) \<in> db_seen_exact st)"

lemma dns_inv_push: "dns_inv st \<Longrightarrow> dns_inv (push_triple t st)"
  by (cases t) (auto simp: dns_inv_def Let_def scoped_ips_push entry_list_push)

lemma fold_push_triple:
  "dns_inv st \<Longrightarrow>
   scoped_ips (db_scoped (fold push_triple ts st)) i h =
     scoped_ips (db_scoped st) i h @
     firsts_by (\<lambda>x. x) (set (scoped_ips (db_scoped st) i h))
       (map (\<lambda>(_, _, ip). ip) (filter (\<lambda>(i', h', _). i' = i \<and> h' = h) ts)) \<and>
   entry_list (db_exact (fold push_triple ts st)) h =
     entry_list (db_exact st) h @
     firsts_by (\<lambda>x. x) (set (entry_list (db_exact st) h))
       (map (\<lambda>(_, _, ip). ip) (filter (\<lambda>(_, h', _). h' = h) ts)) \<and>
   db_seen_dns (fold push_triple ts st) = db_seen_dns st \<union> set ts"
proof (induction ts arbitrary: st)
  case (Cons t ts)
  obtain i' h' ip where t: "t = (i', h', ip)" by (cases t)
  from Cons.prems have inv:
    "(i', h', ip) \<in> db_seen_dns st \<longleftrightarrow> ip \<in> set (scoped_ips (db_scoped st) i' h')"
    "(h', ip) \<in> db_seen_exact st \<longleftrightarrow> ip \<in> set (entry_list (db_exact st) h')"
    "(i', h', ip) \<in> db_seen_dns st \<Longrightarrow> ip \<in> set (entry_list (db_exact st) h')"
    by (auto simp: dns_inv_def)
  from Cons.IH [OF dns_inv_push [OF Cons.prems, of t]] show ?case
    using inv by (auto simp: t Let_def scoped_ips_push entry_list_push)
qed simp

text \<open>
  The DNS indexes hold the table's usable records: for a rule and a name, the addresses of
  that rule's records for the name, each once, in the table's order; for a name alone, those of all
  rules; and the count is the number of different usable records.
\<close>

theorem dns_indexes_contents:
  "scoped_ips (di_scoped (build_dns_indexes rs)) i h =
     firsts_by (\<lambda>x. x) {} (map (\<lambda>(_, _, ip). ip)
       (filter (\<lambda>(i', h', _). i' = i \<and> h' = h) (List.map_filter dns_triple rs))) \<and>
   entry_list (di_exact (build_dns_indexes rs)) h =
     firsts_by (\<lambda>x. x) {} (map (\<lambda>(_, _, ip). ip)
       (filter (\<lambda>(_, h', _). h' = h) (List.map_filter dns_triple rs))) \<and>
   di_record_count (build_dns_indexes rs) = card (set (List.map_filter dns_triple rs))"
proof -
  let ?st = "\<lparr>db_scoped = Map.empty, db_exact = Map.empty, db_seen_dns = {}, db_seen_exact = {}\<rparr>"
  have "dns_inv ?st" by (simp add: dns_inv_def scoped_ips_def entry_list_def)
  from fold_push_triple [OF this, of "List.map_filter dns_triple rs" i h] show ?thesis
    by (simp add: build_dns_indexes_def Let_def build_dns_loop_fold scoped_ips_def [of Map.empty]
        entry_list_def [of Map.empty])
qed

section \<open>What a plan may be\<close>

fun by_ip :: "route_source \<Rightarrow> bool" where
  "by_ip RuleIp = True"
| "by_ip DnsDataIpRule = True"
| "by_ip DnsServerIpRuleCache = True"
| "by_ip (DnsServerIpRuleQuery _) = True"
| "by_ip _ = False"

fun by_alias :: "route_source \<Rightarrow> bool" where
  "by_alias CnameDnsMap = True"
| "by_alias CnameDnsServerCache = True"
| "by_alias (CnameDnsServerQuery _) = True"
| "by_alias _ = False"

text \<open>
  A remote plan is justified by a rule that admits the flow and hits the address dialled (when the
  plan was found through an address) or the target's name (or, for the alias sources, an alias), or
  by an extra address that admits the target's address; a fallback keeps the target.
\<close>

definition justified :: "route_env \<Rightarrow> route_matcher \<Rightarrow> string \<Rightarrow> u16 \<Rightarrow> flow_proto \<Rightarrow> route_plan \<Rightarrow> bool" where
  "justified env m host port flow p \<longleftrightarrow>
     (case p of
        Remote dial rc_id name src \<Rightarrow>
          if src = ExtraIp then
            rc_id = 0 \<and> name = ''--extra'' \<and> dial = dial_host host port \<and>
            (\<exists>x ip. x \<in> set (rm_extra_matchers m) \<and> extra_hit x ip \<and>
               (case parse_target host of
                  Target_Ipv4 ip' \<Rightarrow> ip' = ip
                | Target_Domain d \<Rightarrow> resolve_domain_to_ipv4 (re_resolver env) d = Some ip))
          else
            (\<exists>r ip. r \<in> set (rm_rules m) \<and> cr_rc_id r = rc_id \<and> cr_rc_name r = name \<and>
               dial = dial_ip ip port \<and> rule_matches_flow r port flow \<and>
               (if by_ip src then host_hits (cr_matcher r) (Target_Ipv4 ip)
                else \<exists>d. cr_matcher r = Domain d \<and> (by_alias src \<or> parse_target host = Target_Domain d)))
      | Fallback target reason \<Rightarrow> target = dial_host host port)"

definition indexed :: "route_matcher \<Rightarrow> bool" where
  "indexed m \<longleftrightarrow> indexes (rm_rules m) (length (rm_rules m)) (rm_rule_index m)"

lemma from_table_indexed: "from_table table extra_ips = Inr m \<Longrightarrow> indexed m"
  by (auto simp: from_table_def Let_def indexed_def indexes_build)

lemma find_matchD:
  assumes "indexed m" and "find_first_match (rm_rule_index m) (rm_rules m) target port flow = Some r"
  shows "r \<in> set (rm_rules m) \<and> host_hits (cr_matcher r) target \<and> rule_matches_flow r port flow"
  using assms find_first_match_indexed [of "rm_rules m" "rm_rule_index m" target port flow]
  by (auto simp: indexed_def rule_hits_def find_Some_iff)

lemma host_hits_domain: "host_hits x (Target_Domain d) \<longleftrightarrow> x = Domain d"
  by (cases x) (auto simp: host_hits_def)

lemma justified_by_ip:
  assumes "indexed m" "by_ip src"
    "find_first_match (rm_rule_index m) (rm_rules m) (Target_Ipv4 ip) port flow = Some r"
  shows "justified env m host port flow (Remote (dial_ip ip port) (cr_rc_id r) (cr_rc_name r) src)"
proof -
  have "src \<noteq> ExtraIp" using assms(2) by auto
  with assms(2) find_matchD [OF assms(1,3)] show ?thesis
    unfolding justified_def by (auto intro!: exI [of _ r] exI [of _ ip])
qed

lemma justified_by_name:
  assumes "r \<in> set (rm_rules m)" "cr_matcher r = Domain d" "rule_matches_flow r port flow"
    and "\<not> by_ip src" "src \<noteq> ExtraIp" "by_alias src \<or> parse_target host = Target_Domain d"
  shows "justified env m host port flow (Remote (dial_ip ip port) (cr_rc_id r) (cr_rc_name r) src)"
  unfolding justified_def using assms by (auto intro!: exI [of _ r] exI [of _ ip])

lemma justified_fallback [simp]: "justified env m host port flow (Fallback (dial_host host port) reason)"
  by (simp add: justified_def)

text \<open>The plan of a rule found for a name.\<close>

lemma plan_remote_with_rule_cases:
  assumes "plan_remote_with_rule env m rule host port (Target_Domain d) st = (p, st')"
  shows "(\<exists>ip src. p = Remote (dial_ip ip port) (cr_rc_id rule) (cr_rc_name rule) src \<and>
            \<not> by_ip src \<and> src \<noteq> ExtraIp \<and> by_alias (cname_route_source src)) \<or>
         (\<exists>reason. p = Fallback (dial_host host port) reason)"
  using assms
  by (auto simp: plan_remote_with_rule_def
           split: option.splits if_splits prod.splits sum.splits resolve_source.splits)

lemma by_alias_simps: "by_alias src \<Longrightarrow> \<not> by_ip src \<and> src \<noteq> ExtraIp"
  by (cases src) auto

lemma justified_rule:
  assumes m: "indexed m" and t: "parse_target host = target"
    and f: "find_first_match (rm_rule_index m) (rm_rules m) target port flow = Some rule"
    and p: "plan_remote_with_rule env m rule host port target st = (p, st')"
  shows "justified env m host port flow p"
proof (cases target)
  case (Target_Ipv4 ip)
  with p justified_by_ip [OF m, of RuleIp ip] f show ?thesis
    by (auto simp: plan_remote_with_rule_def)
next
  case (Target_Domain d)
  from find_matchD [OF m f] have "rule \<in> set (rm_rules m)" "cr_matcher rule = Domain d"
    "rule_matches_flow rule port flow" by (simp_all add: Target_Domain host_hits_domain)
  with plan_remote_with_rule_cases [OF p [unfolded Target_Domain]] t Target_Domain show ?thesis
    by (auto intro: justified_by_name)
qed

lemma justified_cname_rule:
  assumes m: "indexed m"
    and f: "find_first_match (rm_rule_index m) (rm_rules m) (Target_Domain d) port flow = Some rule"
    and p: "plan_remote_with_cname_rule env m rule host port (Target_Domain d) st = (p, st')"
  shows "justified env m host port flow p"
proof -
  from find_matchD [OF m f] have r: "rule \<in> set (rm_rules m)" "cr_matcher rule = Domain d"
    "rule_matches_flow rule port flow" by (simp_all add: host_hits_domain)
  obtain q st0 where q: "plan_remote_with_rule env m rule host port (Target_Domain d) st = (q, st0)"
    by (cases "plan_remote_with_rule env m rule host port (Target_Domain d) st")
  from plan_remote_with_rule_cases [OF q] p q show ?thesis
    by (auto simp: plan_remote_with_cname_rule_def by_alias_simps intro!: justified_by_name [OF r])
qed

lemma justified_resolved_ips:
  "plan_from_resolved_ips m port ips flow source = Some p \<Longrightarrow> indexed m \<Longrightarrow> by_ip source \<Longrightarrow>
   justified env m host port flow p"
  by (induction m port ips flow source rule: plan_from_resolved_ips.induct)
     (auto split: option.splits intro: justified_by_ip)

lemma map_prod_Some: "map_prod Some id x = (Some p, s) \<longleftrightarrow> x = (p, s)"
  by (cases x) auto

lemma justified_aliases:
  assumes "indexed m"
  shows "plan_from_cname_aliases env m host port aliases flow st = (Some p, st') \<Longrightarrow>
    justified env m host port flow p"
  using assms
  by (induction env m host port aliases flow st rule: plan_from_cname_aliases.induct)
     (auto simp: Let_def map_prod_Some split: if_splits option.splits prod.splits intro: justified_cname_rule)

lemma plan_extra_ip_Some:
  "plan_extra_ip m host port target = Some p \<longleftrightarrow>
     (\<exists>ip. target = Target_Ipv4 ip \<and> p = extra_plan host port \<and>
        (\<exists>x \<in> set (rm_extra_matchers m). extra_hit x ip))"
proof -
  have "(\<exists>z. find P xs = Some z) \<longleftrightarrow> (\<exists>x \<in> set xs. P x)" for P :: "host_matcher \<Rightarrow> bool" and xs
    by (induction xs) auto
  then show ?thesis by (cases target) (auto simp: plan_extra_ip_def)
qed

lemma justified_extra:
  assumes "x \<in> set (rm_extra_matchers m)" "extra_hit x ip"
    and "parse_target host = Target_Ipv4 ip \<or>
      (\<exists>d. parse_target host = Target_Domain d \<and> resolve_domain_to_ipv4 (re_resolver env) d = Some ip)"
  shows "justified env m host port flow (extra_plan host port)"
  using assms by (auto simp: justified_def extra_plan_def split: target_kind.splits)

lemma justified_derived:
  assumes "indexed m" "plan_dnsserver_derived_rules env m host port domain flow st = (Some p, st')"
  shows "justified env m host port flow p"
  using assms
  by (auto simp: plan_dnsserver_derived_rules_def Let_def
           split: if_splits prod.splits sum.splits option.splits resolve_source.splits
           intro: justified_aliases justified_resolved_ips)

lemma justified_via_resolution:
  assumes "indexed m" "parse_target host = Target_Domain domain"
    "plan_via_domain_ip_resolution env m host port domain flow = Some p"
  shows "justified env m host port flow p"
  using assms
  by (auto simp: plan_via_domain_ip_resolution_def plan_extra_ip_Some split: option.splits
           intro: justified_by_ip justified_extra)

lemma plan_justified:
  assumes m: "indexed m" and p: "plan env m host port flow st = (p, st')"
  shows "justified env m host port flow p"
proof -
  let ?t = "parse_target host"
  let ?f = "find_first_match (rm_rule_index m) (rm_rules m) ?t port flow"
  show ?thesis
  proof (cases ?f)
    case (Some rule)
    with p have "plan_remote_with_rule env m rule host port ?t st = (p, st')"
      by (simp add: plan_def Let_def)
    from justified_rule [OF m refl Some this] show ?thesis .
  next
    case None
    show ?thesis
    proof (cases ?t)
      case (Target_Ipv4 ip)
      with None p m show ?thesis
        by (auto simp: plan_def Let_def plan_extra_ip_Some no_rule_fallback_def split: option.splits
                 intro: justified_extra)
    next
      case (Target_Domain d)
      with None p m show ?thesis
        by (auto simp: plan_def Let_def plan_extra_ip_Some plan_domain_late_def no_rule_fallback_def
                       plan_dns_data_ip_rule_def
                 split: option.splits prod.splits
                 intro: justified_resolved_ips justified_derived justified_via_resolution)
    qed
  qed
qed


section \<open>Plans of address targets\<close>

text \<open>
  \<^bold>\<open>C13.\<close> A literal address is planned by the table alone: through the first row of the table that
  compiles to a rule covering the address and admitting the flow; else through the extra addresses;
  else as the fallback. The DNS caches, the network and the resolver play no part.
\<close>

theorem plan_address_target:
  assumes "parse_ipv4 (trim host) = Some ip"
  shows "case from_table table extra_ips of
      Inl e \<Rightarrow> False
    | Inr m \<Rightarrow> plan env m host port flow st =
        ((case find (rule_hits (Target_Ipv4 ip) port flow) (List.map_filter compile_rule (rt_rules table)) of
            Some r \<Rightarrow> Remote (dial_ip ip port) (cr_rc_id r) (cr_rc_name r) RuleIp
          | None \<Rightarrow>
              if \<exists>x \<in> set (List.map_filter parse_extra_ip extra_ips). extra_hit x ip
              then Remote (dial_host host port) 0 ''--extra'' ExtraIp
              else Fallback (dial_host host port) ''no whitelist rule matched''), st)"
proof -
  let ?rules = "compile_rules (rt_rules table)"
  have f: "find_first_match (build_index ?rules) ?rules (Target_Ipv4 ip) port flow =
      find (rule_hits (Target_Ipv4 ip) port flow) (List.map_filter compile_rule (rt_rules table))"
    unfolding compile_rules_firsts find_first_match_indexed [OF indexes_build]
    by (rule firsts_by_find) simp
  have extra: "(find (\<lambda>m. extra_hit m ip) xs = None) = (\<not> (\<exists>x \<in> set xs. extra_hit x ip))" for xs
    by (induction xs) auto
  show ?thesis
    using assms f extra [of "List.map_filter parse_extra_ip extra_ips"]
    by (cases "find (\<lambda>m. extra_hit m ip) (List.map_filter parse_extra_ip extra_ips)")
       (auto simp: from_table_def Let_def plan_def parse_target_def plan_remote_with_rule_def
        plan_extra_ip_def extra_plan_def no_rule_fallback_def split: option.splits)
qed

section \<open>Plans of names with a record\<close>

lemma hd_firsts_find:
  "(case firsts_by (\<lambda>x. x) {} (map f (filter P xs)) of [] \<Rightarrow> None | y # _ \<Rightarrow> Some y) =
   map_option f (find P xs)"
  by (induction xs) auto

lemma dns_map_ip_find:
  assumes "from_table table extra_ips = Inr m"
  shows "dns_map_ip m i h =
     map_option (\<lambda>(_, _, ip). ip)
       (find (\<lambda>(i', h', _). i' = i \<and> h' = h) (List.map_filter dns_triple (rt_dns_records table)))"
proof -
  let ?st = "\<lparr>db_scoped = Map.empty, db_exact = Map.empty, db_seen_dns = {}, db_seen_exact = {}\<rparr>"
  let ?ts = "List.map_filter dns_triple (rt_dns_records table)"
  have m: "rm_dns_map m = db_scoped (fold push_triple ?ts ?st)"
    using assms by (auto simp: from_table_def Let_def build_dns_indexes_def build_dns_loop_fold)
  have "dns_inv ?st" by (simp add: dns_inv_def scoped_ips_def entry_list_def)
  from fold_push_triple [OF this, of ?ts i h]
  have "scoped_ips (rm_dns_map m) i h = firsts_by (\<lambda>x. x) {} (map (\<lambda>(_, _, ip). ip)
      (filter (\<lambda>(i', h', _). i' = i \<and> h' = h) ?ts))"
    by (simp add: m scoped_ips_def [of Map.empty])
  moreover have "dns_map_ip m i h = (case scoped_ips (rm_dns_map m) i h of [] \<Rightarrow> None | y # _ \<Rightarrow> Some y)"
    by (auto simp: dns_map_ip_def scoped_ips_def entry_list_def split: option.splits)
  ultimately show ?thesis by (simp only: hd_firsts_find)
qed

text \<open>
  \<^bold>\<open>C21.\<close> A name is planned by the first row of the table for it that admits the flow; if the table
  has a usable DNS record of that row's rule for the name, the plan dials the address of the first
  such record, under the rule's id and name, without a query or any change of the DNS state.
\<close>

theorem plan_name_with_record:
  assumes "parse_ipv4 (trim host) = None"
    and "find (rule_hits (Target_Domain (normalize_domain host)) port flow)
           (List.map_filter compile_rule (rt_rules table)) = Some r"
    and "find (\<lambda>(i, h, _). i = cr_rc_id r \<and> h = normalize_domain host)
           (List.map_filter dns_triple (rt_dns_records table)) = Some (i, h, ip)"
  shows "case from_table table extra_ips of
      Inl e \<Rightarrow> False
    | Inr m \<Rightarrow> plan env m host port flow st =
        (Remote (dial_ip ip port) (cr_rc_id r) (cr_rc_name r) DnsMap, st)"
proof -
  obtain m where m: "from_table table extra_ips = Inr m" by (simp add: from_table_def Let_def)
  let ?rules = "compile_rules (rt_rules table)"
  have "find_first_match (build_index ?rules) ?rules (Target_Domain (normalize_domain host)) port flow = Some r"
    unfolding compile_rules_firsts find_first_match_indexed [OF indexes_build] assms(2) [symmetric]
    by (rule firsts_by_find) simp
  moreover have "rm_rules m = ?rules" "rm_rule_index m = build_index ?rules"
    using m by (auto simp: from_table_def Let_def)
  moreover have "dns_map_ip m (cr_rc_id r) (normalize_domain host) = Some ip"
    using assms(3) by (simp add: dns_map_ip_find [OF m])
  ultimately show ?thesis
    using assms(1) m by (simp add: plan_def parse_target_def plan_remote_with_rule_def)
qed

section \<open>DNS servers of the table\<close>

interpretation servers: dedup_loop dns_servers_loop parse_dns_server "\<lambda>a. a" fst snd
proof unfold_locales
  fix x :: string and a and s :: "sock_addr set \<times> sock_addr list" and xs
  assume "parse_dns_server x = Some a" "a \<notin> fst s"
  then show "\<exists>s'. dns_servers_loop s (x # xs) = dns_servers_loop s' xs \<and> fst s' = insert a (fst s) \<and>
      snd s' = snd s @ [a]"
    by (intro exI [of _ "(insert a (fst s), snd s @ [a])"]) simp
qed simp_all

text \<open>
  The DNS servers of the table are the usable entries, each address once, in the table's
  order; an address without a port is asked on port 53, one with a port on that port.
\<close>

theorem dns_servers_in_order:
  "subseq (normalize_dns_servers ss) (List.map_filter parse_dns_server ss) \<and>
   distinct (normalize_dns_servers ss) \<and>
   set (normalize_dns_servers ss) = set (List.map_filter parse_dns_server ss) \<and>
   parse_dns_server (show_ipv4 ip) = Some (V4 (Sock_V4 ip 53)) \<and>
   parse_dns_server (show_sock_v4 a) = Some (V4 a)"
proof -
  have "normalize_dns_servers ss = firsts_by (\<lambda>a. a) {} (List.map_filter parse_dns_server ss)"
    using servers.out_loop [of "({}, [])" ss] by (simp add: normalize_dns_servers_def)
  moreover have "parse_dns_server (show_ipv4 ip) = Some (V4 (Sock_V4 ip 53))"
    by (simp add: parse_dns_server_def trim_show_ipv4 show_ipv4_not_sock_addr parse_ip_addr_show
        DNS_DEFAULT_PORT_def)
  moreover have "parse_dns_server (show_sock_v4 a) = Some (V4 a)"
  proof -
    have "show_sock_v4 a \<noteq> []" by (cases a) simp
    then show "parse_dns_server (show_sock_v4 a) = Some (V4 a)"
      by (simp add: parse_dns_server_def trim_graph [OF show_sock_v4_graph] parse_show_sock_v4)
  qed
  ultimately show ?thesis by (simp add: subseq_firsts_by)
qed

section \<open>Installing\<close>

text \<open>
  The life of the router: before anything is installed a target cannot be planned; after the
  tunnel fallback is installed every target is dialled through the tunnel unchanged, without a look
  at the table or the DNS; installing a table forgets both DNS caches, reports the sizes of what was
  installed, and from then on targets are planned by that table, which planning never replaces.
\<close>

theorem router_life_cycle:
  "plan_target_with_proto env host port flow (s\<lparr>router := None\<rparr>) =
     (Inl (Runtime ''route matcher is not initialized''), s\<lparr>router := None\<rparr>) \<and>
   plan_target_with_proto env host port flow (snd (install_tunnel_fallback s)) =
     (Inr (Remote (host @ '':'' @ dec_u16 port) 0 ''route-table-unavailable'' RouteTableUnavailable),
      snd (install_tunnel_fallback s)) \<and>
   (case install_route_table table extra_ips s of
      (Inl e, s') \<Rightarrow> False
    | (Inr summary, s') \<Rightarrow>
        (case from_table table extra_ips of
           Inl e \<Rightarrow> False
         | Inr m \<Rightarrow>
             sum_rule_count summary = length (compile_rules (rt_rules table)) \<and>
             sum_dns_server_count summary = length (normalize_dns_servers (rt_dns_servers table)) \<and>
             sum_dns_record_count summary = di_record_count (build_dns_indexes (rt_dns_records table)) \<and>
             dns_cache (router_dns s') = Map.empty \<and> lookup_cache (router_dns s') = Map.empty \<and>
             fst (plan_target_with_proto env host port flow s') =
               Inr (fst (plan env m host port flow (router_dns s'))) \<and>
             router (snd (plan_target_with_proto env host port flow s')) = Some (Matcher m)))"
  by (auto simp: plan_target_with_proto_def ROUTER_NOT_INITIALIZED_def install_tunnel_fallback_def
      plan_from_mode_def dial_host_def install_route_table_def from_table_def Let_def clear_cache_def
      split_beta)

section \<open>Witnesses\<close>

definition toy_table :: route_table where
  "toy_table =
    \<lparr>rt_rules = [\<lparr>rule_rc_id = 334, rule_proto = 0, rule_svc = ''Other'', rule_name = ''fee'',
                  rule_host = ''10.50.2.206'', rule_port = \<lparr>pr_start = 80, pr_end = 80\<rparr>\<rparr>,
                 \<lparr>rule_rc_id = 205, rule_proto = 0, rule_svc = ''Other'', rule_name = ''ids'',
                  rule_host = ''ids.shiep.edu.cn'', rule_port = \<lparr>pr_start = 1, pr_end = 65535\<rparr>\<rparr>],
     rt_dns_servers = [''10.0.0.53''],
     rt_dns_records = [\<lparr>rec_rc_id = 205, rec_host = ''IDS.shiep.edu.cn.'', rec_ip = ''10.166.35.11''\<rparr>]\<rparr>"

theorem plan_address_target_witness:
  "\<forall>env st. (case from_table toy_table [''10.8.1.2''] of
      Inl e \<Rightarrow> False
    | Inr m \<Rightarrow> plan env m ''10.50.2.206'' 80 Tcp st = (Remote ''10.50.2.206:80'' 334 ''fee'' RuleIp, st) \<and>
               plan env m ''10.8.1.2'' 80 Tcp st = (Remote ''10.8.1.2:80'' 0 ''--extra'' ExtraIp, st) \<and>
               plan env m ''10.50.2.206'' 81 Tcp st =
                 (Fallback ''10.50.2.206:81'' ''no whitelist rule matched'', st))"
proof -
  have p: "parse_ipv4 (trim ''10.50.2.206'') = Some (Ipv4 10 50 2 206)"
    "parse_ipv4 (trim ''10.8.1.2'') = Some (Ipv4 10 8 1 2)" by code_simp+
  let ?rs = "List.map_filter compile_rule (rt_rules toy_table)"
  let ?xs = "List.map_filter parse_extra_ip [''10.8.1.2'']"
  have f1: "find (rule_hits (Target_Ipv4 (Ipv4 10 50 2 206)) 80 Tcp) ?rs =
      Some \<lparr>cr_rc_id = 334, cr_rc_name = ''fee'', cr_proto = 0, cr_svc = ''Other'',
        cr_matcher = Ipv4_Match (Ipv4 10 50 2 206), cr_port = \<lparr>pr_start = 80, pr_end = 80\<rparr>\<rparr>" by code_simp
  have f2: "find (rule_hits (Target_Ipv4 (Ipv4 10 50 2 206)) 81 Tcp) ?rs = None" by code_simp
  have f3: "find (rule_hits (Target_Ipv4 (Ipv4 10 8 1 2)) 80 Tcp) ?rs = None" by code_simp
  have e1: "(\<exists>x \<in> set ?xs. extra_hit x (Ipv4 10 8 1 2)) = True" by code_simp
  have e2: "(\<exists>x \<in> set ?xs. extra_hit x (Ipv4 10 50 2 206)) = False" by code_simp
  have d: "dial_ip (Ipv4 10 50 2 206) 80 = ''10.50.2.206:80''" "dial_host ''10.8.1.2'' 80 = ''10.8.1.2:80''"
    "dial_host ''10.50.2.206'' 81 = ''10.50.2.206:81''"
    by code_simp+
  obtain m where m: "from_table toy_table [''10.8.1.2''] = Inr m" by (simp add: from_table_def Let_def)
  note A = plan_address_target [OF p(1), where table = toy_table and extra_ips = "[''10.8.1.2'']",
      unfolded m e2 sum.case if_False]
  note B = plan_address_target [OF p(2), where table = toy_table and extra_ips = "[''10.8.1.2'']",
      unfolded m e1 sum.case if_True]
  show ?thesis
    unfolding m sum.case
    using A [where port = 80 and flow = Tcp, unfolded f1] A [where port = 81 and flow = Tcp, unfolded f2]
      B [where port = 80 and flow = Tcp, unfolded f3] d by simp
qed

theorem plan_name_with_record_witness:
  "\<forall>env st. (case from_table toy_table [] of
      Inl e \<Rightarrow> False
    | Inr m \<Rightarrow> plan env m ''ids.SHIEP.edu.cn'' 443 Tcp st =
        (Remote ''10.166.35.11:443'' 205 ''ids'' DnsMap, st))"
proof -
  let ?r = "\<lparr>cr_rc_id = 205, cr_rc_name = ''ids'', cr_proto = 0, cr_svc = ''Other'',
      cr_matcher = Domain ''ids.shiep.edu.cn'', cr_port = \<lparr>pr_start = 1, pr_end = 65535\<rparr>\<rparr>"
  have f1: "parse_ipv4 (trim ''ids.SHIEP.edu.cn'') = None" by code_simp
  have f2: "find (rule_hits (Target_Domain (normalize_domain ''ids.SHIEP.edu.cn'')) 443 Tcp)
      (List.map_filter compile_rule (rt_rules toy_table)) = Some ?r"
    by code_simp
  have f3: "find (\<lambda>(i, h, _). i = cr_rc_id ?r \<and> h = normalize_domain ''ids.SHIEP.edu.cn'')
      (List.map_filter dns_triple (rt_dns_records toy_table)) =
      Some (205, ''ids.shiep.edu.cn'', Ipv4 10 166 35 11)"
    by code_simp
  obtain m where m: "from_table toy_table [] = Inr m" by (simp add: from_table_def Let_def)
  have "dial_ip (Ipv4 10 166 35 11) 443 = ''10.166.35.11:443''" by code_simp
  then show ?thesis
    using plan_name_with_record [OF f1 f2 f3, where extra_ips = "[]", unfolded m sum.case]
    unfolding m sum.case by simp
qed

end
