(* ===== verification/RouteDetails.thy ===== *)
theory RouteDetails
  imports Routing Output
begin

text \<open>
  \<^verbatim>\<open>log_table_details\<close> of \<^verbatim>\<open>ec-core/src/routing.rs\<close>: the report on a route table that \<^verbatim>\<open>--details\<close>
  writes to \<^verbatim>\<open>route-details.txt\<close>. How writing the file ends is a parameter.
\<close>

section \<open>The report\<close>

record details_hosts =
  dh_seen :: "string set"
  dh_ip_exact :: "string list"
  dh_ip_range :: "(string \<times> string) list"
  dh_domains :: "string list"

definition push_details_host :: "string \<Rightarrow> details_hosts \<Rightarrow> details_hosts" where
  "push_details_host host st =
     (if CHR ''~'' \<in> set host then
        (case split_once ''~'' host of
           Some (start, end_ip) \<Rightarrow> st\<lparr>dh_ip_range := dh_ip_range st @ [(trim start, trim end_ip)]\<rparr>
         | None \<Rightarrow> st)
      else if parse_ipv4 host \<noteq> None then st\<lparr>dh_ip_exact := dh_ip_exact st @ [host]\<rparr>
      else if to_ascii_lowercase (trim_end_dots host) \<noteq> [] then st\<lparr>dh_domains := dh_domains st @ [host]\<rparr>
      else st)"

fun details_rules_loop :: "details_hosts \<Rightarrow> route_rule list \<Rightarrow> details_hosts" where
  "details_rules_loop st [] = st"
| "details_rules_loop st (rule # rest) =
     (if rule_proto rule = 1 then details_rules_loop st rest
      else
        (let host = trim (rule_host rule) in
         if host = [] \<or> to_ascii_lowercase host \<in> dh_seen st then details_rules_loop st rest
         else details_rules_loop
           (push_details_host host (st\<lparr>dh_seen := insert (to_ascii_lowercase host) (dh_seen st)\<rparr>)) rest))"

text \<open>The arrow is U+2192, the line of a title U+2500.\<close>

definition dns_line :: "string \<times> string \<Rightarrow> string" where
  "dns_line r = fst r @ '' '' @ [CHR 0xE2, CHR 0x86, CHR 0x92] @ '' '' @ snd r"

fun details_dns_loop :: "(string \<times> string) set \<Rightarrow> string list \<Rightarrow> dns_record list \<Rightarrow> string list" where
  "details_dns_loop seen ls [] = ls"
| "details_dns_loop seen ls (r # rest) =
     (let host = to_ascii_lowercase (trim_end_dots (trim (rec_host r))); ip = trim (rec_ip r) in
      if host = [] \<or> ip = [] then details_dns_loop seen ls rest
      else if (host, ip) \<in> seen then details_dns_loop seen ls rest
      else details_dns_loop (insert (host, ip) seen) (ls @ [dns_line (host, ip)]) rest)"

definition title_bar :: string where
  "title_bar = [CHR 0xE2, CHR 0x94, CHR 0x80, CHR 0xE2, CHR 0x94, CHR 0x80]"

definition details_section :: "string \<Rightarrow> string list \<Rightarrow> string list" where
  "details_section title items =
     (if items = [] then []
      else (title_bar @ '' '' @ title @ '' ('' @ dec_of_nat (length items) @ '') '' @ title_bar)
        # map (\<lambda>item. ''  '' @ item) items)"

definition table_details :: "route_table \<Rightarrow> string list \<Rightarrow> string list" where
  "table_details table extra_ips =
     (let h = details_rules_loop \<lparr>dh_seen = {}, dh_ip_exact = [], dh_ip_range = [], dh_domains = []\<rparr> (rt_rules table) in
      details_section ''IP rules'' (dh_ip_exact h)
      @ details_section ''IP range rules'' (map (\<lambda>(start, end_ip). start @ '' ~ '' @ end_ip) (dh_ip_range h))
      @ details_section ''Domain rules'' (dh_domains h)
      @ details_section ''DNS records'' (details_dns_loop {} [] (rt_dns_records table))
      @ details_section ''Extra IPs'' extra_ips)"

text \<open>The log line, and the body of the file if it was written.\<close>

definition log_table_details :: "(bytes \<Rightarrow> io_error + unit) \<Rightarrow> route_table \<Rightarrow> string list
    \<Rightarrow> log_entry list \<times> string option" where
  "log_table_details write table extra_ips =
     (let body_lines = table_details table extra_ips in
      if body_lines = [] then ([], None)
      else
        (let body = join_with [char_of (10 :: nat)] body_lines in
         case write (bytes_of_str body) of
           Inr _ \<Rightarrow> ([(Level_Info, Scope_App, ''route table details written to route-details.txt'')], Some body)
         | Inl e \<Rightarrow> ([(Level_Warn, Scope_App, ''failed to write route-details.txt: '' @ io_text e)], None)))"

section \<open>What the report lists\<close>

definition details_host :: "route_rule \<Rightarrow> string option" where
  "details_host rule =
     (if rule_proto rule = 1 \<or> trim (rule_host rule) = [] then None else Some (trim (rule_host rule)))"

definition details_record :: "dns_record \<Rightarrow> (string \<times> string) option" where
  "details_record r =
     (let host = normalize_domain (rec_host r); ip = trim (rec_ip r) in
      if host = [] \<or> ip = [] then None else Some (host, ip))"

definition listed_range :: "string \<Rightarrow> (string \<times> string) option" where
  "listed_range host = map_option (map_prod trim trim) (split_once ''~'' host)"

definition listed_ip :: "string \<Rightarrow> bool" where
  "listed_ip host \<longleftrightarrow> CHR ''~'' \<notin> set host \<and> parse_ipv4 host \<noteq> None"

definition listed_domain :: "string \<Rightarrow> bool" where
  "listed_domain host \<longleftrightarrow> CHR ''~'' \<notin> set host \<and> parse_ipv4 host = None \<and> trim_end_dots host \<noteq> []"

lemma lower_Nil_iff [simp]: "to_ascii_lowercase s = [] \<longleftrightarrow> s = []"
  by (simp add: to_ascii_lowercase_def)

lemma find_sub_single: "find_sub [c] s = None \<longleftrightarrow> c \<notin> set s"
  by (induction s) auto

lemma push_details_host_eq:
  "push_details_host host st = st\<lparr>dh_ip_exact := dh_ip_exact st @ filter listed_ip [host],
     dh_ip_range := dh_ip_range st @ List.map_filter listed_range [host],
     dh_domains := dh_domains st @ filter listed_domain [host]\<rparr>"
  using find_sub_single [of "CHR ''~''" host]
  by (auto simp: push_details_host_def listed_ip_def listed_domain_def listed_range_def split_once_def
      List.map_filter_def)

lemma details_rules_loop_eq:
  "details_rules_loop st rules =
     (let hs = firsts_by to_ascii_lowercase (dh_seen st) (List.map_filter details_host rules) in
      st\<lparr>dh_seen := dh_seen st \<union> to_ascii_lowercase ` set hs, dh_ip_exact := dh_ip_exact st @ filter listed_ip hs,
         dh_ip_range := dh_ip_range st @ List.map_filter listed_range hs,
         dh_domains := dh_domains st @ filter listed_domain hs\<rparr>)"
proof (induction rules arbitrary: st)
  case Nil
  show ?case by (simp add: List.map_filter_simps)
next
  case (Cons rule rules)
  let ?h = "trim (rule_host rule)"
  show ?case
  proof (cases "rule_proto rule = 1 \<or> ?h = [] \<or> to_ascii_lowercase ?h \<in> dh_seen st")
    case True
    with Cons [of st] show ?thesis by (auto simp: details_host_def List.map_filter_simps Let_def)
  next
    case False
    then have "details_host rule = Some ?h" by (simp add: details_host_def)
    with False show ?thesis
      by (simp add: Cons push_details_host_eq List.map_filter_simps Let_def split: option.split)
  qed
qed

lemma details_dns_loop_eq:
  "details_dns_loop seen ls records = ls @ map dns_line (firsts_by id seen (List.map_filter details_record records))"
proof (induction seen ls records rule: details_dns_loop.induct)
  case (2 seen ls r rest)
  then show ?case
    by (auto simp: details_record_def normalize_domain_def List.map_filter_simps Let_def)
qed (simp add: List.map_filter_simps)

text \<open>
  The report of a route table: of the hosts of all rules but those of protocol 1, the first
  under each spelling up to case, split into addresses, ranges and domain names in the order of the
  table; of the DNS records the first of each normalized pair; and the extra addresses as given. A
  section without entries is left out.
\<close>

theorem table_details_lists:
  "table_details table extra_ips =
     (let hosts = firsts_by to_ascii_lowercase {} (List.map_filter details_host (rt_rules table));
          records = firsts_by id {} (List.map_filter details_record (rt_dns_records table)) in
      details_section ''IP rules'' (filter listed_ip hosts)
      @ details_section ''IP range rules''
          (map (\<lambda>(start, end_ip). start @ '' ~ '' @ end_ip) (List.map_filter listed_range hosts))
      @ details_section ''Domain rules'' (filter listed_domain hosts)
      @ details_section ''DNS records'' (map dns_line records)
      @ details_section ''Extra IPs'' extra_ips)"
  by (simp add: table_details_def details_rules_loop_eq details_dns_loop_eq Let_def)

end
