(* ===== verification/TunnelOpen.thy ===== *)
theory TunnelOpen
  imports RustIO Endpoint
begin

text \<open>
  \<^verbatim>\<open>ec-core/src/protocol.rs\<close>, first part: the parameters of the tunnel runtime, the reads with a
  deadline, and the opening of the two data streams with its retries. The TLS connection to the
  server (\<^verbatim>\<open>connect_vpn_tls\<close>, calls of the TLS library) and the option call that clears the read
  timeout are parameters (\<open>vpn_lib\<close>): the \<open>n\<close>-th connection attempt of the process takes some time
  and gives an error or a connection. \<open>vpn_time\<close> carries the clock (milliseconds) and the number
  of connection attempts made.
\<close>

definition STREAM_RETRY_LIMIT :: nat where "STREAM_RETRY_LIMIT = 5"
definition STREAM_RETRY_DELAY :: nat where "STREAM_RETRY_DELAY = 1000"
definition QUERY_IP_REPLY_TIMEOUT :: nat where "QUERY_IP_REPLY_TIMEOUT = 10000"
definition STREAM_HANDSHAKE_TIMEOUT :: nat where "STREAM_HANDSHAKE_TIMEOUT = 10000"

datatype stream_profile = Rx | Tx

datatype stream_open_kind = First | Resume

datatype stream_open_error = Open_Retryable ec_error | Open_Fatal ec_error

datatype stream_ack_reply = Expected | UnexpectedControl native_control | NonControl

record stream_open_retry =
  first_attempt :: nat
  delay_first_attempt :: bool
  phase :: string

fun first_op_code :: "stream_profile \<Rightarrow> u8" where
  "first_op_code Rx = 0x06"
| "first_op_code Tx = 0x05"

fun resume_op_code :: "stream_profile \<Rightarrow> u8" where
  "resume_op_code Rx = 0x07"
| "resume_op_code Tx = 0x08"

fun op_code :: "stream_profile \<Rightarrow> stream_open_kind \<Rightarrow> u8" where
  "op_code p First = first_op_code p"
| "op_code p Resume = resume_op_code p"

fun expected_ack :: "stream_profile \<Rightarrow> native_control" where
  "expected_ack Rx = RxAck"
| "expected_ack Tx = TxAck"

fun profile_label :: "stream_profile \<Rightarrow> string" where
  "profile_label Rx = ''rx''"
| "profile_label Tx = ''tx''"

fun action_label :: "stream_open_kind \<Rightarrow> string" where
  "action_label First = ''open''"
| "action_label Resume = ''resume''"

definition first_open_retry :: stream_open_retry where
  "first_open_retry = \<lparr>first_attempt = 0, delay_first_attempt = False, phase = ''open''\<rparr>"

definition reconnect_retry :: "nat \<Rightarrow> stream_open_retry" where
  "reconnect_retry first = \<lparr>first_attempt = first, delay_first_attempt = True, phase = ''reconnect''\<rparr>"

fun open_error :: "stream_open_error \<Rightarrow> ec_error" where
  "open_error (Open_Retryable err) = err"
| "open_error (Open_Fatal err) = err"

fun is_fatal :: "stream_open_error \<Rightarrow> bool" where
  "is_fatal (Open_Fatal _) \<longleftrightarrow> True"
| "is_fatal (Open_Retryable _) \<longleftrightarrow> False"

section \<open>Reads with a deadline\<close>

function read_at_least_loop :: "nat \<Rightarrow> nat \<Rightarrow> nat \<Rightarrow> bytes \<Rightarrow> stream \<Rightarrow> bytes ec_result \<times> stream" where
  "read_at_least_loop deadline buf_len min_len got s =
     (if length got < min_len \<and> length got < buf_len then
        (if deadline \<le> clock s then (Inr got, s)
         else
           (case io_read (buf_len - length got) s of
              (Inr bs, s') \<Rightarrow>
                if bs = [] then (Inr got, s')
                else read_at_least_loop deadline buf_len min_len (got @ bs) s'
            | (Inl e, s') \<Rightarrow>
                if is_wouldblock_or_timeout e then read_at_least_loop deadline buf_len min_len got s'
                else (Inl (io_err ''stream read failed: '' e), s')))
      else (Inr got, s))"
  by pat_completeness auto
termination
  by (relation "measure (\<lambda>(deadline, buf_len, min_len, got, s). script_size s)")
     (auto dest: io_read_decreases [OF sym])

declare read_at_least_loop.simps [simp del]

definition read_at_least :: "stream \<Rightarrow> nat \<Rightarrow> nat \<Rightarrow> nat \<Rightarrow> bytes ec_result \<times> stream" where
  "read_at_least s buf_len min_len timeout =
     read_at_least_loop (clock s + timeout) buf_len min_len [] s"

function read_once_loop :: "nat \<Rightarrow> nat \<Rightarrow> stream \<Rightarrow> bytes ec_result \<times> stream" where
  "read_once_loop deadline buf_len s =
     (if deadline \<le> clock s then (Inr [], s)
      else
        (case io_read buf_len s of
           (Inr bs, s') \<Rightarrow> (Inr bs, s')
         | (Inl e, s') \<Rightarrow>
             if is_wouldblock_or_timeout e then read_once_loop deadline buf_len s'
             else (Inl (io_err ''stream read failed: '' e), s')))"
  by pat_completeness auto
termination
  by (relation "measure (\<lambda>(deadline, buf_len, s). length (incoming s))")
     (auto dest: io_read_error [OF sym])

declare read_once_loop.simps [simp del]

definition read_stream_once :: "stream \<Rightarrow> nat \<Rightarrow> nat \<Rightarrow> bytes ec_result \<times> stream" where
  "read_stream_once s buf_len timeout = read_once_loop (clock s + timeout) buf_len s"

section \<open>The acknowledgement of a data stream\<close>

fun u8_try_from :: "u32 \<Rightarrow> u8 option" where
  "u8_try_from v = (if v < 256 then Some (ucast v) else None)"

fun first_byte :: "bytes \<Rightarrow> u8 option" where
  "first_byte [] = None"
| "first_byte (b # bs) = Some b"

definition legacy_stream_ack_matches :: "bytes \<Rightarrow> native_control \<Rightarrow> bool" where
  "legacy_stream_ack_matches reply ack \<longleftrightarrow> first_byte reply = u8_try_from (control_code ack)"

definition control_ack :: "native_control \<Rightarrow> native_control \<Rightarrow> stream_ack_reply" where
  "control_ack ack control = (if control = ack then Expected else UnexpectedControl control)"

definition classify_stream_ack_reply :: "bytes \<Rightarrow> native_control \<Rightarrow> stream_ack_reply" where
  "classify_stream_ack_reply reply ack =
     (case parse_native_control_frame reply of
        Some control \<Rightarrow> control_ack ack control
      | None \<Rightarrow>
          if legacy_stream_ack_matches reply ack then Expected
          else if length reply = COMMAND_REPLY_BODY_EXPECTED_LEN then
            (case parse_command_control_reply reply of
               Inr control \<Rightarrow> control_ack ack control
             | Inl _ \<Rightarrow> NonControl)
          else NonControl)"

definition is_terminal_stream_control :: "native_control \<Rightarrow> bool" where
  "is_terminal_stream_control control \<longleftrightarrow> control \<in> {Shutdown, IpKick, IpConflict}"

definition control_text :: "native_control \<Rightarrow> string" where
  "control_text control = control_label control @ ''('' @ dec_of_nat (unat (control_code control)) @ '')''"

definition stream_control_rejected_err ::
  "stream_profile \<Rightarrow> stream_open_kind \<Rightarrow> u8 \<Rightarrow> native_control \<Rightarrow> ec_error" where
  "stream_control_rejected_err profile kind op control =
     Runtime (profile_label profile @ '' stream '' @ action_label kind @ '' rejected by server: ''
              @ control_text control @ ''; op: 0x'' @ hex2 op)"

definition unexpected_stream_ack_err :: "stream_profile \<Rightarrow> u8 \<Rightarrow> native_control \<Rightarrow> string \<Rightarrow> ec_error" where
  "unexpected_stream_ack_err profile op ack got =
     Runtime (''unexpected '' @ profile_label profile @ '' stream handshake ack; expected: ''
              @ control_text ack @ ''; got: '' @ got @ ''; op: 0x'' @ hex2 op)"

definition validate_stream_ack ::
  "stream_profile \<Rightarrow> stream_open_kind \<Rightarrow> u8 \<Rightarrow> native_control \<Rightarrow> bytes \<Rightarrow> stream_open_error + unit" where
  "validate_stream_ack profile kind op ack reply =
     (case classify_stream_ack_reply reply ack of
        Expected \<Rightarrow> Inr ()
      | UnexpectedControl control \<Rightarrow>
          Inl (if is_terminal_stream_control control then
                 Open_Fatal (stream_control_rejected_err profile kind op control)
               else
                 Open_Retryable (unexpected_stream_ack_err profile op ack (control_text control)))
      | NonControl \<Rightarrow>
          Inl (Open_Retryable (unexpected_stream_ack_err profile op ack
                 (''non-control-frame len='' @ dec_of_nat (length reply)))))"

section \<open>Opening a stream, with retries\<close>

record vpn_lib =
  vl_connect :: "string \<Rightarrow> string \<Rightarrow> nat \<Rightarrow> nat \<times> stream ec_result"
  vl_clear_read_timeout :: "stream \<Rightarrow> io_error + unit"

record vpn_time =
  vt_now :: nat
  vt_connects :: nat

record tunnel_params =
  tp_authority :: string
  tp_host :: string
  tp_token :: bytes
  tp_assigned_ip :: bytes
  tp_ip_rev :: bytes
  tp_heartbeat_dst :: bytes
  tp_heartbeat_tail :: bytes

definition connect_vpn_tls :: "vpn_lib \<Rightarrow> string \<Rightarrow> string \<Rightarrow> vpn_time \<Rightarrow> stream ec_result \<times> vpn_time" where
  "connect_vpn_tls L authority host t =
     (case vl_connect L authority host (vt_connects t) of (d, r) \<Rightarrow>
        (map_sum id (clock_update (\<lambda>_. vt_now t + d)) r,
         \<lparr>vt_now = vt_now t + d, vt_connects = Suc (vt_connects t)\<rparr>))"

definition clear_data_stream_read_timeout :: "vpn_lib \<Rightarrow> stream \<Rightarrow> stream_profile \<Rightarrow> unit ec_result" where
  "clear_data_stream_read_timeout L s profile =
     try_map (io_err (''clear '' @ profile_label profile @ '' stream read timeout failed: ''))
       (vl_clear_read_timeout L s) Inr"

definition stream_handshake ::
  "vpn_lib \<Rightarrow> bytes \<Rightarrow> bytes \<Rightarrow> stream_profile \<Rightarrow> stream_open_kind \<Rightarrow> stream \<Rightarrow> (stream_open_error + unit) \<times> stream" where
  "stream_handshake L token ip_rev profile kind s =
     (let op = op_code profile kind; ack = expected_ack profile in
      try_io (\<lambda>e. Open_Retryable (io_err ''stream handshake write failed: '' e))
        (write_all (build_stream_handshake_message op token ip_rev) s) (\<lambda>_ s.
      try_io Open_Retryable (read_stream_once s 1500 STREAM_HANDSHAKE_TIMEOUT) (\<lambda>reply s.
        if reply = [] then
          (Inl (Open_Retryable (Runtime (profile_label profile
             @ '' stream handshake reply is empty or timed out; op: 0x'' @ hex2 op))), s)
        else
          (try_map id (validate_stream_ack profile kind op ack reply) (\<lambda>_.
             try_map Open_Retryable (clear_data_stream_read_timeout L s profile) Inr), s))))"

definition open_data_stream :: "vpn_lib \<Rightarrow> string \<Rightarrow> string \<Rightarrow> bytes \<Rightarrow> bytes \<Rightarrow> stream_profile
    \<Rightarrow> stream_open_kind \<Rightarrow> vpn_time \<Rightarrow> (stream_open_error + stream) \<times> vpn_time" where
  "open_data_stream L authority host token ip_rev profile kind t =
     try_io Open_Retryable (connect_vpn_tls L authority host t) (\<lambda>s t.
       (case stream_handshake L token ip_rev profile kind s of (r, s) \<Rightarrow>
          (try_map id r (\<lambda>_. Inr s), t\<lparr>vt_now := clock s\<rparr>)))"

definition retry_limit_error :: "stream_profile \<Rightarrow> string \<Rightarrow> string option \<Rightarrow> ec_error" where
  "retry_limit_error profile phase_text last_error =
     Runtime (profile_label profile @ '' stream reached retry limit during '' @ phase_text
              @ (case last_error of None \<Rightarrow> [] | Some err \<Rightarrow> ''; last error: '' @ err))"

text \<open>The loop over the attempts; \<open>try_open\<close> is one \<^verbatim>\<open>open_data_stream\<close>.\<close>

function open_loop :: "(vpn_time \<Rightarrow> (stream_open_error + stream) \<times> vpn_time) \<Rightarrow> stream_profile
    \<Rightarrow> stream_open_retry \<Rightarrow> nat \<Rightarrow> string option \<Rightarrow> vpn_time \<Rightarrow> stream ec_result \<times> vpn_time" where
  "open_loop try_open profile retry attempt last_error t =
     (if attempt \<le> STREAM_RETRY_LIMIT then
        (let t = (if delay_first_attempt retry \<or> first_attempt retry < attempt
                  then t\<lparr>vt_now := vt_now t + STREAM_RETRY_DELAY\<rparr> else t)
         in case try_open t of
              (Inr s, t) \<Rightarrow> (Inr s, t)
            | (Inl err, t) \<Rightarrow>
                let concise = concise_error (open_error err) in
                if is_fatal err then (Inl (open_error err), t)
                else open_loop try_open profile retry (attempt + 1) (Some concise) t)
      else (Inl (retry_limit_error profile (phase retry) last_error), t))"
  by pat_completeness auto
termination
  by (relation "measure (\<lambda>(try_open, profile, retry, attempt, last, t). Suc STREAM_RETRY_LIMIT - attempt)")
     auto

declare open_loop.simps [simp del]

definition open_data_stream_with_retries :: "vpn_lib \<Rightarrow> string \<Rightarrow> string \<Rightarrow> bytes \<Rightarrow> bytes \<Rightarrow> stream_profile
    \<Rightarrow> stream_open_kind \<Rightarrow> stream_open_retry \<Rightarrow> vpn_time \<Rightarrow> stream ec_result \<times> vpn_time" where
  "open_data_stream_with_retries L authority host token ip_rev profile kind retry t =
     open_loop (open_data_stream L authority host token ip_rev profile kind) profile retry
       (first_attempt retry) None t"

definition open_stream :: "vpn_lib \<Rightarrow> tunnel_params \<Rightarrow> stream_profile \<Rightarrow> vpn_time \<Rightarrow> stream ec_result \<times> vpn_time" where
  "open_stream L P profile t =
     open_data_stream_with_retries L (tp_authority P) (tp_host P) (tp_token P) (tp_ip_rev P)
       profile First first_open_retry t"

definition reopen_stream :: "vpn_lib \<Rightarrow> tunnel_params \<Rightarrow> stream_profile \<Rightarrow> nat \<Rightarrow> vpn_time \<Rightarrow> stream ec_result \<times> vpn_time" where
  "reopen_stream L P profile retries t =
     open_data_stream_with_retries L (tp_authority P) (tp_host P) (tp_token P) (tp_ip_rev P)
       profile Resume (reconnect_retry retries) t"

section \<open>The retries against a reference\<close>

text \<open>
  The reference: the outcome of the \<open>k\<close>-th attempt if every attempt is made, each after the first
  (and the first too, if \<open>delay\<close>) one second after the end of the one before it.
\<close>

definition pause :: "bool \<Rightarrow> vpn_time \<Rightarrow> vpn_time" where
  "pause delay t = (if delay then t\<lparr>vt_now := vt_now t + STREAM_RETRY_DELAY\<rparr> else t)"

fun nth_attempt :: "(vpn_time \<Rightarrow> 'r \<times> vpn_time) \<Rightarrow> bool \<Rightarrow> nat \<Rightarrow> vpn_time \<Rightarrow> 'r \<times> vpn_time" where
  "nth_attempt f delay 0 t = f (pause delay t)"
| "nth_attempt f delay (Suc k) t = f (pause True (snd (nth_attempt f delay k t)))"

definition decisive :: "stream_open_error + 'a \<Rightarrow> bool" where
  "decisive r \<longleftrightarrow> (case r of Inr _ \<Rightarrow> True | Inl e \<Rightarrow> is_fatal e)"

definition error_text :: "stream_open_error + 'a \<Rightarrow> string option" where
  "error_text r = (case r of Inr _ \<Rightarrow> None | Inl e \<Rightarrow> Some (concise_error (open_error e)))"

definition first_decisive :: "(vpn_time \<Rightarrow> (stream_open_error + stream) \<times> vpn_time) \<Rightarrow> stream_profile
    \<Rightarrow> string \<Rightarrow> bool \<Rightarrow> nat \<Rightarrow> string option \<Rightarrow> vpn_time \<Rightarrow> stream ec_result \<times> vpn_time" where
  "first_decisive f profile phase_text delay n prev t =
     (case find (\<lambda>k. decisive (fst (nth_attempt f delay k t))) [0..<n] of
        Some k \<Rightarrow> map_prod (map_sum open_error id) id (nth_attempt f delay k t)
      | None \<Rightarrow>
          if n = 0 then (Inl (retry_limit_error profile phase_text prev), t)
          else (Inl (retry_limit_error profile phase_text (error_text (fst (nth_attempt f delay (n - 1) t)))),
                snd (nth_attempt f delay (n - 1) t)))"

lemma find_map: "find P (map f xs) = map_option f (find (P \<circ> f) xs)"
  by (induction xs) auto

lemma find_upt_Suc:
  "find P [0..<Suc n] = (if P 0 then Some 0 else map_option Suc (find (\<lambda>k. P (Suc k)) [0..<n]))"
proof -
  have "[0..<Suc n] = 0 # map Suc [0..<n]" by (simp add: upt_conv_Cons map_Suc_upt del: upt_Suc)
  then show ?thesis by (simp add: find_map comp_def del: upt_Suc)
qed

lemma nth_attempt_shift:
  "nth_attempt f delay (Suc k) t = nth_attempt f True k (snd (f (pause delay t)))"
  by (induction k) simp_all

lemma first_decisive_Suc:
  "first_decisive f p ph delay (Suc n) prev t =
     (case f (pause delay t) of
        (Inr s, t') \<Rightarrow> (Inr s, t')
      | (Inl e, t') \<Rightarrow>
          if is_fatal e then (Inl (open_error e), t')
          else first_decisive f p ph True n (Some (concise_error (open_error e))) t')"
proof (cases "f (pause delay t)")
  case (Pair r t')
  show ?thesis
  proof (cases "decisive r")
    case True
    then have "find (\<lambda>k. decisive (fst (nth_attempt f delay k t))) [0..<Suc n] = Some 0"
      using Pair by (simp add: find_upt_Suc del: upt_Suc)
    with True Pair show ?thesis
      by (cases r) (simp_all add: first_decisive_def decisive_def del: upt_Suc)
  next
    case False
    then obtain e where e: "r = Inl e" "\<not> is_fatal e" by (cases r) (auto simp: decisive_def)
    have shift: "nth_attempt f delay (Suc k) t = nth_attempt f True k t'" for k
      using Pair nth_attempt_shift [of f delay k t] by simp
    have found: "find (\<lambda>k. decisive (fst (nth_attempt f delay k t))) [0..<Suc n] =
        map_option Suc (find (\<lambda>k. decisive (fst (nth_attempt f True k t'))) [0..<n])"
      using Pair False by (simp add: find_upt_Suc shift del: upt_Suc nth_attempt.simps(2))
    have nth: "nth_attempt f delay n t = nth_attempt f True (n - 1) t'" if "n \<noteq> 0"
      using shift [of "n - 1"] that by simp
    show ?thesis
    proof (cases "n = 0")
      case True
      with Pair e False show ?thesis
        by (simp add: first_decisive_def error_text_def)
    next
      case n: False
      with Pair e nth show ?thesis
        by (cases "find (\<lambda>k. decisive (fst (nth_attempt f True k t'))) [0..<n]")
           (simp_all add: first_decisive_def found shift del: upt_Suc nth_attempt.simps(2))
    qed
  qed
qed

lemma open_loop_first_decisive:
  "open_loop f p r a prev t =
     first_decisive f p (phase r) (delay_first_attempt r \<or> first_attempt r < a) (Suc STREAM_RETRY_LIMIT - a) prev t"
  if "first_attempt r \<le> a"
  using that
proof (induction f p r a prev t rule: open_loop.induct)
  case (1 f p r a prev t)
  show ?case
  proof (cases "a \<le> STREAM_RETRY_LIMIT")
    case False
    then show ?thesis by (simp add: open_loop.simps [of f p r a] first_decisive_def)
  next
    case True
    then have n: "Suc STREAM_RETRY_LIMIT - a = Suc (STREAM_RETRY_LIMIT - a)" by simp
    let ?d = "delay_first_attempt r \<or> first_attempt r < a"
    obtain res t' where res: "f (pause ?d t) = (res, t')" by fastforce
    then have run: "f (if ?d then t\<lparr>vt_now := vt_now t + STREAM_RETRY_DELAY\<rparr> else t) = (res, t')"
      by (simp add: pause_def)
    have lt: "first_attempt r < Suc a" using "1.prems" by simp
    show ?thesis
    proof (cases res)
      case (Inr s)
      with True run res show ?thesis
        unfolding n first_decisive_Suc by (simp add: open_loop.simps [of f p r a] Let_def)
    next
      case (Inl e)
      with True run res lt "1.IH" [OF True refl run [symmetric] Inl refl] "1.prems" show ?thesis
        unfolding n first_decisive_Suc by (simp add: open_loop.simps [of f p r a] Let_def)
    qed
  qed
qed

lemma read_once_loop_clock: "read_once_loop deadline n s = (r, s') \<Longrightarrow> clock s \<le> clock s'"
proof (induction deadline n s arbitrary: r s' rule: read_once_loop.induct)
  case (1 deadline n s)
  obtain res s1 where io: "io_read n s = (res, s1)" by fastforce
  show ?case
    using "1.prems" io io_read_clockD [OF io] "1.IH" [OF _ io [symmetric]]
    by (cases res) (fastforce simp: read_once_loop.simps [of deadline n s] split: if_splits)+
qed

lemma stream_handshake_clock: "stream_handshake L token ip_rev profile kind s = (r, s') \<Longrightarrow> clock s \<le> clock s'"
  by (auto simp: stream_handshake_def Let_def try_io_def read_stream_once_def
      dest!: write_all_clockD read_once_loop_clock split: prod.splits sum.splits if_splits)

lemma open_data_stream_time:
  "open_data_stream L authority host token ip_rev profile kind t = (r, t') \<Longrightarrow>
   vt_connects t' = Suc (vt_connects t) \<and> vt_now t \<le> vt_now t'"
  by (cases "vl_connect L authority host (vt_connects t)"; cases "snd (vl_connect L authority host (vt_connects t))")
     (auto simp: open_data_stream_def connect_vpn_tls_def dest!: stream_handshake_clock split: prod.splits)

lemma nth_attempt_time:
  assumes "\<And>t r t'. f t = (r, t') \<Longrightarrow> vt_connects t' = Suc (vt_connects t) \<and> vt_now t \<le> vt_now t'"
  shows "vt_connects (snd (nth_attempt f delay k t)) = vt_connects t + Suc k \<and>
    vt_now t + STREAM_RETRY_DELAY * k \<le> vt_now (snd (nth_attempt f delay k t))"
proof -
  have step: "vt_connects (snd (f t)) = Suc (vt_connects t)" "vt_now t \<le> vt_now (snd (f t))" for t
    using assms [of t "fst (f t)" "snd (f t)"] by simp_all
  show ?thesis
  proof (induction k)
    case 0
    show ?case using step [of "pause delay t"] by (auto simp: pause_def split: if_splits)
  next
    case (Suc k)
    with step [of "pause True (snd (nth_attempt f delay k t))"] show ?case by (simp add: pause_def)
  qed
qed

lemma first_decisive_time:
  assumes "\<And>t r t'. f t = (r, t') \<Longrightarrow> vt_connects t' = Suc (vt_connects t) \<and> vt_now t \<le> vt_now t'"
  shows "case first_decisive f p ph delay n prev t of (r, t') \<Rightarrow>
    \<exists>k \<le> n. vt_connects t' = vt_connects t + k \<and> vt_now t + STREAM_RETRY_DELAY * (k - 1) \<le> vt_now t'"
proof -
  have time: "vt_connects (snd (nth_attempt f delay k t)) = vt_connects t + Suc k"
    "vt_now t + STREAM_RETRY_DELAY * k \<le> vt_now (snd (nth_attempt f delay k t))" for k
    using nth_attempt_time [of f delay k t] assms by blast+
  show ?thesis
  proof (cases "find (\<lambda>k. decisive (fst (nth_attempt f delay k t))) [0..<n]")
    case None
    show ?thesis
    proof (cases n)
      case 0
      then show ?thesis by (simp add: first_decisive_def)
    next
      case (Suc m)
      have "first_decisive f p ph delay n prev t =
          (Inl (retry_limit_error p ph (error_text (fst (nth_attempt f delay m t)))), snd (nth_attempt f delay m t))"
        using None Suc by (simp add: first_decisive_def del: upt_Suc)
      with Suc time [of m] show ?thesis by (auto intro!: exI [of _ n])
    qed
  next
    case (Some k)
    then have "k < n" by (auto simp: find_Some_iff)
    with Some time [of k] show ?thesis
      by (cases "nth_attempt f delay k t") (auto simp: first_decisive_def intro!: exI [of _ "Suc k"])
  qed
qed

text \<open>
  \<^bold>\<open>C18.\<close> Opening a data stream with retries is the reference: of at most six minus
  \<open>first_attempt\<close> attempts, one second apart, the first that opens the stream or is refused for good
  decides the result, and otherwise the result is the retry-limit error with the text of the last
  failure. So it always returns, after no more than that many connection attempts, and between the
  first and the last of \<open>k\<close> attempts at least \<open>k - 1\<close> seconds pass.
\<close>

theorem open_retries_first_decisive:
  "open_data_stream_with_retries L authority host token ip_rev profile kind retry t =
     first_decisive (open_data_stream L authority host token ip_rev profile kind) profile (phase retry)
       (delay_first_attempt retry) (6 - first_attempt retry) None t \<and>
   (case open_data_stream_with_retries L authority host token ip_rev profile kind retry t of (r, t') \<Rightarrow>
     \<exists>k \<le> 6 - first_attempt retry. vt_connects t' = vt_connects t + k \<and>
       vt_now t + 1000 * (k - 1) \<le> vt_now t')"
proof -
  let ?f = "open_data_stream L authority host token ip_rev profile kind"
  have eq: "open_data_stream_with_retries L authority host token ip_rev profile kind retry t =
      first_decisive ?f profile (phase retry) (delay_first_attempt retry) (6 - first_attempt retry) None t"
    by (simp add: open_data_stream_with_retries_def open_loop_first_decisive STREAM_RETRY_LIMIT_def)
  from first_decisive_time [OF open_data_stream_time [of L authority host token ip_rev profile kind]] eq
  show ?thesis by (simp add: STREAM_RETRY_DELAY_def)
qed

section \<open>When a stream counts as open\<close>

lemma handshake_message_layout:
  "length token = 48 \<Longrightarrow> length ip_rev = 4 \<Longrightarrow>
   build_stream_handshake_message op token ip_rev = [op, 0, 0, 0] @ token @ replicate 8 0 @ ip_rev"
  by (auto simp: build_stream_handshake_message_def copy_slice_def numeral_eq_Suc replicate_add [symmetric])

text \<open>
  The exchange of one attempt: the connection made, the handshake message written to it, and the
  reply that one read within ten seconds gave.
\<close>

definition server_replied :: "vpn_lib \<Rightarrow> string \<Rightarrow> string \<Rightarrow> bytes \<Rightarrow> bytes \<Rightarrow> stream_profile
    \<Rightarrow> stream_open_kind \<Rightarrow> vpn_time \<Rightarrow> bytes \<Rightarrow> stream \<Rightarrow> bool" where
  "server_replied L authority host token ip_rev profile kind t reply s \<longleftrightarrow>
     (\<exists>s0 t0 s1. connect_vpn_tls L authority host t = (Inr s0, t0) \<and>
        write_all (build_stream_handshake_message (op_code profile kind) token ip_rev) s0 = (Inr (), s1) \<and>
        read_stream_once s1 1500 10000 = (Inr reply, s) \<and> reply \<noteq> [])"

lemma stream_handshake_Inr:
  "stream_handshake L token ip_rev profile kind s0 = (Inr (), s) \<Longrightarrow>
   \<exists>s1 reply. write_all (build_stream_handshake_message (op_code profile kind) token ip_rev) s0 = (Inr (), s1) \<and>
     read_stream_once s1 1500 10000 = (Inr reply, s) \<and> reply \<noteq> [] \<and>
     classify_stream_ack_reply reply (expected_ack profile) = Expected"
  by (auto simp: stream_handshake_def Let_def try_io_Inr_iff try_map_Inr_iff validate_stream_ack_def
      STREAM_HANDSHAKE_TIMEOUT_def split: if_splits stream_ack_reply.splits)

lemma validate_fatal_iff:
  "validate_stream_ack p k op ack reply = Inl e \<Longrightarrow> is_fatal e \<longleftrightarrow>
   (\<exists>c. classify_stream_ack_reply reply ack = UnexpectedControl c \<and> is_terminal_stream_control c)"
  by (auto simp: validate_stream_ack_def split: stream_ack_reply.splits if_splits)

lemma stream_handshake_fatal_iff:
  assumes "stream_handshake L token ip_rev profile kind s0 = (Inl e, s)"
  shows "is_fatal e \<longleftrightarrow>
   (\<exists>s1 s2 reply c. write_all (build_stream_handshake_message (op_code profile kind) token ip_rev) s0 = (Inr (), s1) \<and>
     read_stream_once s1 1500 10000 = (Inr reply, s2) \<and> reply \<noteq> [] \<and>
     classify_stream_ack_reply reply (expected_ack profile) = UnexpectedControl c \<and> is_terminal_stream_control c)"
proof -
  obtain w s1 where w: "write_all (build_stream_handshake_message (op_code profile kind) token ip_rev) s0 = (w, s1)"
    by fastforce
  obtain r s2 where r: "read_stream_once s1 1500 10000 = (r, s2)" by fastforce
  show ?thesis
  proof (cases "\<exists>reply. w = Inr () \<and> r = Inr reply \<and> reply \<noteq> []")
    case False
    with assms w r show ?thesis
      by (cases w; cases r)
         (auto simp: stream_handshake_def Let_def STREAM_HANDSHAKE_TIMEOUT_def split: if_splits)
  next
    case True
    then obtain reply where reply: "w = Inr ()" "r = Inr reply" "reply \<noteq> []" by blast
    with assms w r have s: "s = s2"
      and e: "try_map id (validate_stream_ack profile kind (op_code profile kind) (expected_ack profile) reply)
          (\<lambda>_. try_map Open_Retryable (clear_data_stream_read_timeout L s2 profile) Inr) = Inl e"
      by (auto simp: stream_handshake_def Let_def STREAM_HANDSHAKE_TIMEOUT_def)
    show ?thesis
    proof (cases "validate_stream_ack profile kind (op_code profile kind) (expected_ack profile) reply")
      case (Inl e')
      with e have "e' = e" by simp
      with validate_fatal_iff [OF Inl] w r reply s show ?thesis by auto
    next
      case (Inr u)
      then have "classify_stream_ack_reply reply (expected_ack profile) = Expected"
        by (auto simp: validate_stream_ack_def split: stream_ack_reply.splits)
      moreover from Inr e have "\<not> is_fatal e" by (auto simp: try_map_Inl_iff)
      ultimately show ?thesis using w r reply s by auto
    qed
  qed
qed

text \<open>
  \<^bold>\<open>C19.\<close> A data stream is used only after the server acknowledged it: an attempt that opens a
  stream wrote the 64-byte handshake message with the operation code of the stream and read, within
  ten seconds, a reply that is the expected acknowledgement; an attempt is refused for good exactly
  when the reply carries shutdown, IP kick or IP conflict; and every attempt makes one connection.
\<close>

theorem data_stream_opened_after_ack:
  "case open_data_stream L authority host token ip_rev profile kind t of (r, t') \<Rightarrow>
     vt_connects t' = Suc (vt_connects t) \<and>
     (case r of
        Inr s \<Rightarrow> \<exists>reply. server_replied L authority host token ip_rev profile kind t reply s \<and>
          classify_stream_ack_reply reply (expected_ack profile) = Expected
      | Inl e \<Rightarrow> is_fatal e = (\<exists>reply s c. server_replied L authority host token ip_rev profile kind t reply s \<and>
          classify_stream_ack_reply reply (expected_ack profile) = UnexpectedControl c \<and>
          c \<in> {Shutdown, IpKick, IpConflict}))"
proof -
  obtain r t' where res: "open_data_stream L authority host token ip_rev profile kind t = (r, t')" by fastforce
  obtain c t0 where con: "connect_vpn_tls L authority host t = (c, t0)" by fastforce
  have "case r of
        Inr s \<Rightarrow> \<exists>reply. server_replied L authority host token ip_rev profile kind t reply s \<and>
          classify_stream_ack_reply reply (expected_ack profile) = Expected
      | Inl e \<Rightarrow> is_fatal e = (\<exists>reply s c. server_replied L authority host token ip_rev profile kind t reply s \<and>
          classify_stream_ack_reply reply (expected_ack profile) = UnexpectedControl c \<and>
          c \<in> {Shutdown, IpKick, IpConflict})"
  proof (cases c)
    case (Inl e)
    with res con have "r = Inl (Open_Retryable e)" by (simp add: open_data_stream_def)
    with Inl con show ?thesis by (simp add: server_replied_def)
  next
    case (Inr s0)
    obtain h s where h: "stream_handshake L token ip_rev profile kind s0 = (h, s)" by fastforce
    with Inr res con have r: "r = try_map id h (\<lambda>_. Inr s)" by (simp add: open_data_stream_def)
    show ?thesis
    proof (cases h)
      case (Inl e)
      with stream_handshake_fatal_iff [of L token ip_rev profile kind s0 e s] h r con \<open>c = Inr s0\<close> show ?thesis
        by (simp add: server_replied_def is_terminal_stream_control_def) blast
    next
      case (Inr u)
      with stream_handshake_Inr [of L token ip_rev profile kind s0 s] h r con \<open>c = Inr s0\<close> show ?thesis
        by (auto simp: server_replied_def)
    qed
  qed
  with res open_data_stream_time [OF res] show ?thesis by simp
qed

end
