(* ===== verification/TunnelRuntime.thy ===== *)
theory TunnelRuntime
  imports TunnelOpen
begin

text \<open>
  \<^verbatim>\<open>ec-core/src/protocol.rs\<close>, second part: the command stream and its heartbeat, the receiving and
  the sending worker, the statics of the file as a record, and the tunnel as a transition system in
  which the three threads interleave. One iteration of each worker's loop is a function from its
  state to a result, if the loop ends, and the state after it. A poisoned mutex (a thread that
  panicked with the lock held) is not modelled.
\<close>

definition TX_HEARTBEAT_INTERVAL :: nat where "TX_HEARTBEAT_INTERVAL = 12000"
definition COMMAND_HEARTBEAT_INTERVAL :: nat where "COMMAND_HEARTBEAT_INTERVAL = 30000"
definition COMMAND_HEARTBEAT_TIMEOUT :: nat where "COMMAND_HEARTBEAT_TIMEOUT = 10000"
definition COMMAND_HEARTBEAT_RETRY_DELAY :: nat where "COMMAND_HEARTBEAT_RETRY_DELAY = 1000"
definition COMMAND_HEARTBEAT_FAILURE_LIMIT :: nat where "COMMAND_HEARTBEAT_FAILURE_LIMIT = 3"
definition RUNTIME_ALREADY_STARTED :: string where
  "RUNTIME_ALREADY_STARTED = ''tunnel runtime already started in this process''"

datatype command_heartbeat_failure = Hb_Retryable string | Hb_Fatal string

datatype command_heartbeat_outcome = Hb_Ack | Hb_Outcome_Fatal string

record tunnel_ips =
  ti_assigned_ip :: bytes
  ti_lan_ip :: bytes

definition tunnel_ips_of :: "send_ip_reply \<Rightarrow> tunnel_ips" where
  "tunnel_ips_of reply = \<lparr>ti_assigned_ip = assigned_ip reply, ti_lan_ip = lan_ip reply\<rparr>"

section \<open>Parameters of the runtime\<close>

definition splitmix64 :: "u64 \<Rightarrow> u64" where
  "splitmix64 x =
     (let x = x + 0x9e3779b97f4a7c15;
          x = (x XOR drop_bit 30 x) * 0xbf58476d1ce4e5b9;
          x = (x XOR drop_bit 27 x) * 0x94d049bb133111eb
      in x XOR drop_bit 31 x)"

fun u64_of_le :: "bytes \<Rightarrow> u64" where
  "u64_of_le [] = 0"
| "u64_of_le (b # bs) = ucast b OR push_bit 8 (u64_of_le bs)"

definition u64_to_le :: "u64 \<Rightarrow> bytes" where
  "u64_to_le w = map (\<lambda>i. ucast (drop_bit (8 * i) w)) [0..<8]"

function chunks8 :: "'a list \<Rightarrow> 'a list list" where
  "chunks8 xs = (if xs = [] then [] else take 8 xs # chunks8 (drop 8 xs))"
  by pat_completeness auto
termination by (relation "measure length") auto

declare chunks8.simps [simp del]

definition mix_chunk :: "u64 \<Rightarrow> bytes \<Rightarrow> u64" where
  "mix_chunk seed chunk = splitmix64 (seed XOR word_rotl 13 (u64_of_le (chunk @ replicate (8 - length chunk) 0)))"

text \<open>\<open>nanos\<close> is the time since the epoch, \<open>pid\<close> the id of the process.\<close>

definition new_heartbeat_tail :: "nat \<Rightarrow> u32 \<Rightarrow> bytes \<Rightarrow> bytes \<Rightarrow> bytes" where
  "new_heartbeat_tail nanos pid token assigned =
     (let now = word_of_nat nanos :: u64;
          seed = now XOR push_bit 32 (ucast pid)
                 XOR ucast (u32_be (assigned ! 0) (assigned ! 1) (assigned ! 2) (assigned ! 3))
      in u64_to_le (splitmix64 (foldl mix_chunk seed (chunks8 token))))"

definition new_params :: "nat \<Rightarrow> u32 \<Rightarrow> string \<Rightarrow> string \<Rightarrow> bytes \<Rightarrow> tunnel_ips \<Rightarrow> tunnel_params" where
  "new_params nanos pid authority host token ips =
     \<lparr>tp_authority = authority, tp_host = host, tp_token = token,
      tp_assigned_ip = ti_assigned_ip ips,
      tp_ip_rev = [ti_assigned_ip ips ! 3, ti_assigned_ip ips ! 2, ti_assigned_ip ips ! 1, ti_assigned_ip ips ! 0],
      tp_heartbeat_dst = ti_lan_ip ips,
      tp_heartbeat_tail = new_heartbeat_tail nanos pid token (ti_assigned_ip ips)\<rparr>"

definition heartbeat_session :: "tunnel_params \<Rightarrow> bytes" where
  "heartbeat_session P = slice 32 48 (tp_token P)"

definition tx_heartbeat_packet :: "tunnel_params \<Rightarrow> bytes" where
  "tx_heartbeat_packet P =
     build_tx_heartbeat_packet (tp_assigned_ip P) (tp_heartbeat_dst P) (heartbeat_session P) (tp_heartbeat_tail P)"

section \<open>The receiving worker\<close>

definition should_forward_rx_payload :: "bytes \<Rightarrow> bool ec_result" where
  "should_forward_rx_payload data =
     (case parse_native_control_frame data of
        Some RxAck \<Rightarrow> Inr False
      | Some control \<Rightarrow> Inl (Runtime (''unexpected rx control frame: '' @ control_text control))
      | None \<Rightarrow> Inr True)"

record rx_state =
  rx_stream :: stream
  rx_time :: vpn_time
  rx_retries :: nat
  rx_sent :: "bytes list"

definition rx_reconnect :: "vpn_lib \<Rightarrow> tunnel_params \<Rightarrow> rx_state \<Rightarrow> unit ec_result option \<times> rx_state" where
  "rx_reconnect L P w =
     (let retries = rx_retries w + 1 in
      case reopen_stream L P Rx retries ((rx_time w)\<lparr>vt_now := clock (rx_stream w)\<rparr>) of
        (Inl e, t) \<Rightarrow> (Some (Inl e), w\<lparr>rx_time := t, rx_retries := retries\<rparr>)
      | (Inr s, t) \<Rightarrow> (None, w\<lparr>rx_stream := s, rx_time := t, rx_retries := 0\<rparr>))"

text \<open>
  One iteration of \<^verbatim>\<open>rx_worker_loop\<close>. \<open>rx_sent\<close> is what the worker sent over the channel;
  \<open>receiver_gone n\<close> says whether the receiver has been dropped when \<open>n\<close> packets have been sent.
\<close>

definition rx_iteration :: "(nat \<Rightarrow> bool) \<Rightarrow> vpn_lib \<Rightarrow> tunnel_params \<Rightarrow> rx_state
    \<Rightarrow> unit ec_result option \<times> rx_state" where
  "rx_iteration receiver_gone L P w =
     (case io_read 4096 (rx_stream w) of
        (Inr data, s) \<Rightarrow>
          if data = [] then rx_reconnect L P (w\<lparr>rx_stream := s\<rparr>)
          else
            (let w = w\<lparr>rx_stream := s, rx_retries := 0\<rparr> in
             case should_forward_rx_payload data of
               Inl e \<Rightarrow> (Some (Inl e), w)
             | Inr False \<Rightarrow> (None, w)
             | Inr True \<Rightarrow>
                 if receiver_gone (length (rx_sent w)) then (Some (Inr ()), w)
                 else (None, w\<lparr>rx_sent := rx_sent w @ [data]\<rparr>))
      | (Inl e, s) \<Rightarrow>
          if is_wouldblock_or_timeout e then (None, w\<lparr>rx_stream := s\<rparr>)
          else rx_reconnect L P (w\<lparr>rx_stream := s\<rparr>))"

definition rx_worker_loop :: "(nat \<Rightarrow> bool) \<Rightarrow> vpn_lib \<Rightarrow> tunnel_params \<Rightarrow> nat \<Rightarrow> rx_state
    \<Rightarrow> unit ec_result option \<times> rx_state" where
  "rx_worker_loop receiver_gone L P fuel w = run_loop (rx_iteration receiver_gone L P) fuel w"

section \<open>The sending worker\<close>

record tx_state =
  tx_stream :: stream
  tx_time :: vpn_time
  tx_retries :: nat
  tx_next_heartbeat :: nat
  tx_queue :: "(nat \<times> bytes) list"

definition tx_send :: "vpn_lib \<Rightarrow> tunnel_params \<Rightarrow> bytes \<Rightarrow> tx_state \<Rightarrow> unit ec_result option \<times> tx_state" where
  "tx_send L P packet w =
     (case write_all packet (tx_stream w) of
        (Inr _, s) \<Rightarrow> (None, w\<lparr>tx_stream := s, tx_retries := 0\<rparr>)
      | (Inl _, s) \<Rightarrow>
          (let retries = tx_retries w + 1 in
           case reopen_stream L P Tx retries (tx_time w) of
             (Inl e, t) \<Rightarrow> (Some (Inl e), w\<lparr>tx_stream := s, tx_time := t, tx_retries := retries\<rparr>)
           | (Inr s', t) \<Rightarrow>
               (case write_all packet s' of
                  (Inl e, s'') \<Rightarrow>
                    (Some (Inl (io_err ''tx stream write failed after reconnect: '' e)),
                     w\<lparr>tx_stream := s'', tx_time := t, tx_retries := retries\<rparr>)
                | (Inr _, s'') \<Rightarrow> (None, w\<lparr>tx_stream := s'', tx_time := t, tx_retries := 0\<rparr>))))"

text \<open>One iteration of \<^verbatim>\<open>tx_worker_loop\<close>; \<open>closed\<close>: the channel's senders are gone after the queue.\<close>

definition tx_iteration :: "bool \<Rightarrow> vpn_lib \<Rightarrow> tunnel_params \<Rightarrow> tx_state
    \<Rightarrow> unit ec_result option \<times> tx_state" where
  "tx_iteration closed L P w =
     (let now = vt_now (tx_time w) in
      if tx_next_heartbeat w \<le> now then
        tx_send L P (tx_heartbeat_packet P) (w\<lparr>tx_next_heartbeat := now + TX_HEARTBEAT_INTERVAL\<rparr>)
      else
        (case recv_timeout now (tx_next_heartbeat w - now) closed (tx_queue w) of (result, later, queue) \<Rightarrow>
           (let w = w\<lparr>tx_time := (tx_time w)\<lparr>vt_now := later\<rparr>, tx_queue := queue\<rparr> in
            case result of
              Received packet \<Rightarrow> tx_send L P packet w
            | Recv_Timeout \<Rightarrow> (None, w)
            | Recv_Disconnected \<Rightarrow> (Some (Inr ()), w))))"

definition tx_worker_loop :: "bool \<Rightarrow> vpn_lib \<Rightarrow> tunnel_params \<Rightarrow> nat \<Rightarrow> tx_state
    \<Rightarrow> unit ec_result option \<times> tx_state" where
  "tx_worker_loop closed L P fuel w = run_loop (tx_iteration closed L P) fuel w"

section \<open>The command stream and its heartbeat\<close>

definition classify_command_heartbeat_reply :: "bytes \<Rightarrow> command_heartbeat_outcome" where
  "classify_command_heartbeat_reply data =
     (case parse_command_control_reply data of
        Inl err \<Rightarrow> Hb_Outcome_Fatal (''command heartbeat parse failed: '' @ concise_error err)
      | Inr control \<Rightarrow>
          if control = Heartbeat then Hb_Ack
          else if control = Shutdown \<or> control = IpKick then
            Hb_Outcome_Fatal (''command control requested tunnel shutdown: '' @ control_label control)
          else Hb_Outcome_Fatal (''unexpected command heartbeat reply: '' @ control_text control))"

fun into_result :: "command_heartbeat_outcome \<Rightarrow> command_heartbeat_failure + unit" where
  "into_result Hb_Ack = Inr ()"
| "into_result (Hb_Outcome_Fatal reason) = Inl (Hb_Fatal reason)"

definition send_command_heartbeat :: "stream \<Rightarrow> bytes \<Rightarrow> (command_heartbeat_failure + unit) \<times> stream" where
  "send_command_heartbeat s token =
     try_io (\<lambda>e. Hb_Retryable (''command heartbeat write failed: '' @ io_text e))
       (write_all (build_command_message 3 token) s) (\<lambda>_ s.
     try_io (\<lambda>e. Hb_Retryable (''command heartbeat read failed: '' @ concise_error e))
       (read_at_least s 0x80 COMMAND_REPLY_BODY_EXPECTED_LEN COMMAND_HEARTBEAT_TIMEOUT) (\<lambda>reply s.
       if reply = [] then (Inl (Hb_Retryable ''command heartbeat reply is empty or timed out''), s)
       else (into_result (classify_command_heartbeat_reply reply), s)))"

text \<open>
  One iteration of \<^verbatim>\<open>command_heartbeat_loop\<close>; \<open>hb_holder\<close> is \<^verbatim>\<open>COMMAND_STREAM_HOLDER\<close> (not set, or
  set to a mutex that holds a stream or nothing).
\<close>

record hb_state =
  hb_holder :: "stream option option"
  hb_now :: nat
  hb_failure_count :: nat
  hb_next_delay :: nat

definition heartbeat_iteration :: "bytes \<Rightarrow> hb_state \<Rightarrow> unit ec_result option \<times> hb_state" where
  "heartbeat_iteration token w =
     (let w = w\<lparr>hb_now := hb_now w + hb_next_delay w\<rparr> in
      case hb_holder w of
        None \<Rightarrow> (Some (Inl (Runtime ''command stream is not initialized'')), w)
      | Some None \<Rightarrow> (Some (Inl (Runtime ''command stream is not available'')), w)
      | Some (Some s) \<Rightarrow>
          (case send_command_heartbeat (s\<lparr>clock := hb_now w\<rparr>) token of (result, s) \<Rightarrow>
             (let w = w\<lparr>hb_holder := Some (Some s), hb_now := clock s\<rparr> in
              case result of
                Inr _ \<Rightarrow> (None, w\<lparr>hb_failure_count := 0, hb_next_delay := COMMAND_HEARTBEAT_INTERVAL\<rparr>)
              | Inl (Hb_Retryable reason) \<Rightarrow>
                  (let failure_count = hb_failure_count w + 1;
                       w = w\<lparr>hb_failure_count := failure_count\<rparr> in
                   if COMMAND_HEARTBEAT_FAILURE_LIMIT \<le> failure_count then
                     (Some (Inl (Runtime (''command heartbeat reached failure limit ('' @ dec_of_nat failure_count
                        @ ''/'' @ dec_of_nat COMMAND_HEARTBEAT_FAILURE_LIMIT @ ''): '' @ reason))), w)
                   else (None, w\<lparr>hb_next_delay := COMMAND_HEARTBEAT_RETRY_DELAY\<rparr>))
              | Inl (Hb_Fatal reason) \<Rightarrow> (Some (Inl (Runtime reason)), w))))"

definition command_heartbeat_loop :: "bytes \<Rightarrow> nat \<Rightarrow> hb_state \<Rightarrow> unit ec_result option \<times> hb_state" where
  "command_heartbeat_loop token fuel w = run_loop (heartbeat_iteration token) fuel w"

section \<open>The statics of the file\<close>

text \<open>
  \<^verbatim>\<open>TX_PACKET_SENDER\<close> (with the packets sent over it that the worker has not received, and whether
  the worker still holds the other end), \<^verbatim>\<open>RX_PACKET_RECEIVER\<close>, \<^verbatim>\<open>COMMAND_STREAM_HOLDER\<close> and
  \<^verbatim>\<open>TUNNEL_FATAL_STATE\<close>; the receiving end of a channel is any value.
\<close>

record tx_channel =
  ch_items :: "bytes list"
  ch_receiver_alive :: bool

record 'rx tunnel_globals =
  tg_sender :: "tx_channel option"
  tg_receiver :: "'rx option option"
  tg_command :: "stream option option"
  tg_fatal :: "string option"

definition runtime_already_started_err :: ec_error where
  "runtime_already_started_err = Runtime RUNTIME_ALREADY_STARTED"

definition install_runtime_channels :: "tx_channel \<Rightarrow> 'rx \<Rightarrow> 'rx tunnel_globals \<Rightarrow> unit ec_result \<times> 'rx tunnel_globals" where
  "install_runtime_channels tx rx g =
     (let g = g\<lparr>tg_receiver := Some (case tg_receiver g of None \<Rightarrow> None | Some held \<Rightarrow> held)\<rparr> in
      if tg_receiver g \<noteq> Some None \<or> tg_sender g \<noteq> None then (Inl runtime_already_started_err, g)
      else (Inr (), g\<lparr>tg_sender := Some tx, tg_receiver := Some (Some rx)\<rparr>))"

definition send_tunnel_packet :: "bytes \<Rightarrow> 'rx tunnel_globals \<Rightarrow> unit ec_result \<times> 'rx tunnel_globals" where
  "send_tunnel_packet packet g =
     (case tg_sender g of
        None \<Rightarrow> (Inl (Runtime ''tunnel runtime is not started''), g)
      | Some ch \<Rightarrow>
          if ch_receiver_alive ch then (Inr (), g\<lparr>tg_sender := Some (ch\<lparr>ch_items := ch_items ch @ [packet]\<rparr>)\<rparr>)
          else (Inl (Runtime (''send tunnel packet failed: '' @ ''sending on a closed channel'')), g))"

definition take_tunnel_packet_receiver :: "'rx tunnel_globals \<Rightarrow> 'rx ec_result \<times> 'rx tunnel_globals" where
  "take_tunnel_packet_receiver g =
     (case tg_receiver g of
        None \<Rightarrow> (Inl (Runtime ''tunnel runtime is not started''), g)
      | Some None \<Rightarrow> (Inl (Runtime ''tunnel packet receiver was already taken or not initialized''), g)
      | Some (Some rx) \<Rightarrow> (Inr rx, g\<lparr>tg_receiver := Some None\<rparr>))"

definition tunnel_fatal_reason :: "'rx tunnel_globals \<Rightarrow> string option" where
  "tunnel_fatal_reason g = tg_fatal g"

text \<open>\<^verbatim>\<open>wait_tunnel_fatal_reason\<close>: the reason it returns, or \<open>None\<close> while it waits.\<close>

definition wait_tunnel_fatal_reason :: "'rx tunnel_globals \<Rightarrow> string option" where
  "wait_tunnel_fatal_reason g = (case tg_fatal g of Some reason \<Rightarrow> Some reason | None \<Rightarrow> None)"

definition clear_tunnel_fatal_reason :: "'rx tunnel_globals \<Rightarrow> 'rx tunnel_globals" where
  "clear_tunnel_fatal_reason g = g\<lparr>tg_fatal := None\<rparr>"

definition record_tunnel_fatal_reason :: "string \<Rightarrow> 'rx tunnel_globals \<Rightarrow> 'rx tunnel_globals" where
  "record_tunnel_fatal_reason reason g = (if tg_fatal g = None then g\<lparr>tg_fatal := Some reason\<rparr> else g)"

definition record_runtime_fatal :: "string \<Rightarrow> 'rx tunnel_globals \<Rightarrow> 'rx tunnel_globals" where
  "record_runtime_fatal reason g = record_tunnel_fatal_reason reason g"

fun worker_exit_detail :: "stream_profile \<Rightarrow> unit ec_result \<Rightarrow> string" where
  "worker_exit_detail profile (Inr _) =
     ''stream closed: '' @ profile_label profile @ ''; reason: exited unexpectedly''"
| "worker_exit_detail profile (Inl err) =
     ''stream closed: '' @ profile_label profile @ ''; reason: '' @ concise_error err"

definition handle_worker_exit :: "stream_profile \<Rightarrow> unit ec_result \<Rightarrow> 'rx tunnel_globals \<Rightarrow> 'rx tunnel_globals" where
  "handle_worker_exit profile result g = record_tunnel_fatal_reason (worker_exit_detail profile result) g"

text \<open>What the thread of \<^verbatim>\<open>start_command_heartbeat\<close> does when the loop ends.\<close>

fun command_heartbeat_exit :: "unit ec_result \<Rightarrow> 'rx tunnel_globals \<Rightarrow> 'rx tunnel_globals" where
  "command_heartbeat_exit (Inl err) g =
     record_tunnel_fatal_reason (''stream closed: command; reason: '' @ concise_error err) g"
| "command_heartbeat_exit (Inr _) g = g"

definition hold_command_stream :: "stream \<Rightarrow> 'rx tunnel_globals \<Rightarrow> 'rx tunnel_globals" where
  "hold_command_stream s g = g\<lparr>tg_command := Some (Some s)\<rparr>"

section \<open>Starting the tunnel\<close>

definition send_ip_exchange :: "bytes \<Rightarrow> stream \<Rightarrow> send_ip_reply ec_result \<times> stream" where
  "send_ip_exchange token s =
     try_io (io_err ''SEND_IP write failed: '') (write_all (build_initial_query_ip_message token) s) (\<lambda>_ s.
     try_io (\<lambda>e. Runtime (''SEND_IP read failed: '' @ concise_error e))
       (read_at_least s 0x80 SEND_IP_REPLY_EXPECTED_LEN QUERY_IP_REPLY_TIMEOUT) (\<lambda>reply s.
       if reply = [] then (Inl (Runtime ''SEND_IP reply is empty or timed out''), s)
       else (parse_send_ip_reply reply, s)))"

definition open_command_stream_once :: "vpn_lib \<Rightarrow> string \<Rightarrow> string \<Rightarrow> bytes \<Rightarrow> vpn_time \<Rightarrow> 'rx tunnel_globals
    \<Rightarrow> tunnel_ips ec_result \<times> vpn_time \<times> 'rx tunnel_globals" where
  "open_command_stream_once L authority host token t g =
     (case connect_vpn_tls L authority host t of
        (Inl e, t) \<Rightarrow> (Inl e, t, g)
      | (Inr s, t) \<Rightarrow>
          (case send_ip_exchange token s of
             (Inl e, s) \<Rightarrow> (Inl e, t\<lparr>vt_now := clock s\<rparr>, g)
           | (Inr send_ip, s) \<Rightarrow>
               (Inr (tunnel_ips_of send_ip), t\<lparr>vt_now := clock s\<rparr>, hold_command_stream s g)))"

definition open_command_stream :: "vpn_lib \<Rightarrow> string \<Rightarrow> string \<Rightarrow> vpn_time \<Rightarrow> 'rx tunnel_globals
    \<Rightarrow> tunnel_ips ec_result \<times> vpn_time \<times> 'rx tunnel_globals" where
  "open_command_stream L server token t g =
     (case parse_server server of
        Inl e \<Rightarrow> (Inl e, t, g)
      | Inr (authority, host) \<Rightarrow>
          (case parse_protocol_token token of
             Inl e \<Rightarrow> (Inl e, t, g)
           | Inr token_bytes \<Rightarrow> open_command_stream_once L authority host token_bytes t g))"

text \<open>The three threads as \<^verbatim>\<open>start_tunnel_runtime\<close> starts them.\<close>

record tunnel_threads =
  th_params :: tunnel_params
  th_rx :: rx_state
  th_tx :: tx_state
  th_heartbeat :: hb_state

definition start_command_heartbeat :: "stream option option \<Rightarrow> nat \<Rightarrow> hb_state" where
  "start_command_heartbeat holder now =
     \<lparr>hb_holder = holder, hb_now = now, hb_failure_count = 0, hb_next_delay = COMMAND_HEARTBEAT_INTERVAL\<rparr>"

definition start_tunnel_runtime :: "vpn_lib \<Rightarrow> nat \<Rightarrow> u32 \<Rightarrow> 'rx \<Rightarrow> string \<Rightarrow> string \<Rightarrow> tunnel_ips \<Rightarrow> vpn_time
    \<Rightarrow> 'rx tunnel_globals \<Rightarrow> tunnel_threads ec_result \<times> vpn_time \<times> 'rx tunnel_globals" where
  "start_tunnel_runtime L nanos pid rx server token ips t g =
     (let g = clear_tunnel_fatal_reason g in
      case parse_server server of
        Inl e \<Rightarrow> (Inl e, t, g)
      | Inr (authority, host) \<Rightarrow>
          (case parse_protocol_token token of
             Inl e \<Rightarrow> (Inl e, t, g)
           | Inr token_bytes \<Rightarrow>
               (let P = new_params nanos pid authority host token_bytes ips in
                case open_stream L P Rx t of
                  (Inl e, t) \<Rightarrow> (Inl e, t, g)
                | (Inr rx_s, t) \<Rightarrow>
                    (case open_stream L P Tx t of
                       (Inl e, t) \<Rightarrow> (Inl e, t, g)
                     | (Inr tx_s, t) \<Rightarrow>
                         (case install_runtime_channels \<lparr>ch_items = [], ch_receiver_alive = True\<rparr> rx g of
                            (Inl e, g) \<Rightarrow> (Inl e, t, g)
                          | (Inr _, g) \<Rightarrow>
                              (Inr \<lparr>th_params = P,
                                    th_rx = \<lparr>rx_stream = rx_s, rx_time = t, rx_retries = 0, rx_sent = []\<rparr>,
                                    th_tx = \<lparr>tx_stream = tx_s, tx_time = t, tx_retries = 0,
                                             tx_next_heartbeat = vt_now t + TX_HEARTBEAT_INTERVAL, tx_queue = []\<rparr>,
                                    th_heartbeat = start_command_heartbeat (tg_command g) (vt_now t)\<rparr>, t, g))))))"

section \<open>The tunnel as a transition system\<close>

text \<open>
  A thread is \<open>None\<close> once its loop has ended. The workers reconnect on their own, so each has its
  own \<open>vpn_lib\<close>. A step of one of the three threads is a \<open>worker_step\<close>; the other steps are those of
  the rest of the program: \<open>Send\<close> is \<^verbatim>\<open>send_tunnel_packet\<close> of another thread: the packet arrives at the sending
  worker at some time \<open>a\<close>. \<open>External\<close> is \<^verbatim>\<open>record_runtime_fatal\<close> of the network stack.
\<close>

record 'rx tunnel_system =
  sys_globals :: "'rx tunnel_globals"
  sys_rx :: "rx_state option"
  sys_tx :: "tx_state option"
  sys_heartbeat :: "hb_state option"

definition drop_tx_receiver :: "'rx tunnel_globals \<Rightarrow> 'rx tunnel_globals" where
  "drop_tx_receiver g = g\<lparr>tg_sender := map_option (ch_receiver_alive_update (\<lambda>_. False)) (tg_sender g)\<rparr>"

inductive worker_step :: "(nat \<Rightarrow> bool) \<Rightarrow> vpn_lib \<Rightarrow> vpn_lib \<Rightarrow> tunnel_params
    \<Rightarrow> 'rx tunnel_system \<Rightarrow> 'rx tunnel_system \<Rightarrow> bool"
  for gone :: "nat \<Rightarrow> bool" and Lr Lt :: vpn_lib and P :: tunnel_params where
  Rx_Step: "sys_rx s = Some w \<Longrightarrow> rx_iteration gone Lr P w = (None, w') \<Longrightarrow>
    worker_step gone Lr Lt P s (s\<lparr>sys_rx := Some w'\<rparr>)"
| Rx_Exit: "sys_rx s = Some w \<Longrightarrow> rx_iteration gone Lr P w = (Some r, w') \<Longrightarrow>
    worker_step gone Lr Lt P s
      (s\<lparr>sys_rx := None, sys_globals := handle_worker_exit Rx r (sys_globals s)\<rparr>)"
| Tx_Step: "sys_tx s = Some w \<Longrightarrow> tx_iteration False Lt P w = (None, w') \<Longrightarrow>
    worker_step gone Lr Lt P s (s\<lparr>sys_tx := Some w'\<rparr>)"
| Tx_Exit: "sys_tx s = Some w \<Longrightarrow> tx_iteration False Lt P w = (Some r, w') \<Longrightarrow>
    worker_step gone Lr Lt P s
      (s\<lparr>sys_tx := None, sys_globals := drop_tx_receiver (handle_worker_exit Tx r (sys_globals s))\<rparr>)"
| Heartbeat_Step: "sys_heartbeat s = Some w \<Longrightarrow>
    heartbeat_iteration (tp_token P) (w\<lparr>hb_holder := tg_command (sys_globals s)\<rparr>) = (None, w') \<Longrightarrow>
    worker_step gone Lr Lt P s
      (s\<lparr>sys_heartbeat := Some w', sys_globals := (sys_globals s)\<lparr>tg_command := hb_holder w'\<rparr>\<rparr>)"
| Heartbeat_Exit: "sys_heartbeat s = Some w \<Longrightarrow>
    heartbeat_iteration (tp_token P) (w\<lparr>hb_holder := tg_command (sys_globals s)\<rparr>) = (Some r, w') \<Longrightarrow>
    worker_step gone Lr Lt P s
      (s\<lparr>sys_heartbeat := None,
         sys_globals := command_heartbeat_exit r ((sys_globals s)\<lparr>tg_command := hb_holder w'\<rparr>)\<rparr>)"

inductive tunnel_step :: "(nat \<Rightarrow> bool) \<Rightarrow> vpn_lib \<Rightarrow> vpn_lib \<Rightarrow> tunnel_params
    \<Rightarrow> 'rx tunnel_system \<Rightarrow> 'rx tunnel_system \<Rightarrow> bool"
  for gone :: "nat \<Rightarrow> bool" and Lr Lt :: vpn_lib and P :: tunnel_params where
  Worker: "worker_step gone Lr Lt P s s' \<Longrightarrow> tunnel_step gone Lr Lt P s s'"
| Send: "send_tunnel_packet p (sys_globals s) = (r, g') \<Longrightarrow>
    tunnel_step gone Lr Lt P s
      (s\<lparr>sys_globals := g',
         sys_tx := map_option (\<lambda>w. if r = Inr () then w\<lparr>tx_queue := tx_queue w @ [(a, p)]\<rparr> else w) (sys_tx s)\<rparr>)"
| Take: "take_tunnel_packet_receiver (sys_globals s) = (r, g') \<Longrightarrow>
    tunnel_step gone Lr Lt P s (s\<lparr>sys_globals := g'\<rparr>)"
| External: "tunnel_step gone Lr Lt P s
      (s\<lparr>sys_globals := record_runtime_fatal reason (sys_globals s)\<rparr>)"

inductive tunnel_run :: "(nat \<Rightarrow> bool) \<Rightarrow> vpn_lib \<Rightarrow> vpn_lib \<Rightarrow> tunnel_params
    \<Rightarrow> 'rx tunnel_system \<Rightarrow> 'rx tunnel_system \<Rightarrow> bool"
  for gone :: "nat \<Rightarrow> bool" and Lr Lt :: vpn_lib and P :: tunnel_params where
  Run_Start: "tunnel_run gone Lr Lt P s s"
| Run_Step: "tunnel_run gone Lr Lt P s s' \<Longrightarrow> tunnel_step gone Lr Lt P s' s'' \<Longrightarrow>
    tunnel_run gone Lr Lt P s s''"

inductive_cases worker_stepE: "worker_step gone Lr Lt P s s'"
inductive_cases tunnel_stepE: "tunnel_step gone Lr Lt P s s'"

definition system_of :: "tunnel_threads \<Rightarrow> 'rx tunnel_globals \<Rightarrow> 'rx tunnel_system" where
  "system_of th g = \<lparr>sys_globals = g, sys_rx = Some (th_rx th), sys_tx = Some (th_tx th),
                     sys_heartbeat = Some (th_heartbeat th)\<rparr>"

section \<open>The fatal reason\<close>

lemma record_fatal_simps [simp]:
  "tg_fatal (record_tunnel_fatal_reason r g) = (case tg_fatal g of None \<Rightarrow> Some r | Some q \<Rightarrow> Some q)"
  by (simp add: record_tunnel_fatal_reason_def split: option.splits)

lemma heartbeat_exit_is_error: "heartbeat_iteration token w = (Some r, w') \<Longrightarrow> \<exists>e. r = Inl e"
  by (auto simp: heartbeat_iteration_def Let_def
      split: option.splits prod.splits sum.splits command_heartbeat_failure.splits if_splits)

lemma worker_step_fatal:
  "worker_step gone Lr Lt P s s' \<Longrightarrow> tg_fatal (sys_globals s) = Some r \<Longrightarrow> tg_fatal (sys_globals s') = Some r"
proof (induction rule: worker_step.induct)
  case (Heartbeat_Exit s w q w')
  from heartbeat_exit_is_error [OF Heartbeat_Exit(2)] Heartbeat_Exit(3) show ?case by auto
qed (auto simp: handle_worker_exit_def drop_tx_receiver_def)

lemma tunnel_step_fatal:
  "tunnel_step gone Lr Lt P s s' \<Longrightarrow> tg_fatal (sys_globals s) = Some r \<Longrightarrow> tg_fatal (sys_globals s') = Some r"
  by (induction rule: tunnel_step.induct)
     (auto dest: worker_step_fatal simp: record_runtime_fatal_def send_tunnel_packet_def
        take_tunnel_packet_receiver_def split: option.splits if_splits)

lemma tunnel_run_fatal:
  "tunnel_run gone Lr Lt P s s' \<Longrightarrow> tg_fatal (sys_globals s) = Some r \<Longrightarrow> tg_fatal (sys_globals s') = Some r"
  by (induction rule: tunnel_run.induct) (auto dest: tunnel_step_fatal)

text \<open>The invariant: no thread ends without a reason on record.\<close>

definition exits_recorded :: "'rx tunnel_system \<Rightarrow> bool" where
  "exits_recorded s \<longleftrightarrow> tg_fatal (sys_globals s) \<noteq> None \<or>
     (sys_rx s \<noteq> None \<and> sys_tx s \<noteq> None \<and> sys_heartbeat s \<noteq> None)"

lemma worker_step_exits_recorded:
  "worker_step gone Lr Lt P s s' \<Longrightarrow> exits_recorded s \<Longrightarrow> exits_recorded s'"
proof (induction rule: worker_step.induct)
  case (Heartbeat_Exit s w q w')
  from heartbeat_exit_is_error [OF Heartbeat_Exit(2)] Heartbeat_Exit(3) show ?case
    by (auto simp: exits_recorded_def split: option.splits)
qed (auto simp: exits_recorded_def handle_worker_exit_def drop_tx_receiver_def split: option.splits if_splits)

lemma tunnel_step_exits_recorded:
  "tunnel_step gone Lr Lt P s s' \<Longrightarrow> exits_recorded s \<Longrightarrow> exits_recorded s'"
  by (induction rule: tunnel_step.induct)
     (auto dest: worker_step_exits_recorded simp: exits_recorded_def record_runtime_fatal_def send_tunnel_packet_def
        take_tunnel_packet_receiver_def split: option.splits if_splits)

lemma tunnel_run_exits_recorded:
  "tunnel_run gone Lr Lt P s s' \<Longrightarrow> exits_recorded s \<Longrightarrow> exits_recorded s'"
  by (induction rule: tunnel_run.induct) (auto dest: tunnel_step_exits_recorded)

text \<open>
  \<^bold>\<open>C15.\<close> In every interleaving of the three threads of a started tunnel, with packets sent, the
  receiver taken and failures reported from outside: a thread has ended only if a reason is on record;
  the first reason recorded is the one that stays, and it is what the waiting main thread returns.
\<close>

theorem tunnel_fatal_first_wins:
  assumes "tunnel_run gone Lr Lt P (system_of th g) s" and "tunnel_run gone Lr Lt P s s'"
  shows "(if sys_rx s = None \<or> sys_tx s = None \<or> sys_heartbeat s = None
          then wait_tunnel_fatal_reason (sys_globals s) \<noteq> None else True) \<and>
    (case tunnel_fatal_reason (sys_globals s) of
       None \<Rightarrow> True
     | Some r \<Rightarrow> wait_tunnel_fatal_reason (sys_globals s') = Some r)"
proof -
  have "exits_recorded (system_of th g)" by (simp add: exits_recorded_def system_of_def)
  from tunnel_run_exits_recorded [OF assms(1) this] tunnel_run_fatal [OF assms(2)] show ?thesis
    by (auto simp: exits_recorded_def wait_tunnel_fatal_reason_def tunnel_fatal_reason_def split: option.splits)
qed

section \<open>What the receiving worker forwards\<close>

lemma rx_reconnect_sent: "rx_reconnect L P w = (r, w') \<Longrightarrow> rx_sent w' = rx_sent w"
  by (auto simp: rx_reconnect_def Let_def split: prod.splits sum.splits)

definition tunnel_payload :: "bytes \<Rightarrow> bool" where
  "tunnel_payload p \<longleftrightarrow> p \<noteq> [] \<and> length p \<le> 4096 \<and> parse_native_control_frame p = None"

lemma should_forward_payload: "should_forward_rx_payload p = Inr True \<longleftrightarrow> parse_native_control_frame p = None"
  by (auto simp: should_forward_rx_payload_def split: option.splits native_control.splits)

lemma rx_iteration_sent:
  assumes "rx_iteration gone L P w = (r, w')"
  shows "\<exists>new. rx_sent w' = rx_sent w @ new \<and> list_all tunnel_payload new"
proof -
  obtain res s where io: "io_read 4096 (rx_stream w) = (res, s)" by fastforce
  show ?thesis
  proof (cases "\<exists>data. res = Inr data \<and> data \<noteq> [] \<and> should_forward_rx_payload data = Inr True \<and>
      \<not> gone (length (rx_sent w))")
    case True
    then obtain data where data: "res = Inr data" "data \<noteq> []" "should_forward_rx_payload data = Inr True"
      "\<not> gone (length (rx_sent w))" by blast
    with io_read_length [of 4096 "rx_stream w" data s] io have "tunnel_payload data"
      by (simp add: tunnel_payload_def should_forward_payload)
    with assms io data show ?thesis by (auto simp: rx_iteration_def Let_def intro!: exI [of _ "[data]"])
  next
    case False
    with assms io have "rx_sent w' = rx_sent w"
      by (auto simp: rx_iteration_def Let_def dest!: rx_reconnect_sent
          split: sum.splits if_splits bool.splits)
    then show ?thesis by simp
  qed
qed

lemma rx_loop_sent:
  "rx_worker_loop gone L P n w = (r, w') \<Longrightarrow> \<exists>new. rx_sent w' = rx_sent w @ new \<and> list_all tunnel_payload new"
  unfolding rx_worker_loop_def
proof (induction n arbitrary: w)
  case (Suc n)
  obtain q v where q: "rx_iteration gone L P w = (q, v)" by fastforce
  from rx_iteration_sent [OF q] obtain new where new: "rx_sent v = rx_sent w @ new" "list_all tunnel_payload new"
    by blast
  show ?case
  proof (cases q)
    case None
    with Suc.prems q Suc.IH [of v] new show ?thesis by fastforce
  next
    case (Some x)
    with Suc.prems q new show ?thesis by auto
  qed
qed simp

text \<open>
  The reads of a stream, in order: what the server sends as records of at most 4096 bytes, with
  time-outs between them, no end of file, and no control frame but the acknowledgement.
\<close>

fun quiet_item :: "nat \<times> read_item \<Rightarrow> bool" where
  "quiet_item (d, Data c) \<longleftrightarrow> c \<noteq> [] \<and> length c \<le> 4096 \<and>
     (parse_native_control_frame c = None \<or> parse_native_control_frame c = Some RxAck)"
| "quiet_item (d, Read_Err e) \<longleftrightarrow> is_wouldblock_or_timeout e"

fun payloads :: "(nat \<times> read_item) list \<Rightarrow> bytes list" where
  "payloads [] = []"
| "payloads ((d, Data c) # items) =
     (if parse_native_control_frame c = None then c # payloads items else payloads items)"
| "payloads ((d, Read_Err e) # items) = payloads items"

lemma rx_quiet_step:
  assumes "incoming (rx_stream w) = i # rest" and "quiet_item i"
  shows "\<exists>w'. rx_iteration (\<lambda>_. False) L P w = (None, w') \<and> incoming (rx_stream w') = rest \<and>
    rx_sent w' = rx_sent w @ payloads [i]"
  using assms
  by (cases i rule: quiet_item.cases)
     (auto simp: rx_iteration_def io_read_def should_forward_rx_payload_def Let_def)

lemma rx_quiet_run:
  "incoming (rx_stream w) = items @ rest \<Longrightarrow> list_all quiet_item items \<Longrightarrow>
   \<exists>w'. run_loop (rx_iteration (\<lambda>_. False) L P) (length items) w = (None, w') \<and>
     incoming (rx_stream w') = rest \<and> rx_sent w' = rx_sent w @ payloads items"
proof (induction items arbitrary: w)
  case (Cons i items)
  from rx_quiet_step [of w i "items @ rest" L P] Cons.prems obtain v where v:
    "rx_iteration (\<lambda>_. False) L P w = (None, v)" "incoming (rx_stream v) = items @ rest"
    "rx_sent v = rx_sent w @ payloads [i]" by auto
  from Cons.IH [OF v(2)] Cons.prems(2) obtain w' where
    "run_loop (rx_iteration (\<lambda>_. False) L P) (length items) v = (None, w')"
    "incoming (rx_stream w') = rest" "rx_sent w' = rx_sent v @ payloads items" by auto
  with v show ?case by (cases i rule: quiet_item.cases) auto
qed simp


section \<open>The schedule of the sending worker\<close>

text \<open>What the worker writes: a heartbeat packet (\<open>None\<close>) or a packet of the queue.\<close>

definition written :: "tunnel_params \<Rightarrow> bytes option list \<Rightarrow> bytes" where
  "written P ws = concat (map (\<lambda>x. case x of None \<Rightarrow> tx_heartbeat_packet P | Some p \<Rightarrow> p) ws)"

lemma written_simps [simp]:
  "written P [] = []"
  "written P (ws @ [None]) = written P ws @ tx_heartbeat_packet P"
  "written P (ws @ [Some p]) = written P ws @ p"
  by (simp_all add: written_def)

lemma recv_timeout_result:
  "recv_timeout now d False q = (result, later, q') \<Longrightarrow>
     now \<le> later \<and> later \<le> now + d \<and>
     ((result = Recv_Timeout \<and> later = now + d \<and> q' = q) \<or> (\<exists>a p. result = Received p \<and> q = (a, p) # q'))"
  by (cases q) (auto split: if_splits)

definition tx_progress :: "tunnel_params \<Rightarrow> tx_state \<Rightarrow> nat \<Rightarrow> bytes option list \<Rightarrow> nat \<Rightarrow> tx_state \<Rightarrow> bool" where
  "tx_progress P w n ws k w' \<longleftrightarrow>
     outgoing (tx_stream w') = outgoing (tx_stream w) @ written P ws \<and>
     write_script (tx_stream w') = [] \<and>
     List.map_filter id ws = map snd (take k (tx_queue w)) \<and> tx_queue w' = drop k (tx_queue w) \<and>
     k \<le> length (tx_queue w) \<and>
     tx_next_heartbeat w' = tx_next_heartbeat w + 12000 * count_list ws None \<and>
     vt_now (tx_time w') \<le> tx_next_heartbeat w' \<and>
     (if vt_now (tx_time w') = tx_next_heartbeat w' then n \<le> 2 * length ws + 1 else n \<le> 2 * length ws)"

lemma tx_iteration_progress:
  assumes "tx_progress P w n ws k v" and "tx_iteration False L P v = (r, v')"
  shows "r = None \<and> (\<exists>ws' k'. tx_progress P w (Suc n) ws' k' v')"
proof (cases "tx_next_heartbeat v \<le> vt_now (tx_time v)")
  case True
  with assms have "r = None" "tx_progress P w (Suc n) (ws @ [None]) k v'"
    by (auto simp: tx_progress_def tx_iteration_def tx_send_def write_all_ok TX_HEARTBEAT_INTERVAL_def
        map_filter_def split: if_splits)
  then show ?thesis by blast
next
  case False
  obtain result later q where recv:
    "recv_timeout (vt_now (tx_time v)) (tx_next_heartbeat v - vt_now (tx_time v)) False (tx_queue v)
      = (result, later, q)" by (metis prod_cases3)
  note d = recv_timeout_result [OF recv]
  show ?thesis
  proof (cases "result = Recv_Timeout")
    case True
    with False assms recv d have "r = None" "tx_progress P w (Suc n) ws k v'"
      by (auto simp: tx_progress_def tx_iteration_def Let_def split: if_splits)
    then show ?thesis by blast
  next
    case nt: False
    with d obtain a p where p: "result = Received p" "tx_queue v = (a, p) # q" by auto
    with assms(1) have k: "k < length (tx_queue w)" "tx_queue w ! k = (a, p)" "q = drop (Suc k) (tx_queue w)"
      by (auto simp: tx_progress_def drop_eq_Nil Cons_nth_drop_Suc [symmetric] dest!: sym [of "_ # _"])
        (metis Cons_nth_drop_Suc drop_eq_Nil list.inject list.simps(3) not_le)+
    from False assms recv p d have "r = None" "tx_progress P w (Suc n) (ws @ [Some p]) (Suc k) v'"
      using k by (auto simp: tx_progress_def tx_iteration_def tx_send_def write_all_ok Let_def
          map_filter_def take_Suc_conv_app_nth split: if_splits)
    then show ?thesis by blast
  qed
qed

lemma tx_loop_progress:
  assumes "write_script (tx_stream w) = []" and "vt_now (tx_time w) \<le> tx_next_heartbeat w"
  shows "\<exists>w' ws k. tx_worker_loop False L P n w = (None, w') \<and> tx_progress P w n ws k w'"
proof (induction n)
  case 0
  have "tx_progress P w 0 [] 0 w"
    using assms by (simp add: tx_progress_def map_filter_def)
  then show ?case by (auto simp: tx_worker_loop_def)
next
  case (Suc n)
  then obtain v ws k where v: "tx_worker_loop False L P n w = (None, v)" "tx_progress P w n ws k v" by blast
  obtain r v' where r: "tx_iteration False L P v = (r, v')" by fastforce
  from tx_iteration_progress [OF v(2) r] v(1) r show ?case
    using run_loop_add [of "tx_iteration False L P" n 1 w] by (auto simp: tx_worker_loop_def)
qed


section \<open>Replies on the command stream\<close>

lemma read_at_least_loop_delivers:
  "delivers s bs \<Longrightarrow> length got + length bs = min_len \<Longrightarrow> min_len \<le> buf_len \<Longrightarrow>
   clock s + script_delay s < deadline \<Longrightarrow>
   \<exists>s'. read_at_least_loop deadline buf_len min_len got s = (Inr (got @ bs), s') \<and> delivers s' [] \<and>
     clock s' + script_delay s' = clock s + script_delay s \<and>
     outgoing s' = outgoing s \<and> write_script s' = write_script s"
proof (induction deadline buf_len min_len got s arbitrary: bs rule: read_at_least_loop.induct)
  case (1 deadline buf_len min_len got s)
  show ?case
  proof (cases "bs = []")
    case True
    with "1.prems" show ?thesis by (simp add: read_at_least_loop.simps [of deadline buf_len min_len got s])
  next
    case False
    with "1.prems" have lt: "length got < min_len" "length got < buf_len" "\<not> deadline \<le> clock s"
      by (cases bs; simp)+
    from io_read_deliver_time [OF "1.prems"(1) False, of "buf_len - length got"] lt(2) obtain c s' where
      c: "io_read (buf_len - length got) s = (Inr c, s')" "c \<noteq> []" "bs = c @ drop (length c) bs"
        "delivers s' (drop (length c) bs)" "clock s' + script_delay s' = clock s + script_delay s"
        "outgoing s' = outgoing s" "write_script s' = write_script s" by auto
    have len: "length c + length (drop (length c) bs) = length bs" using c(3) by (metis length_append)
    have "\<exists>s''. read_at_least_loop deadline buf_len min_len (got @ c) s' =
          (Inr ((got @ c) @ drop (length c) bs), s'') \<and> delivers s'' [] \<and>
        clock s'' + script_delay s'' = clock s' + script_delay s' \<and>
        outgoing s'' = outgoing s' \<and> write_script s'' = write_script s'"
      using lt c "1.prems" len by (intro "1.IH"(2) [OF _ _ c(1) [symmetric] refl]) auto
    moreover have "read_at_least_loop deadline buf_len min_len got s =
        read_at_least_loop deadline buf_len min_len (got @ c) s'"
      using lt c(1,2) by (simp add: read_at_least_loop.simps [of deadline buf_len min_len got s])
    ultimately show ?thesis using c by auto
  qed
qed

lemma read_at_least_delivers:
  assumes "delivers s bs" and "length bs = min_len" and "min_len \<le> buf_len" and "script_delay s < timeout"
  shows "\<exists>s'. read_at_least s buf_len min_len timeout = (Inr bs, s') \<and> delivers s' [] \<and>
    clock s' + script_delay s' = clock s + script_delay s \<and>
    outgoing s' = outgoing s \<and> write_script s' = write_script s"
  using read_at_least_loop_delivers [of s bs "[]" min_len buf_len "clock s + timeout"] assms
  by (simp add: read_at_least_def)

lemma send_command_heartbeat_delivers:
  assumes "delivers s reply" and "length reply = 36" and "script_delay s < 10000" and "write_script s = []"
  shows "\<exists>s'. send_command_heartbeat s token = (into_result (classify_command_heartbeat_reply reply), s') \<and>
    delivers s' [] \<and> outgoing s' = outgoing s @ build_command_message 3 token"
proof -
  let ?s = "s\<lparr>outgoing := outgoing s @ build_command_message 3 token\<rparr>"
  have "reply \<noteq> []" using assms(2) by auto
  moreover from read_at_least_delivers [of ?s reply 36 128 10000] assms obtain s' where
    "read_at_least ?s 128 36 10000 = (Inr reply, s')" "delivers s' []" "outgoing s' = outgoing ?s" by auto
  ultimately show ?thesis
    using assms(4)
    by (auto simp: send_command_heartbeat_def write_all_ok COMMAND_REPLY_BODY_EXPECTED_LEN_def
        COMMAND_HEARTBEAT_TIMEOUT_def)
qed

text \<open>
  Asking for the tunnel addresses: when the server's 36-byte reply with code 0 arrives within
  ten seconds, in any segmentation, the result is the assigned address at offset 4 and the LAN address
  at offset 12, and the stream, on which the 64-byte query was written, is held for the heartbeat.
\<close>

theorem open_command_stream_reply:
  assumes "parse_server server = Inr (authority, host)" and "parse_protocol_token token = Inr token_bytes"
    and "vl_connect L authority host (vt_connects t) = (d, Inr s)" and "delivers s reply" and "length reply = 36"
    and "take 4 reply = [0, 0, 0, 0]" and "script_delay s < 10000" and "write_script s = []" and "outgoing s = []"
  shows "case open_command_stream L server token t g of (r, t', g') \<Rightarrow>
    r = Inr \<lparr>ti_assigned_ip = slice 4 8 reply, ti_lan_ip = slice 12 16 reply\<rparr> \<and>
    vt_connects t' = Suc (vt_connects t) \<and>
    (\<exists>s'. g' = g\<lparr>tg_command := Some (Some s')\<rparr> \<and> outgoing s' = build_initial_query_ip_message token_bytes)"
proof -
  let ?s = "s\<lparr>clock := vt_now t + d, outgoing := build_initial_query_ip_message token_bytes\<rparr>"
  have "reply \<noteq> []" using assms(5) by auto
  moreover have "slice 0 4 reply = [0, 0, 0, 0]" using assms(6) by (simp add: slice_def)
  moreover have "u32_le 0 0 0 0 = 0" by (simp add: u32_le_def u32_be_def)
  moreover from read_at_least_delivers [of ?s reply 36 128 10000] assms obtain s' where
    "read_at_least ?s 128 36 10000 = (Inr reply, s')" "outgoing s' = outgoing ?s" by auto
  ultimately have "send_ip_exchange token_bytes (s\<lparr>clock := vt_now t + d\<rparr>) =
      (Inr \<lparr>assigned_ip = slice 4 8 reply, lan_ip = slice 12 16 reply\<rparr>, s')"
      "outgoing s' = build_initial_query_ip_message token_bytes"
    using assms(5,8,9)
    by (simp_all add: send_ip_exchange_def write_all_ok SEND_IP_REPLY_EXPECTED_LEN_def QUERY_IP_REPLY_TIMEOUT_def
        parse_send_ip_reply_def SEND_IP_REPLY_MIN_LEN_def)
  with assms(1-3) show ?thesis
    by (auto simp: open_command_stream_def open_command_stream_once_def connect_vpn_tls_def
        tunnel_ips_of_def hold_command_stream_def)
qed

section \<open>The life of the command heartbeat\<close>

text \<open>A reply in one read: it is taken whole if it is long enough.\<close>

lemma read_at_least_one_read:
  assumes "incoming s = (d, Data reply) # rest" and "min_len \<le> length reply" and "length reply \<le> buf_len"
    and "0 < min_len" and "0 < timeout"
  shows "read_at_least s buf_len min_len timeout = (Inr reply, s\<lparr>clock := clock s + d, incoming := rest\<rparr>)"
proof -
  have "reply \<noteq> []" using assms(2,4) by auto
  with assms have "read_at_least_loop (clock s + timeout) buf_len min_len [] s =
      read_at_least_loop (clock s + timeout) buf_len min_len reply (s\<lparr>clock := clock s + d, incoming := rest\<rparr>)"
    by (simp add: read_at_least_loop.simps [of "clock s + timeout" buf_len min_len "[]" s] io_read_def)
  moreover have "\<dots> = (Inr reply, s\<lparr>clock := clock s + d, incoming := rest\<rparr>)"
    using assms(2) by (simp add: read_at_least_loop.simps)
  ultimately show ?thesis by (simp add: read_at_least_def)
qed

lemma send_heartbeat_one_read:
  assumes "incoming s = (d, Data reply) # rest" and "36 \<le> length reply" and "length reply \<le> 128"
    and "write_script s = []"
  shows "send_command_heartbeat s token = (into_result (classify_command_heartbeat_reply reply),
    s\<lparr>clock := clock s + d, incoming := rest, outgoing := outgoing s @ build_command_message 3 token\<rparr>)"
proof -
  have "reply \<noteq> []" using assms(2) by auto
  moreover have "read_at_least (s\<lparr>outgoing := outgoing s @ build_command_message 3 token\<rparr>) 128 36 10000 =
      (Inr reply, s\<lparr>clock := clock s + d, incoming := rest, outgoing := outgoing s @ build_command_message 3 token\<rparr>)"
    using assms(1-3) by (subst read_at_least_one_read) (simp_all, cases s, simp)
  ultimately show ?thesis
    using assms(4)
    by (simp add: send_command_heartbeat_def write_all_ok COMMAND_REPLY_BODY_EXPECTED_LEN_def
        COMMAND_HEARTBEAT_TIMEOUT_def)
qed

lemma heartbeat_iteration_ack:
  assumes "hb_holder w = Some (Some s)" and "incoming s = (d, Data reply) # rest" and "36 \<le> length reply"
    and "length reply \<le> 128" and "write_script s = []" and "classify_command_heartbeat_reply reply = Hb_Ack"
  shows "heartbeat_iteration token w = (None,
    w\<lparr>hb_holder := Some (Some (s\<lparr>clock := hb_now w + hb_next_delay w + d, incoming := rest,
                                   outgoing := outgoing s @ build_command_message 3 token\<rparr>)),
      hb_now := hb_now w + hb_next_delay w + d, hb_failure_count := 0, hb_next_delay := 30000\<rparr>)"
  using send_heartbeat_one_read [of "s\<lparr>clock := hb_now w + hb_next_delay w\<rparr>" d reply rest token] assms
  by (simp add: heartbeat_iteration_def Let_def COMMAND_HEARTBEAT_INTERVAL_def)

lemma heartbeat_loop_acked:
  "hb_holder w = Some (Some s) \<Longrightarrow> incoming s = map (\<lambda>d. (d, Data reply)) ds @ rest \<Longrightarrow> hb_next_delay w = 30000 \<Longrightarrow>
   36 \<le> length reply \<Longrightarrow> length reply \<le> 128 \<Longrightarrow> write_script s = [] \<Longrightarrow>
   classify_command_heartbeat_reply reply = Hb_Ack \<Longrightarrow>
   \<exists>w' s'. run_loop (heartbeat_iteration token) (length ds) w = (None, w') \<and> hb_holder w' = Some (Some s') \<and>
     outgoing s' = outgoing s @ concat (replicate (length ds) (build_command_message 3 token)) \<and>
     incoming s' = rest \<and> hb_now w' = hb_now w + 30000 * length ds + sum_list ds \<and> write_script s' = [] \<and>
     hb_next_delay w' = 30000 \<and> hb_failure_count w' = (if ds = [] then hb_failure_count w else 0)"
proof (induction ds arbitrary: w s)
  case (Cons d ds)
  let ?s = "s\<lparr>clock := hb_now w + hb_next_delay w + d, incoming := map (\<lambda>d. (d, Data reply)) ds @ rest,
              outgoing := outgoing s @ build_command_message 3 token\<rparr>"
  let ?w = "w\<lparr>hb_holder := Some (Some ?s), hb_now := hb_now w + hb_next_delay w + d, hb_failure_count := 0,
              hb_next_delay := 30000\<rparr>"
  have step: "heartbeat_iteration token w = (None, ?w)"
    using Cons.prems by (intro heartbeat_iteration_ack) simp_all
  have "\<exists>w' s'. run_loop (heartbeat_iteration token) (length ds) ?w = (None, w') \<and> hb_holder w' = Some (Some s') \<and>
     outgoing s' = outgoing ?s @ concat (replicate (length ds) (build_command_message 3 token)) \<and>
     incoming s' = rest \<and> hb_now w' = hb_now ?w + 30000 * length ds + sum_list ds \<and> write_script s' = [] \<and>
     hb_next_delay w' = 30000 \<and> hb_failure_count w' = (if ds = [] then hb_failure_count ?w else 0)"
    using Cons.prems by (intro Cons.IH) simp_all
  with step Cons.prems(3) show ?case by auto
qed simp

definition EMPTY_REPLY :: string where
  "EMPTY_REPLY = ''command heartbeat reply is empty or timed out''"

lemma send_heartbeat_closed:
  assumes "incoming s = []" and "write_script s = []"
  shows "send_command_heartbeat s token =
    (Inl (Hb_Retryable EMPTY_REPLY), s\<lparr>outgoing := outgoing s @ build_command_message 3 token\<rparr>)"
  using assms
  by (simp add: send_command_heartbeat_def write_all_ok read_at_least_def read_at_least_loop.simps io_read_def
      EMPTY_REPLY_def COMMAND_REPLY_BODY_EXPECTED_LEN_def COMMAND_HEARTBEAT_TIMEOUT_def)

lemma heartbeat_iteration_closed:
  assumes "hb_holder w = Some (Some s)" and "incoming s = []" and "write_script s = []"
  shows "heartbeat_iteration token w =
    (let s' = s\<lparr>clock := hb_now w + hb_next_delay w, outgoing := outgoing s @ build_command_message 3 token\<rparr>;
         w' = w\<lparr>hb_holder := Some (Some s'), hb_now := hb_now w + hb_next_delay w,
                hb_failure_count := hb_failure_count w + 1\<rparr>
     in if 3 \<le> hb_failure_count w + 1 then
          (Some (Inl (Runtime (''command heartbeat reached failure limit ('' @ dec_of_nat (hb_failure_count w + 1)
             @ ''/3): '' @ EMPTY_REPLY))), w')
        else (None, w'\<lparr>hb_next_delay := 1000\<rparr>))"
proof -
  have "dec_of_nat 3 = ''3''" by code_simp
  with send_heartbeat_closed [of "s\<lparr>clock := hb_now w + hb_next_delay w\<rparr>" token] assms show ?thesis
    by (simp add: heartbeat_iteration_def Let_def COMMAND_HEARTBEAT_FAILURE_LIMIT_def
        COMMAND_HEARTBEAT_RETRY_DELAY_def)
qed

lemma heartbeat_loop_closed:
  assumes "hb_holder w = Some (Some s)" and "incoming s = []" and "write_script s = []"
    and "hb_next_delay w = 30000" and "hb_failure_count w = 0"
  shows "\<exists>w' s'. run_loop (heartbeat_iteration token) (3 + n) w =
      (Some (Inl (Runtime (''command heartbeat reached failure limit (3/3): '' @ EMPTY_REPLY))), w') \<and>
    hb_now w' = hb_now w + 32000 \<and> hb_holder w' = Some (Some s') \<and>
    outgoing s' = outgoing s @ concat (replicate 3 (build_command_message 3 token))"
proof -
  have "dec_of_nat 3 = ''3''" by code_simp
  moreover have "3 + n = Suc (Suc (Suc n))" by simp
  ultimately show ?thesis
    using assms by (simp add: heartbeat_iteration_closed Let_def numeral_3_eq_3)
qed

text \<open>
  \<^bold>\<open>C20.\<close> The command heartbeat keeps the tunnel up exactly while it is answered: as long as the
  server acknowledges, the loop sends one 64-byte heartbeat command every 30 seconds and never ends,
  and however often it failed before, an acknowledgement starts the count anew; once the server has
  closed the stream, it sends two more after one second each and then ends with the failure-limit
  error, 32 seconds after its last success.
\<close>

theorem command_heartbeat_life:
  assumes "hb_holder w = Some (Some s)" and "incoming s = map (\<lambda>d. (d, Data reply)) ds" and "hb_next_delay w = 30000"
    and "36 \<le> length reply" and "length reply \<le> 128" and "write_script s = []"
    and "classify_command_heartbeat_reply reply = Hb_Ack" and "ds \<noteq> [] \<or> hb_failure_count w = 0"
  shows "\<exists>w' s'. command_heartbeat_loop token (length ds) w = (None, w') \<and> hb_holder w' = Some (Some s') \<and>
    outgoing s' = outgoing s @ concat (replicate (length ds) (build_command_message 3 token)) \<and>
    hb_now w' = hb_now w + 30000 * length ds + sum_list ds \<and>
    (\<exists>w'' s''. command_heartbeat_loop token (length ds + (3 + n)) w =
        (Some (Inl (Runtime (''command heartbeat reached failure limit (3/3): '' @ EMPTY_REPLY))), w'') \<and>
      hb_now w'' = hb_now w' + 32000 \<and> hb_holder w'' = Some (Some s'') \<and>
      outgoing s'' = outgoing s' @ concat (replicate 3 (build_command_message 3 token)))"
proof -
  from heartbeat_loop_acked [of w s reply ds "[]" token] assms obtain w' s' where
    w': "run_loop (heartbeat_iteration token) (length ds) w = (None, w')" "hb_holder w' = Some (Some s')"
    "outgoing s' = outgoing s @ concat (replicate (length ds) (build_command_message 3 token))"
    "incoming s' = []" "hb_now w' = hb_now w + 30000 * length ds + sum_list ds" "write_script s' = []"
    "hb_next_delay w' = 30000" "hb_failure_count w' = 0" by auto
  obtain w'' s'' where w'': "run_loop (heartbeat_iteration token) (3 + n) w' =
      (Some (Inl (Runtime (''command heartbeat reached failure limit (3/3): '' @ EMPTY_REPLY))), w'')"
    "hb_now w'' = hb_now w' + 32000" "hb_holder w'' = Some (Some s'')"
    "outgoing s'' = outgoing s' @ concat (replicate 3 (build_command_message 3 token))"
    using heartbeat_loop_closed [OF w'(2,4,6,7,8)] by blast
  have "run_loop (heartbeat_iteration token) (length ds + (3 + n)) w = run_loop (heartbeat_iteration token) (3 + n) w'"
    unfolding run_loop_add [of _ "length ds" "3 + n"] w'(1) by simp
  with w' w'' show ?thesis
    unfolding command_heartbeat_loop_def by metis
qed

section \<open>A heartbeat frame in two records\<close>

lemma native_frame_decodes:
  "length rest = 32 \<Longrightarrow>
   parse_native_control_frame (NATIVE_CONTROL_MAGIC @ u32_to_le v @ rest) = Some (from_code v)"
  by (simp add: parse_native_control_frame_def NATIVE_CONTROL_FRAME_LEN_def slice_def wire_simps)

text \<open>
  \<^bold>\<open>C40.\<close> The reader of the heartbeat reply waits for 36 bytes, the length of the plain reply, while a
  control frame has 40: a heartbeat acknowledgement sent as a frame is accepted when one read delivers
  it whole, but when a record boundary cuts it after its 36th to 39th byte the reader takes the first
  part for a malformed frame, which is fatal for the tunnel.
\<close>

theorem heartbeat_frame_split_fatal:
  assumes "length rest = 32" and "36 \<le> k" and "k < 40" and "write_script s = []"
    and "frame = NATIVE_CONTROL_MAGIC @ u32_to_le 15 @ rest"
  shows "fst (send_command_heartbeat (s\<lparr>incoming := [(d, Data frame)]\<rparr>) token) = Inr () \<and>
    (\<exists>reason. fst (send_command_heartbeat
       (s\<lparr>incoming := [(d, Data (take k frame)), (d', Data (drop k frame))]\<rparr>) token) = Inl (Hb_Fatal reason))"
proof -
  have len: "length frame = 40" using assms(1,5) by simp
  have "classify_command_heartbeat_reply frame = Hb_Ack"
    using native_frame_decodes [OF assms(1), of 15] assms(5)
    by (simp add: classify_command_heartbeat_reply_def parse_command_control_reply_def wire_simps from_code_def)
  with len assms(4) have whole: "fst (send_command_heartbeat (s\<lparr>incoming := [(d, Data frame)]\<rparr>) token) = Inr ()"
    using send_heartbeat_one_read [of "s\<lparr>incoming := [(d, Data frame)]\<rparr>" d frame "[]" token] by simp
  have "bytes_start_with NATIVE_CONTROL_MAGIC (take k frame)"
    using assms(2,5) by (simp add: wire_simps)
  moreover have "parse_native_control_frame (take k frame) = None"
    using len assms(3) by (simp add: parse_native_control_frame_def NATIVE_CONTROL_FRAME_LEN_def)
  ultimately obtain reason where "classify_command_heartbeat_reply (take k frame) = Hb_Outcome_Fatal reason"
    by (simp add: classify_command_heartbeat_reply_def parse_command_control_reply_def)
  with len assms(2-4) have "fst (send_command_heartbeat
      (s\<lparr>incoming := [(d, Data (take k frame)), (d', Data (drop k frame))]\<rparr>) token) = Inl (Hb_Fatal reason)"
    using send_heartbeat_one_read [of "s\<lparr>incoming := [(d, Data (take k frame)), (d', Data (drop k frame))]\<rparr>"
        d "take k frame" "[(d', Data (drop k frame))]" token] by simp
  with whole show ?thesis by blast
qed

section \<open>One runtime per process\<close>

lemma install_runtime_channels_cases:
  "install_runtime_channels tx rx g = (r, g') \<Longrightarrow>
   (case r of
      Inr _ \<Rightarrow> tg_sender g = None \<and> tg_sender g' = Some tx \<and> tg_receiver g' = Some (Some rx)
    | Inl _ \<Rightarrow> tg_sender g' = tg_sender g) \<and> tg_fatal g' = tg_fatal g"
  by (auto simp: install_runtime_channels_def Let_def split: if_splits)

lemma start_tunnel_runtime_cases:
  assumes "start_tunnel_runtime L nanos pid rx server token ips t g = (r, t', g')"
  shows "(case r of
      Inr th \<Rightarrow> tg_sender g = None \<and> tg_sender g' = Some \<lparr>ch_items = [], ch_receiver_alive = True\<rparr> \<and>
        tg_receiver g' = Some (Some rx)
    | Inl _ \<Rightarrow> tg_sender g' = tg_sender g) \<and> tg_fatal g' = None"
proof -
  have inst: "(case q of
      Inr _ \<Rightarrow> tg_sender g = None \<and> tg_sender h = Some tx \<and> tg_receiver h = Some (Some rx)
    | Inl _ \<Rightarrow> tg_sender h = tg_sender g) \<and> tg_fatal h = None"
    if "install_runtime_channels tx rx (clear_tunnel_fatal_reason g) = (q, h)" for tx q h
    using install_runtime_channels_cases [OF that]
    by (simp add: clear_tunnel_fatal_reason_def split: sum.splits)
  from assms show ?thesis
    by (auto simp: start_tunnel_runtime_def Let_def clear_tunnel_fatal_reason_def
        dest!: inst [unfolded clear_tunnel_fatal_reason_def] split: prod.splits sum.splits)
qed

text \<open>
  The tunnel starts once per process: a start that succeeds found no sender, leaves no fatal
  reason, and from then on packets can be sent, the receiver can be taken exactly once, and every
  further start fails and leaves the channels alone; a start that fails leaves the sender as it was
  (but has cleared the fatal reason on record).
\<close>

theorem tunnel_starts_once:
  "case start_tunnel_runtime L nanos pid rx server token ips t g of (r, t', g') \<Rightarrow>
     tunnel_fatal_reason g' = None \<and>
     (case r of
        Inl e \<Rightarrow> tg_sender g' = tg_sender g
      | Inr th \<Rightarrow> tg_sender g = None \<and> fst (send_tunnel_packet p g') = Inr () \<and>
          fst (take_tunnel_packet_receiver g') = Inr rx \<and>
          (\<exists>e. fst (take_tunnel_packet_receiver (snd (take_tunnel_packet_receiver g'))) = Inl e) \<and>
          (case start_tunnel_runtime L2 nanos2 pid2 rx2 server2 token2 ips2 t2 g' of (r2, t3, g2) \<Rightarrow>
             (\<exists>e. r2 = Inl e) \<and> tg_sender g2 = tg_sender g'))"
proof -
  obtain r t' g' where s: "start_tunnel_runtime L nanos pid rx server token ips t g = (r, t', g')"
    by (metis prod_cases3)
  obtain r2 t3 g2 where s2: "start_tunnel_runtime L2 nanos2 pid2 rx2 server2 token2 ips2 t2 g' = (r2, t3, g2)"
    by (metis prod_cases3)
  show ?thesis
    using start_tunnel_runtime_cases [OF s] start_tunnel_runtime_cases [OF s2] s s2
    by (cases r; cases r2)
       (auto simp: tunnel_fatal_reason_def send_tunnel_packet_def take_tunnel_packet_receiver_def)
qed

section \<open>Witnesses\<close>

definition toy_stream :: "(nat \<times> read_item) list \<Rightarrow> stream" where
  "toy_stream items = \<lparr>clock = 0, incoming = items, outgoing = [], write_script = []\<rparr>"

definition toy_params :: tunnel_params where
  "toy_params = \<lparr>tp_authority = ''vpn:443'', tp_host = ''vpn'', tp_token = replicate 48 97,
     tp_assigned_ip = [10, 1, 2, 3], tp_ip_rev = [3, 2, 1, 10], tp_heartbeat_dst = [10, 1, 0, 1],
     tp_heartbeat_tail = replicate 8 7\<rparr>"

definition toy_lib :: vpn_lib where
  "toy_lib = \<lparr>vl_connect = (\<lambda>_ _ _. (5, Inl (Runtime ''down''))), vl_clear_read_timeout = (\<lambda>_. Inr ())\<rparr>"

definition toy_time :: vpn_time where
  "toy_time = \<lparr>vt_now = 100, vt_connects = 0\<rparr>"

theorem heartbeat_frame_split_fatal_witness:
  "\<exists>reason. fst (send_command_heartbeat
     (toy_stream [(1, Data (NATIVE_CONTROL_MAGIC @ u32_to_le 15 @ replicate 28 0)), (1, Data (replicate 4 0))])
     (replicate 48 97)) = Inl (Hb_Fatal reason)"
proof -
  have s: "write_script (toy_stream []) = []" by (simp add: toy_stream_def)
  have t: "take 36 (NATIVE_CONTROL_MAGIC @ u32_to_le 15 @ replicate 32 0) = NATIVE_CONTROL_MAGIC @ u32_to_le 15 @ replicate 28 0"
    "drop 36 (NATIVE_CONTROL_MAGIC @ u32_to_le 15 @ replicate 32 (0 :: u8)) = replicate 4 0"
    by simp_all
  from heartbeat_frame_split_fatal [OF _ _ _ s refl, of "replicate 32 0" 36 1 "replicate 48 97" 1] t
  show ?thesis by (simp add: toy_stream_def)
qed

definition toy_heartbeat :: hb_state where
  "toy_heartbeat =
     \<lparr>hb_holder = Some (Some (toy_stream [(20, Data (u32_to_le 15 @ replicate 32 0)), (30, Data (u32_to_le 15 @ replicate 32 0))])),
      hb_now = 7, hb_failure_count = 2, hb_next_delay = 30000\<rparr>"

theorem command_heartbeat_life_witness:
  "\<exists>w' w''. command_heartbeat_loop (replicate 48 97) (length [20, 30 :: nat]) toy_heartbeat = (None, w') \<and>
    hb_now w' = 60057 \<and>
    command_heartbeat_loop (replicate 48 97) (length [20, 30 :: nat] + (3 + 0)) toy_heartbeat =
       (Some (Inl (Runtime (''command heartbeat reached failure limit (3/3): '' @ EMPTY_REPLY))), w'') \<and>
    hb_now w'' = 92057"
proof -
  let ?r = "u32_to_le 15 @ replicate 32 0"
  let ?s = "toy_stream [(20, Data ?r), (30, Data ?r)]"
  have a: "classify_command_heartbeat_reply ?r = Hb_Ack" by code_simp
  have h: "hb_holder toy_heartbeat = Some (Some ?s)" "incoming ?s = map (\<lambda>d. (d, Data ?r)) [20, 30]"
    "hb_next_delay toy_heartbeat = 30000" "36 \<le> length ?r" "length ?r \<le> 128" "write_script ?s = []"
    "[20, 30 :: nat] \<noteq> [] \<or> hb_failure_count toy_heartbeat = 0" and now: "hb_now toy_heartbeat = 7"
    by (simp_all add: toy_stream_def toy_heartbeat_def)
  from command_heartbeat_life [OF h(1-6) a h(7), of "replicate 48 97" 0] obtain w' w'' where
    "command_heartbeat_loop (replicate 48 97) (length [20, 30 :: nat]) toy_heartbeat = (None, w')"
    "hb_now w' = hb_now toy_heartbeat + 30000 * length [20, 30 :: nat] + sum_list [20, 30]"
    "command_heartbeat_loop (replicate 48 97) (length [20, 30 :: nat] + (3 + 0)) toy_heartbeat =
       (Some (Inl (Runtime (''command heartbeat reached failure limit (3/3): '' @ EMPTY_REPLY))), w'')"
    "hb_now w'' = hb_now w' + 32000" by blast
  then show ?thesis unfolding now by (intro exI [of _ w'] exI [of _ w'']) simp
qed



theorem open_command_stream_reply_witness:
  "case open_command_stream \<lparr>vl_connect = (\<lambda>_ _ _. (5, Inr (toy_stream
        [(1, Data [0, 0]), (1, Data ([0, 0, 10, 166, 80, 12, 0, 0, 0, 0, 10, 166, 64, 7] @ replicate 20 0))]))),
      vl_clear_read_timeout = (\<lambda>_. Inr ())\<rparr> ''vpn:443'' (replicate 48 CHR ''a'') toy_time
      \<lparr>tg_sender = None, tg_receiver = None :: unit option option, tg_command = None, tg_fatal = None\<rparr> of (r, t', g') \<Rightarrow>
    r = Inr \<lparr>ti_assigned_ip = [10, 166, 80, 12], ti_lan_ip = [10, 166, 64, 7]\<rparr> \<and> vt_connects t' = 1"
proof -
  let ?reply = "[0, 0, 0, 0, 10, 166, 80, 12, 0, 0, 0, 0, 10, 166, 64, 7] @ replicate 20 (0 :: u8)"
  let ?s = "toy_stream [(1, Data [0, 0]), (1, Data ([0, 0, 10, 166, 80, 12, 0, 0, 0, 0, 10, 166, 64, 7] @ replicate 20 0))]"
  let ?L = "\<lparr>vl_connect = (\<lambda>_ _ _. (5, Inr ?s)), vl_clear_read_timeout = (\<lambda>_. Inr ())\<rparr>"
  let ?g = "\<lparr>tg_sender = None, tg_receiver = None :: unit option option, tg_command = None, tg_fatal = None\<rparr>"
  have p: "parse_server ''vpn:443'' = Inr (''vpn:443'', ''vpn'')" by code_simp
  have t: "parse_protocol_token (replicate 48 CHR ''a'') = Inr (replicate 48 97)" by code_simp
  have c: "vl_connect ?L ''vpn:443'' ''vpn'' (vt_connects toy_time) = (5, Inr ?s)" by simp
  have d: "delivers ?s ?reply" by code_simp
  have r: "length ?reply = 36" "take 4 ?reply = [0, 0, 0, 0]" "script_delay ?s < 10000" "write_script ?s = []"
    "outgoing ?s = []" by (simp_all add: toy_stream_def script_delay_def)
  have sl: "slice 4 8 ?reply = [10, 166, 80, 12]" "slice 12 16 ?reply = [10, 166, 64, 7]"
    by (simp_all add: slice_def)
  from open_command_stream_reply [OF p t c d r, of ?g] show ?thesis
    unfolding sl by (auto simp: toy_time_def split: prod.splits)
qed

theorem tunnel_fatal_first_wins_witness:
  "wait_tunnel_fatal_reason (record_runtime_fatal ''second'' (record_runtime_fatal ''first''
     \<lparr>tg_sender = None, tg_receiver = None :: unit option option, tg_command = None, tg_fatal = None\<rparr>)) = Some ''first''"
proof -
  let ?g = "\<lparr>tg_sender = None, tg_receiver = None :: unit option option, tg_command = None, tg_fatal = None\<rparr>"
  let ?th = "\<lparr>th_params = toy_params,
     th_rx = \<lparr>rx_stream = toy_stream [], rx_time = toy_time, rx_retries = 0, rx_sent = []\<rparr>,
     th_tx = \<lparr>tx_stream = toy_stream [], tx_time = toy_time, tx_retries = 0, tx_next_heartbeat = 12100, tx_queue = []\<rparr>,
     th_heartbeat = start_command_heartbeat None 100\<rparr>"
  let ?s0 = "system_of ?th ?g"
  let ?s1 = "?s0\<lparr>sys_globals := record_runtime_fatal ''first'' (sys_globals ?s0)\<rparr>"
  let ?s2 = "?s1\<lparr>sys_globals := record_runtime_fatal ''second'' (sys_globals ?s1)\<rparr>"
  have r1: "tunnel_run (\<lambda>_. False) toy_lib toy_lib toy_params ?s0 ?s1"
    by (rule Run_Step [OF Run_Start External])
  have r2: "tunnel_run (\<lambda>_. False) toy_lib toy_lib toy_params ?s1 ?s2"
    by (rule Run_Step [OF Run_Start External])
  from tunnel_fatal_first_wins [OF r1 r2] show ?thesis
    by (simp add: system_of_def tunnel_fatal_reason_def record_runtime_fatal_def record_tunnel_fatal_reason_def)
qed

end
