(* ===== verification/Netstack.thy ===== *)
theory Netstack
  imports TunnelRuntime "HOL-Library.AList" "HOL-Library.Monad_Syntax"
begin

text \<open>
  \<^verbatim>\<open>ec-core/src/netstack.rs\<close> and \<^verbatim>\<open>netstack_device.rs\<close>: the user-space network stack. The \<^verbatim>\<open>smoltcp\<close>
  crate (its interface, socket set, TCP and UDP sockets) is a parameter, the record \<open>smoltcp\<close>. The
  state of the stack's thread is the record \<open>netstack\<close>; an operation that looks up a handle, or reads
  a socket until it is empty, returns an option: \<open>None\<close> is a panic on a handle that is not in the
  socket set, or a loop that does not end. A hash map is an association list in its order of
  iteration. The channel of a connection is what was sent over it; \<open>gone cid n\<close> says whether its
  receiver has been dropped when \<open>n\<close> items have been sent. Time, in milliseconds, passes in waiting.
\<close>

definition OPEN_CONN_TIMEOUT :: nat where "OPEN_CONN_TIMEOUT = 10000"
definition SOCKET_BUFFER_CAPACITY :: nat where "SOCKET_BUFFER_CAPACITY = 64 * 1024"
definition UDP_PACKET_CAPACITY :: nat where "UDP_PACKET_CAPACITY = 32"
definition UDP_BUFFER_CAPACITY :: nat where "UDP_BUFFER_CAPACITY = 64 * 1024"
definition MAX_CONTROL_BATCH :: nat where "MAX_CONTROL_BATCH = 64"
definition NETSTACK_CONTROL_DISCONNECTED :: string where
  "NETSTACK_CONTROL_DISCONNECTED = ''netstack control channel disconnected''"

section \<open>What the stack uses of smoltcp\<close>

datatype ('tcp, 'udp) any_socket = Tcp_Socket 'tcp | Udp_Socket 'udp

text \<open>
  A poll takes the packets queued in the device and gives back those it did not receive and the
  frames it transmitted. \<open>set_get\<close> is \<^verbatim>\<open>get_mut\<close>, \<open>set_put\<close> the write through its reference.
\<close>

record ('ifc, 'set, 'tcp, 'udp) smoltcp =
  if_new :: "u64 \<Rightarrow> ipv4 \<Rightarrow> 'ifc"
  if_poll_delay :: "nat \<Rightarrow> 'set \<Rightarrow> 'ifc \<Rightarrow> nat option \<times> 'ifc"
  if_poll :: "nat \<Rightarrow> bytes list \<Rightarrow> 'set \<Rightarrow> 'ifc \<Rightarrow> bytes list \<times> bytes list \<times> 'set \<times> 'ifc"
  set_empty :: 'set
  set_add :: "('tcp, 'udp) any_socket \<Rightarrow> 'set \<Rightarrow> nat \<times> 'set"
  set_get :: "'set \<Rightarrow> nat \<Rightarrow> ('tcp, 'udp) any_socket option"
  set_put :: "nat \<Rightarrow> ('tcp, 'udp) any_socket \<Rightarrow> 'set \<Rightarrow> 'set"
  set_remove :: "nat \<Rightarrow> 'set \<Rightarrow> 'set"
  ts_new :: "nat \<Rightarrow> nat \<Rightarrow> 'tcp"
  ts_connect :: "sock_v4 \<Rightarrow> u16 \<Rightarrow> 'ifc \<Rightarrow> 'tcp \<Rightarrow> (string + unit) \<times> 'ifc \<times> 'tcp"
  ts_can_send :: "'tcp \<Rightarrow> bool"
  ts_send :: "bytes \<Rightarrow> 'tcp \<Rightarrow> (unit + nat) \<times> 'tcp"
  ts_can_recv :: "'tcp \<Rightarrow> bool"
  ts_recv :: "nat \<Rightarrow> 'tcp \<Rightarrow> (unit + bytes) \<times> 'tcp"
  ts_may_send :: "'tcp \<Rightarrow> bool"
  ts_close :: "'tcp \<Rightarrow> 'tcp"
  ts_is_open :: "'tcp \<Rightarrow> bool"
  us_new :: "nat \<times> nat \<Rightarrow> nat \<times> nat \<Rightarrow> 'udp"
  us_bind :: "u16 \<Rightarrow> 'udp \<Rightarrow> (string + unit) \<times> 'udp"
  us_can_send :: "'udp \<Rightarrow> bool"
  us_send :: "bytes \<Rightarrow> sock_v4 \<Rightarrow> 'udp \<Rightarrow> (unit + unit) \<times> 'udp"
  us_can_recv :: "'udp \<Rightarrow> bool"
  us_recv :: "nat \<Rightarrow> 'udp \<Rightarrow> (unit + bytes \<times> sock_v4) \<times> 'udp"
  us_close :: "'udp \<Rightarrow> 'udp"
  us_is_open :: "'udp \<Rightarrow> bool"

fun tcp_of :: "('tcp, 'udp) any_socket \<Rightarrow> 'tcp option" where
  "tcp_of (Tcp_Socket t) = Some t"
| "tcp_of (Udp_Socket u) = None"

fun udp_of :: "('tcp, 'udp) any_socket \<Rightarrow> 'udp option" where
  "udp_of (Udp_Socket u) = Some u"
| "udp_of (Tcp_Socket t) = None"

section \<open>Messages and state\<close>

datatype control_message =
    Tunnel_Packet bytes
  | Open sock_v4
  | Open_Udp
  | Send u64 bytes
  | Send_Udp u64 sock_v4 bytes
  | Close u64
  | Close_Udp u64

text \<open>What \<^verbatim>\<open>reply.send\<close> is given: the id of the new connection (its receiver is the channel).\<close>

datatype control_reply = Opened "u64 ec_result" | Opened_Udp "u64 ec_result"

record connection_state =
  cn_handle :: nat
  cn_uplink :: "bytes list"
  cn_pending :: "bytes list"
  cn_close_requested :: bool

record udp_association_state =
  as_handle :: nat
  as_uplink :: "(sock_v4 \<times> bytes) list"
  as_pending :: "(sock_v4 \<times> bytes) list"
  as_close_requested :: bool

record ('ifc, 'set) netstack =
  ns_device :: "bytes list"
  ns_iface :: 'ifc
  ns_sockets :: 'set
  ns_connections :: "(u64 \<times> connection_state) list"
  ns_associations :: "(u64 \<times> udp_association_state) list"
  ns_next_id :: u64
  ns_next_port :: u16
  ns_replies :: "control_reply list"

section \<open>The device\<close>

definition device_new :: "bytes list" where "device_new = []"

definition push_rx :: "bytes \<Rightarrow> bytes list \<Rightarrow> bytes list" where
  "push_rx packet queue = queue @ [packet]"

definition device_receive :: "bytes list \<Rightarrow> bytes option \<times> bytes list" where
  "device_receive queue = (case queue of [] \<Rightarrow> (None, []) | frame # rest \<Rightarrow> (Some frame, rest))"

text \<open>What the device tells the stack: IP packets without a link layer, and its largest packet.\<close>

datatype medium = Medium_Ip

definition device_capabilities :: "medium \<times> nat" where "device_capabilities = (Medium_Ip, 1500)"

text \<open>\<open>warned\<close> is \<^verbatim>\<open>CLOSED_TUNNEL_WARNED\<close>.\<close>

definition device_transmit :: "bytes \<Rightarrow> bool \<times> 'rx tunnel_globals \<Rightarrow> string list \<times> bool \<times> 'rx tunnel_globals" where
  "device_transmit frame s =
     (case s of (warned, g) \<Rightarrow>
        (case send_tunnel_packet frame g of
           (Inr _, g) \<Rightarrow> ([], warned, g)
         | (Inl err, g) \<Rightarrow>
             (let detail = concise_error err in
              if str_contains ''sending on a closed channel'' detail then
                (if warned then ([], True, g)
                 else
                   ([case tunnel_fatal_reason g of
                       Some reason \<Rightarrow> ''dropping outbound packet; tunnel already closed: '' @ reason
                     | None \<Rightarrow> ''dropping outbound packet; tunnel channel is closed''], True, g))
              else ([''send tunnel packet failed: '' @ detail], warned, g))))"

section \<open>Ports, ids, targets\<close>

definition alloc_local_port :: "u16 \<Rightarrow> u16 \<times> u16" where
  "alloc_local_port next = (next, if 60000 \<le> next then 40000 else next + 1)"

definition resolve_ipv4_target :: "resolver \<Rightarrow> string \<Rightarrow> sock_v4 ec_result" where
  "resolve_ipv4_target lookup target =
     try_map (\<lambda>e. Runtime (''resolve target failed: '' @ target @ '': '' @ e)) (to_socket_addrs lookup target)
       (\<lambda>addrs. ok_or (Runtime (''no ipv4 address resolved for '' @ target)) (first_v4 addrs))"

definition netstack_random_seed :: "nat option \<Rightarrow> u64" where
  "netstack_random_seed nanos = (case nanos of Some n \<Rightarrow> word_of_nat n | None \<Rightarrow> 0x6e6574737461636b)"

section \<open>Opening\<close>

definition open_connection :: "('ifc, 'set, 'tcp, 'udp) smoltcp \<Rightarrow> sock_v4 \<Rightarrow> ('ifc, 'set) netstack
    \<Rightarrow> (u64 ec_result \<times> ('ifc, 'set) netstack) option" where
  "open_connection S target st =
     (case set_add S (Tcp_Socket (ts_new S SOCKET_BUFFER_CAPACITY SOCKET_BUFFER_CAPACITY)) (ns_sockets st) of
        (handle, sockets) \<Rightarrow>
          (case alloc_local_port (ns_next_port st) of (local_port, next_port) \<Rightarrow> do {
             sock \<leftarrow> set_get S sockets handle;
             sock \<leftarrow> tcp_of sock;
             Some
               (case ts_connect S target local_port (ns_iface st) sock of
                  (Inr _, iface, sock) \<Rightarrow>
                    (Inr (ns_next_id st),
                     st\<lparr>ns_iface := iface, ns_sockets := set_put S handle (Tcp_Socket sock) sockets,
                        ns_next_port := next_port, ns_next_id := ns_next_id st + 1,
                        ns_connections := AList.update (ns_next_id st)
                          \<lparr>cn_handle = handle, cn_uplink = [], cn_pending = [], cn_close_requested = False\<rparr>
                          (ns_connections st)\<rparr>)
                | (Inl e, iface, sock) \<Rightarrow>
                    (Inl (Runtime (''tcp connect failed: '' @ e)),
                     st\<lparr>ns_iface := iface, ns_next_port := next_port,
                        ns_sockets := set_remove S handle (set_put S handle (Tcp_Socket sock) sockets)\<rparr>))
           }))"

definition open_udp_association_inner :: "('ifc, 'set, 'tcp, 'udp) smoltcp \<Rightarrow> ('ifc, 'set) netstack
    \<Rightarrow> u64 ec_result \<times> ('ifc, 'set) netstack" where
  "open_udp_association_inner S st =
     (case alloc_local_port (ns_next_port st) of (local_port, next_port) \<Rightarrow>
        (case us_bind S local_port
            (us_new S (UDP_PACKET_CAPACITY, UDP_BUFFER_CAPACITY) (UDP_PACKET_CAPACITY, UDP_BUFFER_CAPACITY)) of
           (Inl e, _) \<Rightarrow> (Inl (Runtime (''udp bind failed: '' @ e)), st\<lparr>ns_next_port := next_port\<rparr>)
         | (Inr _, sock) \<Rightarrow>
             (case set_add S (Udp_Socket sock) (ns_sockets st) of (handle, sockets) \<Rightarrow>
                (Inr (ns_next_id st),
                 st\<lparr>ns_sockets := sockets, ns_next_port := next_port, ns_next_id := ns_next_id st + 1,
                    ns_associations := AList.update (ns_next_id st)
                      \<lparr>as_handle = handle, as_uplink = [], as_pending = [], as_close_requested = False\<rparr>
                      (ns_associations st)\<rparr>))))"

section \<open>Control messages\<close>

definition at_key :: "'k \<Rightarrow> ('v \<Rightarrow> 'v) \<Rightarrow> ('k \<times> 'v) list \<Rightarrow> ('k \<times> 'v) list" where
  "at_key k f = map (\<lambda>(i, v). (i, if i = k then f v else v))"

fun handle_control_message :: "('ifc, 'set, 'tcp, 'udp) smoltcp \<Rightarrow> control_message \<Rightarrow> ('ifc, 'set) netstack
    \<Rightarrow> ('ifc, 'set) netstack option" where
  "handle_control_message S (Tunnel_Packet packet) st = Some (st\<lparr>ns_device := push_rx packet (ns_device st)\<rparr>)"
| "handle_control_message S (Open target) st = do {
     (result, st) \<leftarrow> open_connection S target st;
     Some (st\<lparr>ns_replies := ns_replies st @ [Opened result]\<rparr>)
   }"
| "handle_control_message S Open_Udp st =
     (case open_udp_association_inner S st of (result, st) \<Rightarrow>
        Some (st\<lparr>ns_replies := ns_replies st @ [Opened_Udp result]\<rparr>))"
| "handle_control_message S (Send cid data) st =
     Some (st\<lparr>ns_connections := at_key cid (\<lambda>c. c\<lparr>cn_pending := cn_pending c @ [data]\<rparr>) (ns_connections st)\<rparr>)"
| "handle_control_message S (Send_Udp cid target data) st =
     Some (st\<lparr>ns_associations := at_key cid (\<lambda>a. a\<lparr>as_pending := as_pending a @ [(target, data)]\<rparr>) (ns_associations st)\<rparr>)"
| "handle_control_message S (Close cid) st =
     Some (st\<lparr>ns_connections := at_key cid (\<lambda>c. c\<lparr>cn_close_requested := True\<rparr>) (ns_connections st)\<rparr>)"
| "handle_control_message S (Close_Udp cid) st =
     Some (st\<lparr>ns_associations := at_key cid (\<lambda>a. a\<lparr>as_close_requested := True\<rparr>) (ns_associations st)\<rparr>)"

section \<open>Moving data\<close>

text \<open>
  The loop of \<^verbatim>\<open>pump_pending_sends\<close> on the queue of chunks: the chunks left, whether the socket
  refused one, and the socket.
\<close>

fun send_chunks :: "('ifc, 'set, 'tcp, 'udp) smoltcp \<Rightarrow> bytes list \<Rightarrow> 'tcp \<Rightarrow> bytes list \<times> bool \<times> 'tcp" where
  "send_chunks S [] sock = ([], False, sock)"
| "send_chunks S (chunk # rest) sock =
     (if ts_can_send S sock then
        (case ts_send S chunk sock of
           (Inr sent, sock) \<Rightarrow>
             if sent = length chunk then send_chunks S rest sock else (drop sent chunk # rest, False, sock)
         | (Inl _, sock) \<Rightarrow> (rest, True, sock))
      else (chunk # rest, False, sock))"

definition pump_pending_sends :: "('ifc, 'set, 'tcp, 'udp) smoltcp \<Rightarrow> 'tcp \<times> connection_state \<Rightarrow> 'tcp \<times> connection_state" where
  "pump_pending_sends S x =
     (case x of (sock, conn) \<Rightarrow>
        (case send_chunks S (cn_pending conn) sock of (rest, refused, sock) \<Rightarrow>
           (sock, conn\<lparr>cn_pending := rest, cn_close_requested := cn_close_requested conn \<or> refused\<rparr>)))"

text \<open>The loop of \<^verbatim>\<open>pump_uplink_reads\<close>: what is in the channel, whether its receiver is gone, the socket.\<close>

partial_function (option) recv_chunks :: "('ifc, 'set, 'tcp, 'udp) smoltcp \<Rightarrow> (nat \<Rightarrow> bool) \<Rightarrow> bytes list \<Rightarrow> 'tcp
    \<Rightarrow> (bytes list \<times> bool \<times> 'tcp) option" where
  "recv_chunks S gone uplink sock =
     (if ts_can_recv S sock then
        (case ts_recv S 4096 sock of
           (Inr buf, sock) \<Rightarrow>
             if buf = [] then Some (uplink, False, sock)
             else if gone (length uplink) then Some (uplink, True, sock)
             else recv_chunks S gone (uplink @ [buf]) sock
         | (Inl _, sock) \<Rightarrow> Some (uplink, False, sock))
      else Some (uplink, False, sock))"

declare recv_chunks.simps [code]

definition pump_uplink_reads :: "('ifc, 'set, 'tcp, 'udp) smoltcp \<Rightarrow> (nat \<Rightarrow> bool) \<Rightarrow> 'tcp \<times> connection_state
    \<Rightarrow> ('tcp \<times> connection_state) option" where
  "pump_uplink_reads S gone x =
     (case x of (sock, conn) \<Rightarrow> do {
        (uplink, lost, sock) \<leftarrow> recv_chunks S gone (cn_uplink conn) sock;
        Some (sock, conn\<lparr>cn_uplink := uplink, cn_close_requested := cn_close_requested conn \<or> lost\<rparr>)
      })"

fun send_datagrams :: "('ifc, 'set, 'tcp, 'udp) smoltcp \<Rightarrow> (sock_v4 \<times> bytes) list \<Rightarrow> 'udp
    \<Rightarrow> (sock_v4 \<times> bytes) list \<times> bool \<times> 'udp" where
  "send_datagrams S [] sock = ([], False, sock)"
| "send_datagrams S ((target, data) # rest) sock =
     (if us_can_send S sock then
        (case us_send S data target sock of
           (Inr _, sock) \<Rightarrow> send_datagrams S rest sock
         | (Inl _, sock) \<Rightarrow> (rest, True, sock))
      else ((target, data) # rest, False, sock))"

definition pump_pending_udp_sends :: "('ifc, 'set, 'tcp, 'udp) smoltcp \<Rightarrow> 'udp \<times> udp_association_state
    \<Rightarrow> 'udp \<times> udp_association_state" where
  "pump_pending_udp_sends S x =
     (case x of (sock, assoc) \<Rightarrow>
        (case send_datagrams S (as_pending assoc) sock of (rest, refused, sock) \<Rightarrow>
           (sock, assoc\<lparr>as_pending := rest, as_close_requested := as_close_requested assoc \<or> refused\<rparr>)))"

partial_function (option) recv_datagrams :: "('ifc, 'set, 'tcp, 'udp) smoltcp \<Rightarrow> (nat \<Rightarrow> bool)
    \<Rightarrow> (sock_v4 \<times> bytes) list \<Rightarrow> 'udp \<Rightarrow> ((sock_v4 \<times> bytes) list \<times> bool \<times> 'udp) option" where
  "recv_datagrams S gone uplink sock =
     (if us_can_recv S sock then
        (case us_recv S UDP_BUFFER_CAPACITY sock of
           (Inr (data, source), sock) \<Rightarrow>
             if gone (length uplink) then Some (uplink, True, sock)
             else recv_datagrams S gone (uplink @ [(source, data)]) sock
         | (Inl _, sock) \<Rightarrow> Some (uplink, False, sock))
      else Some (uplink, False, sock))"

declare recv_datagrams.simps [code]

definition pump_udp_reads :: "('ifc, 'set, 'tcp, 'udp) smoltcp \<Rightarrow> (nat \<Rightarrow> bool) \<Rightarrow> 'udp \<times> udp_association_state
    \<Rightarrow> ('udp \<times> udp_association_state) option" where
  "pump_udp_reads S gone x =
     (case x of (sock, assoc) \<Rightarrow> do {
        (uplink, lost, sock) \<leftarrow> recv_datagrams S gone (as_uplink assoc) sock;
        Some (sock, assoc\<lparr>as_uplink := uplink, as_close_requested := as_close_requested assoc \<or> lost\<rparr>)
      })"

section \<open>Driving\<close>

text \<open>The body of the loops of \<^verbatim>\<open>drive_connections\<close> and \<^verbatim>\<open>drive_udp_associations\<close>.\<close>

definition drive_connection :: "('ifc, 'set, 'tcp, 'udp) smoltcp \<Rightarrow> (nat \<Rightarrow> bool) \<Rightarrow> 'tcp \<times> connection_state
    \<Rightarrow> ('tcp \<times> connection_state) option" where
  "drive_connection S gone x = do {
     (sock, conn) \<leftarrow> pump_uplink_reads S gone (pump_pending_sends S x);
     Some (if cn_close_requested conn \<and> ts_may_send S sock then ts_close S sock else sock, conn)
   }"

definition drive_udp_association :: "('ifc, 'set, 'tcp, 'udp) smoltcp \<Rightarrow> (nat \<Rightarrow> bool) \<Rightarrow> 'udp \<times> udp_association_state
    \<Rightarrow> ('udp \<times> udp_association_state) option" where
  "drive_udp_association S gone x = do {
     (sock, assoc) \<leftarrow> pump_udp_reads S gone (pump_pending_udp_sends S x);
     Some (if as_close_requested assoc then us_close S sock else sock, assoc)
   }"

fun drive_conn_loop :: "('ifc, 'set, 'tcp, 'udp) smoltcp \<Rightarrow> (u64 \<Rightarrow> nat \<Rightarrow> bool) \<Rightarrow> (u64 \<times> connection_state) list \<Rightarrow> 'set
    \<Rightarrow> ((u64 \<times> connection_state) list \<times> u64 list \<times> 'set) option" where
  "drive_conn_loop S gone [] sockets = Some ([], [], sockets)"
| "drive_conn_loop S gone ((cid, conn) # rest) sockets = do {
     sock \<leftarrow> set_get S sockets (cn_handle conn);
     sock \<leftarrow> tcp_of sock;
     (sock, conn') \<leftarrow> drive_connection S (gone cid) (sock, conn);
     (rest, remove_ids, sockets) \<leftarrow> drive_conn_loop S gone rest (set_put S (cn_handle conn) (Tcp_Socket sock) sockets);
     Some ((cid, conn') # rest, if ts_is_open S sock then remove_ids else cid # remove_ids, sockets)
   }"

definition remove_connection :: "('ifc, 'set, 'tcp, 'udp) smoltcp \<Rightarrow> u64 \<Rightarrow> (u64 \<times> connection_state) list \<times> 'set
    \<Rightarrow> (u64 \<times> connection_state) list \<times> 'set" where
  "remove_connection S cid x =
     (case x of (conns, sockets) \<Rightarrow>
        (case map_of conns cid of
           Some conn \<Rightarrow> (AList.delete cid conns, set_remove S (cn_handle conn) sockets)
         | None \<Rightarrow> (conns, sockets)))"

definition drive_connections :: "('ifc, 'set, 'tcp, 'udp) smoltcp \<Rightarrow> (u64 \<Rightarrow> nat \<Rightarrow> bool) \<Rightarrow> (u64 \<times> connection_state) list \<Rightarrow> 'set
    \<Rightarrow> ((u64 \<times> connection_state) list \<times> 'set) option" where
  "drive_connections S gone conns sockets = do {
     (conns, remove_ids, sockets) \<leftarrow> drive_conn_loop S gone conns sockets;
     Some (fold (remove_connection S) remove_ids (conns, sockets))
   }"

fun drive_assoc_loop :: "('ifc, 'set, 'tcp, 'udp) smoltcp \<Rightarrow> (u64 \<Rightarrow> nat \<Rightarrow> bool) \<Rightarrow> (u64 \<times> udp_association_state) list
    \<Rightarrow> 'set \<Rightarrow> ((u64 \<times> udp_association_state) list \<times> u64 list \<times> 'set) option" where
  "drive_assoc_loop S gone [] sockets = Some ([], [], sockets)"
| "drive_assoc_loop S gone ((cid, assoc) # rest) sockets = do {
     sock \<leftarrow> set_get S sockets (as_handle assoc);
     sock \<leftarrow> udp_of sock;
     (sock, assoc') \<leftarrow> drive_udp_association S (gone cid) (sock, assoc);
     (rest, remove_ids, sockets) \<leftarrow> drive_assoc_loop S gone rest (set_put S (as_handle assoc) (Udp_Socket sock) sockets);
     Some ((cid, assoc') # rest, if us_is_open S sock then remove_ids else cid # remove_ids, sockets)
   }"

definition remove_association :: "('ifc, 'set, 'tcp, 'udp) smoltcp \<Rightarrow> u64 \<Rightarrow> (u64 \<times> udp_association_state) list \<times> 'set
    \<Rightarrow> (u64 \<times> udp_association_state) list \<times> 'set" where
  "remove_association S cid x =
     (case x of (assocs, sockets) \<Rightarrow>
        (case map_of assocs cid of
           Some assoc \<Rightarrow> (AList.delete cid assocs, set_remove S (as_handle assoc) sockets)
         | None \<Rightarrow> (assocs, sockets)))"

definition drive_udp_associations :: "('ifc, 'set, 'tcp, 'udp) smoltcp \<Rightarrow> (u64 \<Rightarrow> nat \<Rightarrow> bool)
    \<Rightarrow> (u64 \<times> udp_association_state) list \<Rightarrow> 'set \<Rightarrow> ((u64 \<times> udp_association_state) list \<times> 'set) option" where
  "drive_udp_associations S gone assocs sockets = do {
     (assocs, remove_ids, sockets) \<leftarrow> drive_assoc_loop S gone assocs sockets;
     Some (fold (remove_association S) remove_ids (assocs, sockets))
   }"

section \<open>The loop of the stack's thread\<close>

definition control_channel_disconnected_err :: ec_error where
  "control_channel_disconnected_err = Runtime NETSTACK_CONTROL_DISCONNECTED"

text \<open>
  The control channel is the messages that will arrive, with their times, and whether its senders
  are gone after them; \<^verbatim>\<open>try_recv\<close> is a receive that does not wait (\<open>Recv_Timeout\<close>: empty).
  \<^verbatim>\<open>wait_control_message\<close> without a timeout waits for ever (\<open>None\<close>) if no message arrives any more.
\<close>

type_synonym control_queue = "(nat \<times> control_message) list"

definition wait_control_message :: "nat \<Rightarrow> bool \<Rightarrow> control_queue \<Rightarrow> nat option
    \<Rightarrow> (control_message option ec_result \<times> nat \<times> control_queue) option" where
  "wait_control_message now closed queue timeout =
     (case timeout of
        Some delay \<Rightarrow>
          Some (case recv_timeout now delay closed queue of
                  (Received msg, now, queue) \<Rightarrow> (Inr (Some msg), now, queue)
                | (Recv_Timeout, now, queue) \<Rightarrow> (Inr None, now, queue)
                | (Recv_Disconnected, now, queue) \<Rightarrow> (Inl control_channel_disconnected_err, now, queue))
      | None \<Rightarrow>
          (case queue of
             (a, msg) # rest \<Rightarrow> Some (Inr (Some msg), max now a, rest)
           | [] \<Rightarrow> if closed then Some (Inl control_channel_disconnected_err, now, []) else None))"

fun batch_loop :: "('ifc, 'set, 'tcp, 'udp) smoltcp \<Rightarrow> bool \<Rightarrow> nat \<Rightarrow> nat \<Rightarrow> control_queue \<Rightarrow> ('ifc, 'set) netstack
    \<Rightarrow> (unit ec_result \<times> control_queue \<times> ('ifc, 'set) netstack) option" where
  "batch_loop S closed now 0 queue st = Some (Inr (), queue, st)"
| "batch_loop S closed now (Suc n) queue st =
     (case recv_timeout now 0 closed queue of
        (Received msg, _, queue) \<Rightarrow> do {
          st \<leftarrow> handle_control_message S msg st;
          batch_loop S closed now n queue st
        }
      | (Recv_Timeout, _, queue) \<Rightarrow> Some (Inr (), queue, st)
      | (Recv_Disconnected, _, queue) \<Rightarrow> Some (Inl control_channel_disconnected_err, queue, st))"

definition process_control_batch :: "('ifc, 'set, 'tcp, 'udp) smoltcp \<Rightarrow> bool \<Rightarrow> nat \<Rightarrow> control_message \<Rightarrow> control_queue
    \<Rightarrow> ('ifc, 'set) netstack \<Rightarrow> (unit ec_result \<times> control_queue \<times> ('ifc, 'set) netstack) option" where
  "process_control_batch S closed now first_msg queue st = do {
     st \<leftarrow> handle_control_message S first_msg st;
     batch_loop S closed now (MAX_CONTROL_BATCH - 1) queue st
   }"

text \<open>How the thread ends: with an error, in a panic or a loop that does not end, or waiting for ever.\<close>

datatype stack_end = Stack_Error ec_error | Stack_Stuck | Stack_Idle

record ('ifc, 'set, 'rx) stack_thread =
  sk_now :: nat
  sk_queue :: control_queue
  sk_stack :: "('ifc, 'set) netstack"
  sk_warned :: bool
  sk_globals :: "'rx tunnel_globals"
  sk_warnings :: "string list"

fun transmit_frames :: "bytes list \<Rightarrow> ('ifc, 'set, 'rx) stack_thread \<Rightarrow> ('ifc, 'set, 'rx) stack_thread" where
  "transmit_frames [] w = w"
| "transmit_frames (frame # frames) w =
     (case device_transmit frame (sk_warned w, sk_globals w) of
        (warnings, warned, g) \<Rightarrow>
          transmit_frames frames (w\<lparr>sk_warned := warned, sk_globals := g, sk_warnings := sk_warnings w @ warnings\<rparr>))"

definition netstack_start :: "('ifc, 'set, 'tcp, 'udp) smoltcp \<Rightarrow> nat option \<Rightarrow> bytes \<Rightarrow> ('ifc, 'set) netstack" where
  "netstack_start S nanos ip =
     \<lparr>ns_device = device_new,
      ns_iface = if_new S (netstack_random_seed nanos)
        (Ipv4 (ip ! 0) (ip ! 1) (ip ! 2) (ip ! 3)),
      ns_sockets = set_empty S, ns_connections = [], ns_associations = [],
      ns_next_id = 1, ns_next_port = 40000, ns_replies = []\<rparr>"

text \<open>\<^verbatim>\<open>iface.poll\<close>, with the frames it transmits, then the two drives.\<close>

definition drive_all :: "('ifc, 'set, 'tcp, 'udp) smoltcp \<Rightarrow> (u64 \<Rightarrow> nat \<Rightarrow> bool) \<Rightarrow> ('ifc, 'set) netstack
    \<Rightarrow> ('ifc, 'set) netstack option" where
  "drive_all S gone st = do {
     (conns, sockets) \<leftarrow> drive_connections S gone (ns_connections st) (ns_sockets st);
     (assocs, sockets) \<leftarrow> drive_udp_associations S gone (ns_associations st) sockets;
     Some (st\<lparr>ns_connections := conns, ns_associations := assocs, ns_sockets := sockets\<rparr>)
   }"

definition poll_and_drive :: "('ifc, 'set, 'tcp, 'udp) smoltcp \<Rightarrow> (u64 \<Rightarrow> nat \<Rightarrow> bool)
    \<Rightarrow> ('ifc, 'set, 'rx) stack_thread \<Rightarrow> stack_end option \<times> ('ifc, 'set, 'rx) stack_thread" where
  "poll_and_drive S gone w =
     (case if_poll S (sk_now w) (ns_device (sk_stack w)) (ns_sockets (sk_stack w)) (ns_iface (sk_stack w)) of
        (device, frames, sockets, iface) \<Rightarrow>
          (let st = (sk_stack w)\<lparr>ns_device := device, ns_sockets := sockets, ns_iface := iface\<rparr>;
               w = transmit_frames frames (w\<lparr>sk_stack := st\<rparr>)
           in case drive_all S gone st of
                None \<Rightarrow> (Some Stack_Stuck, w)
              | Some st \<Rightarrow> (None, w\<lparr>sk_stack := st\<rparr>)))"

definition netstack_iteration :: "('ifc, 'set, 'tcp, 'udp) smoltcp \<Rightarrow> (u64 \<Rightarrow> nat \<Rightarrow> bool) \<Rightarrow> bool
    \<Rightarrow> ('ifc, 'set, 'rx) stack_thread \<Rightarrow> stack_end option \<times> ('ifc, 'set, 'rx) stack_thread" where
  "netstack_iteration S gone closed w =
     (case if_poll_delay S (sk_now w) (ns_sockets (sk_stack w)) (ns_iface (sk_stack w)) of
        (wait, iface) \<Rightarrow>
          (let w = w\<lparr>sk_stack := (sk_stack w)\<lparr>ns_iface := iface\<rparr>\<rparr> in
           case wait_control_message (sk_now w) closed (sk_queue w) wait of
             None \<Rightarrow> (Some Stack_Idle, w)
           | Some (Inl e, now, queue) \<Rightarrow> (Some (Stack_Error e), w\<lparr>sk_now := now, sk_queue := queue\<rparr>)
           | Some (Inr None, now, queue) \<Rightarrow> poll_and_drive S gone (w\<lparr>sk_now := now, sk_queue := queue\<rparr>)
           | Some (Inr (Some msg), now, queue) \<Rightarrow>
               (case process_control_batch S closed now msg queue (sk_stack w) of
                  None \<Rightarrow> (Some Stack_Stuck, w\<lparr>sk_now := now, sk_queue := queue\<rparr>)
                | Some (Inl e, queue, st) \<Rightarrow>
                    (Some (Stack_Error e), w\<lparr>sk_now := now, sk_queue := queue, sk_stack := st\<rparr>)
                | Some (Inr _, queue, st) \<Rightarrow>
                    poll_and_drive S gone (w\<lparr>sk_now := now, sk_queue := queue, sk_stack := st\<rparr>))))"

definition run_netstack_loop :: "('ifc, 'set, 'tcp, 'udp) smoltcp \<Rightarrow> (u64 \<Rightarrow> nat \<Rightarrow> bool) \<Rightarrow> bool \<Rightarrow> nat
    \<Rightarrow> ('ifc, 'set, 'rx) stack_thread \<Rightarrow> stack_end option \<times> ('ifc, 'set, 'rx) stack_thread" where
  "run_netstack_loop S gone closed fuel w = run_loop (netstack_iteration S gone closed) fuel w"

section \<open>Starting the stack, and its clients\<close>

text \<open>
  \<open>started\<close> is whether \<^verbatim>\<open>CONTROL_TX\<close> is set (its race between two starting threads is not modelled);
  \<open>alive\<close> is whether the stack still receives.
\<close>

definition start_runtime :: "bool \<Rightarrow> 'rx tunnel_globals \<Rightarrow> unit ec_result \<times> bool \<times> 'rx option \<times> 'rx tunnel_globals" where
  "start_runtime started g =
     (if started then (Inr (), True, None, g)
      else
        (case take_tunnel_packet_receiver g of
           (Inl e, g) \<Rightarrow> (Inl e, False, None, g)
         | (Inr rx, g) \<Rightarrow> (Inr (), True, Some rx, g)))"

definition netstack_closed :: "stack_end \<Rightarrow> 'rx tunnel_globals \<Rightarrow> 'rx tunnel_globals" where
  "netstack_closed outcome g =
     (case outcome of
        Stack_Error err \<Rightarrow> record_runtime_fatal (''netstack closed: '' @ concise_error err) g
      | _ \<Rightarrow> g)"

datatype reply_wait = Reply "u64 ec_result" | Reply_Timeout | Reply_Disconnected

definition control_send :: "string \<Rightarrow> bool \<Rightarrow> control_message \<Rightarrow> unit ec_result \<times> control_message list" where
  "control_send failed alive msg =
     (if alive then (Inr (), [msg]) else (Inl (Runtime (failed @ '': sending on a closed channel'')), []))"

definition await_reply :: "string \<Rightarrow> reply_wait \<Rightarrow> u64 ec_result" where
  "await_reply failed reply =
     (case reply of
        Reply result \<Rightarrow> result
      | Reply_Timeout \<Rightarrow> Inl (Runtime (failed @ '': timed out waiting on channel''))
      | Reply_Disconnected \<Rightarrow> Inl (Runtime (failed @ '': channel is empty and sending half is closed'')))"

definition open_tcp_connection :: "bool \<Rightarrow> bool \<Rightarrow> resolver \<Rightarrow> reply_wait \<Rightarrow> string \<Rightarrow> u64 ec_result \<times> control_message list" where
  "open_tcp_connection started alive lookup reply target =
     (if \<not> started then (Inl (Runtime ''netstack runtime is not started''), [])
      else
        (case resolve_ipv4_target lookup target of
           Inl e \<Rightarrow> (Inl e, [])
         | Inr target_addr \<Rightarrow>
             (case control_send ''send open connection request failed'' alive (Open target_addr) of
                (Inl e, sent) \<Rightarrow> (Inl e, sent)
              | (Inr _, sent) \<Rightarrow> (await_reply (''wait open connection response failed for '' @ target) reply, sent))))"

definition open_udp_association :: "bool \<Rightarrow> bool \<Rightarrow> reply_wait \<Rightarrow> u64 ec_result \<times> control_message list" where
  "open_udp_association started alive reply =
     (if \<not> started then (Inl (Runtime ''netstack runtime is not started''), [])
      else
        (case control_send ''send open udp association request failed'' alive Open_Udp of
           (Inl e, sent) \<Rightarrow> (Inl e, sent)
         | (Inr _, sent) \<Rightarrow> (await_reply ''wait open udp association response failed'' reply, sent)))"

definition tcp_sender_send :: "bool \<Rightarrow> u64 \<Rightarrow> bytes \<Rightarrow> unit ec_result \<times> control_message list" where
  "tcp_sender_send alive cid data = control_send ''send tcp payload request failed'' alive (Send cid data)"

definition tcp_sender_close :: "bool \<Rightarrow> u64 \<Rightarrow> unit ec_result \<times> control_message list" where
  "tcp_sender_close alive cid = control_send ''send tcp close request failed'' alive (Close cid)"

definition udp_sender_send :: "bool \<Rightarrow> u64 \<Rightarrow> sock_v4 \<Rightarrow> bytes \<Rightarrow> unit ec_result \<times> control_message list" where
  "udp_sender_send alive cid target data =
     control_send ''send udp payload request failed'' alive (Send_Udp cid target data)"

definition udp_sender_close :: "bool \<Rightarrow> u64 \<Rightarrow> unit ec_result \<times> control_message list" where
  "udp_sender_close alive cid = control_send ''send udp close request failed'' alive (Close_Udp cid)"

end
