(* ===== verification/SocksWire.thy ===== *)
theory SocksWire
  imports RustIO
begin

text \<open>
  \<^verbatim>\<open>ec-core/src/socks_wire.rs\<close>: the server side of SOCKS5 on a client connection (method
  negotiation, request, replies) and the datagrams of UDP ASSOCIATE. The client is a \<open>stream\<close> of
  \<^verbatim>\<open>RustIO\<close>; each operation returns its result and the connection after it.
\<close>

definition SOCKS_VERSION_5 :: u8 where "SOCKS_VERSION_5 = 0x05"
definition SOCKS_METHOD_NO_AUTH :: u8 where "SOCKS_METHOD_NO_AUTH = 0x00"
definition SOCKS_METHOD_NOT_ACCEPTABLE :: u8 where "SOCKS_METHOD_NOT_ACCEPTABLE = 0xff"
definition SOCKS_CMD_CONNECT :: u8 where "SOCKS_CMD_CONNECT = 0x01"
definition SOCKS_CMD_UDP_ASSOCIATE :: u8 where "SOCKS_CMD_UDP_ASSOCIATE = 0x03"
definition SOCKS_RSV :: u8 where "SOCKS_RSV = 0x00"
definition SOCKS_ATYP_IPV4 :: u8 where "SOCKS_ATYP_IPV4 = 0x01"
definition SOCKS_ATYP_DOMAIN :: u8 where "SOCKS_ATYP_DOMAIN = 0x03"
definition SOCKS_ATYP_IPV6 :: u8 where "SOCKS_ATYP_IPV6 = 0x04"
definition SOCKS_REP_GENERAL_FAILURE :: u8 where "SOCKS_REP_GENERAL_FAILURE = 0x01"
definition SOCKS_REP_SUCCEEDED :: u8 where "SOCKS_REP_SUCCEEDED = 0x00"
definition SOCKS_REP_CMD_NOT_SUPPORTED :: u8 where "SOCKS_REP_CMD_NOT_SUPPORTED = 0x07"
definition SOCKS_REP_ATYP_NOT_SUPPORTED :: u8 where "SOCKS_REP_ATYP_NOT_SUPPORTED = 0x08"

lemmas socks_consts =
  SOCKS_VERSION_5_def SOCKS_METHOD_NO_AUTH_def SOCKS_METHOD_NOT_ACCEPTABLE_def SOCKS_CMD_CONNECT_def
  SOCKS_CMD_UDP_ASSOCIATE_def SOCKS_RSV_def SOCKS_ATYP_IPV4_def SOCKS_ATYP_DOMAIN_def
  SOCKS_ATYP_IPV6_def SOCKS_REP_GENERAL_FAILURE_def SOCKS_REP_SUCCEEDED_def
  SOCKS_REP_CMD_NOT_SUPPORTED_def SOCKS_REP_ATYP_NOT_SUPPORTED_def

datatype socks_command = Connect | UdpAssociate | Other u8

record connect_target =
  ct_host :: string
  ct_port :: u16

record socks_request =
  sr_command :: socks_command
  sr_target :: connect_target

record socks_udp_packet =
  up_target :: connect_target
  up_payload :: bytes

definition command_from_byte :: "u8 \<Rightarrow> socks_command" where
  "command_from_byte value =
     (if value = SOCKS_CMD_CONNECT then Connect
      else if value = SOCKS_CMD_UDP_ASSOCIATE then UdpAssociate
      else Other value)"

fun show_command :: "socks_command \<Rightarrow> string" where
  "show_command Connect = ''CONNECT''"
| "show_command UdpAssociate = ''UDP ASSOCIATE''"
| "show_command (Other value) = ''0x'' @ hex2 value"

definition show_target :: "connect_target \<Rightarrow> string" where
  "show_target t = ct_host t @ '':'' @ dec_u16 (ct_port t)"

section \<open>Replies\<close>

definition write_reply :: "stream \<Rightarrow> u8 \<Rightarrow> unit ec_result \<times> stream" where
  "write_reply client rep =
     try_io (io_err ''socks reply write failed: '')
       (write_all [SOCKS_VERSION_5, rep, SOCKS_RSV, SOCKS_ATYP_IPV4, 0, 0, 0, 0, 0, 0] client)
       (\<lambda>_ client. (Inr (), client))"

definition write_bound_reply :: "stream \<Rightarrow> u8 \<Rightarrow> sock_v4 \<Rightarrow> unit ec_result \<times> stream" where
  "write_bound_reply client rep bound =
     try_io (io_err ''socks bound reply write failed: '')
       (write_all ([SOCKS_VERSION_5, rep, SOCKS_RSV, SOCKS_ATYP_IPV4] @ octets (v4_ip bound)
                   @ u16_to_be (v4_port bound)) client)
       (\<lambda>_ client. (Inr (), client))"

section \<open>Handshake\<close>

definition negotiate_method :: "stream \<Rightarrow> unit ec_result \<times> stream" where
  "negotiate_method client =
     try_io (io_err ''socks hello read failed: '') (read_exact 2 client) (\<lambda>head client.
       if head ! 0 \<noteq> SOCKS_VERSION_5 then (Inl (Runtime ''unsupported socks version''), client)
       else
         (let n_methods = unat (head ! 1) in
          try_io (io_err ''socks methods read failed: '') (read_exact n_methods client) (\<lambda>methods client.
            if SOCKS_METHOD_NO_AUTH \<in> set methods then
              try_io (io_err ''socks method reply failed: '')
                (write_all [SOCKS_VERSION_5, SOCKS_METHOD_NO_AUTH] client) (\<lambda>_ client. (Inr (), client))
            else
              try_io (io_err ''socks method reject reply failed: '')
                (write_all [SOCKS_VERSION_5, SOCKS_METHOD_NOT_ACCEPTABLE] client) (\<lambda>_ client.
                  (Inl (Runtime ''client does not support no-auth method''), client)))))"

definition read_target_host :: "stream \<Rightarrow> u8 \<Rightarrow> string ec_result \<times> stream" where
  "read_target_host client atyp =
     (if atyp = SOCKS_ATYP_IPV4 then
        try_io (io_err ''read ipv4 failed: '') (read_exact 4 client) (\<lambda>ip client.
          (Inr (dec_of_nat (unat (ip ! 0)) @ ''.'' @ dec_of_nat (unat (ip ! 1)) @ ''.''
                @ dec_of_nat (unat (ip ! 2)) @ ''.'' @ dec_of_nat (unat (ip ! 3))), client))
      else if atyp = SOCKS_ATYP_DOMAIN then
        try_io (io_err ''read domain length failed: '') (read_exact 1 client) (\<lambda>len client.
          try_io (io_err ''read domain failed: '') (read_exact (unat (len ! 0)) client) (\<lambda>domain client.
            (try_map (\<lambda>e. Runtime (''invalid domain utf8: '' @ e)) (from_utf8 domain) Inr, client)))
      else if atyp = SOCKS_ATYP_IPV6 then
        try_io (io_err ''read ipv6 failed: '') (read_exact 16 client) (\<lambda>ip client.
          (Inr (show_ipv6 (ipv6_of_octets ip)), client))
      else
        (Inl (Runtime (''unsupported socks atyp: 0x'' @ hex2 atyp)),
         snd (write_reply client SOCKS_REP_ATYP_NOT_SUPPORTED)))"

definition read_request_target :: "stream \<Rightarrow> u8 \<Rightarrow> connect_target ec_result \<times> stream" where
  "read_request_target client atyp =
     try_io id (read_target_host client atyp) (\<lambda>host client.
       try_io (io_err ''read target port failed: '') (read_exact 2 client) (\<lambda>port_buf client.
         (Inr \<lparr>ct_host = host, ct_port = u16_be (port_buf ! 0) (port_buf ! 1)\<rparr>, client)))"

definition read_socks_request :: "stream \<Rightarrow> socks_request ec_result \<times> stream" where
  "read_socks_request client =
     try_io (io_err ''socks request head read failed: '') (read_exact 4 client) (\<lambda>req client.
       if req ! 0 \<noteq> SOCKS_VERSION_5 then (Inl (Runtime ''invalid socks request version''), client)
       else
         (let command = command_from_byte (req ! 1) in
          case command of
            Other v \<Rightarrow>
              (Inl (Runtime (''unsupported socks command: '' @ show_command command)),
               snd (write_reply client SOCKS_REP_CMD_NOT_SUPPORTED))
          | _ \<Rightarrow>
              if req ! 2 \<noteq> SOCKS_RSV then
                (Inl (Runtime ''invalid socks reserved byte''),
                 snd (write_reply client SOCKS_REP_GENERAL_FAILURE))
              else
                try_io id (read_request_target client (req ! 3)) (\<lambda>target client.
                  (Inr \<lparr>sr_command = command, sr_target = target\<rparr>, client))))"

section \<open>Datagrams\<close>

definition parse_udp_host :: "bytes \<Rightarrow> (string \<times> nat) ec_result" where
  "parse_udp_host data =
     (let offset = 4; atyp = data ! 3 in
      if atyp = SOCKS_ATYP_IPV4 then
        (if length data < offset + 4 then Inl (Runtime ''udp ipv4 address is truncated'')
         else Inr (show_ipv4 (Ipv4 (data ! offset) (data ! (offset + 1)) (data ! (offset + 2)) (data ! (offset + 3))),
                   offset + 4))
      else if atyp = SOCKS_ATYP_DOMAIN then
        (if length data < offset + 1 then Inl (Runtime ''udp domain length is truncated'')
         else
           (let len = unat (data ! offset); offset = offset + 1 in
            if length data < offset + len then Inl (Runtime ''udp domain is truncated'')
            else
              try_map (\<lambda>e. Runtime (''invalid udp domain utf8: '' @ e))
                (from_utf8 (slice offset (offset + len) data)) (\<lambda>domain. Inr (domain, offset + len))))
      else if atyp = SOCKS_ATYP_IPV6 then Inl (Runtime ''udp ipv6 targets are not supported yet'')
      else Inl (Runtime (''unsupported udp atyp: 0x'' @ hex2 atyp)))"

definition parse_socks_udp_packet :: "bytes \<Rightarrow> socks_udp_packet ec_result" where
  "parse_socks_udp_packet data =
     (if length data < 4 then Inl (Runtime ''udp packet header is too short'')
      else if data ! 0 \<noteq> 0 \<or> data ! 1 \<noteq> 0 then
        Inl (Runtime ''udp packet with non-zero RSV is not supported'')
      else if data ! 2 \<noteq> 0 then Inl (Runtime ''fragmented udp packet is not supported'')
      else
        try_map id (parse_udp_host data) (\<lambda>(host, offset).
          if length data < offset + 2 then Inl (Runtime ''udp port is truncated'')
          else
            Inr \<lparr>up_target = \<lparr>ct_host = host, ct_port = u16_be (data ! offset) (data ! (offset + 1))\<rparr>,
                 up_payload = drop (offset + 2) data\<rparr>))"

definition encode_socks_udp_packet :: "sock_v4 \<Rightarrow> bytes \<Rightarrow> bytes" where
  "encode_socks_udp_packet source payload =
     [0, 0, 0, SOCKS_ATYP_IPV4] @ octets (v4_ip source) @ u16_to_be (v4_port source) @ payload"

definition format_socket_target :: "string \<Rightarrow> string \<Rightarrow> string" where
  "format_socket_target host port =
     (let h = trim host in
      if parse_ipv6 h \<noteq> None then ''['' @ h @ '']:'' @ port else h @ '':'' @ port)"

section \<open>Round trips\<close>

text \<open>How a client writes a target, and the address a target text stands for.\<close>

datatype wire_target = Wire_Ipv4 ipv4 | Wire_Domain string | Wire_Ipv6 ipv6

fun encode_target :: "wire_target \<Rightarrow> bytes" where
  "encode_target (Wire_Ipv4 ip) = SOCKS_ATYP_IPV4 # octets ip"
| "encode_target (Wire_Domain d) = SOCKS_ATYP_DOMAIN # word_of_nat (length d) # bytes_of_str d"
| "encode_target (Wire_Ipv6 ip) = SOCKS_ATYP_IPV6 # octets6 ip"

fun target_text :: "wire_target \<Rightarrow> string" where
  "target_text (Wire_Ipv4 ip) = show_ipv4 ip"
| "target_text (Wire_Domain d) = d"
| "target_text (Wire_Ipv6 ip) = show_ipv6 ip"

fun encodable :: "wire_target \<Rightarrow> bool" where
  "encodable (Wire_Domain d) \<longleftrightarrow> length d < 256 \<and> from_utf8 (bytes_of_str d) = Inr d"
| "encodable _ \<longleftrightarrow> True"

lemma octets_nth: "octets ip = [a, b, c, d] \<longleftrightarrow> ip = Ipv4 a b c d"
  by (cases ip) auto

lemma u16_be_bytes [simp]: "u16_be (u16_to_be p ! 0) (u16_to_be p ! Suc 0) = p"
  by (simp add: u16_to_be_def)

lemma delivers_read_append:
  assumes "delivers s (a @ b)" and "n = length a"
  shows "\<exists>s'. read_exact n s = (Inr a, s') \<and> delivers s' b \<and>
    outgoing s' = outgoing s \<and> write_script s' = write_script s"
  using delivers_read_exact [OF assms(1), of n] assms(2) by simp

lemma read_target_host_delivers:
  assumes "delivers s (tl (encode_target t) @ rest)" and "encodable t"
  shows "\<exists>s'. read_target_host s (hd (encode_target t)) = (Inr (target_text t), s') \<and> delivers s' rest \<and>
    outgoing s' = outgoing s \<and> write_script s' = write_script s"
proof (cases t)
  case (Wire_Ipv4 ip)
  obtain a b c d where ip: "ip = Ipv4 a b c d" by (cases ip)
  from delivers_read_append [of s "[a, b, c, d]" rest 4] assms Wire_Ipv4 ip obtain s' where
    "read_exact 4 s = (Inr [a, b, c, d], s')" "delivers s' rest"
    "outgoing s' = outgoing s" "write_script s' = write_script s" by auto
  with Wire_Ipv4 ip show ?thesis by (simp add: read_target_host_def)
next
  case (Wire_Domain d)
  with assms have d: "length d < 256" "from_utf8 (bytes_of_str d) = Inr d" by simp_all
  from delivers_read_append [of s "[word_of_nat (length d)]" "bytes_of_str d @ rest" 1] assms Wire_Domain
  obtain s1 where s1: "read_exact 1 s = (Inr [word_of_nat (length d)], s1)"
    "delivers s1 (bytes_of_str d @ rest)" "outgoing s1 = outgoing s" "write_script s1 = write_script s"
    by auto
  from delivers_read_append [OF s1(2) refl] obtain s2 where
    "read_exact (length d) s1 = (Inr (bytes_of_str d), s2)" "delivers s2 rest"
    "outgoing s2 = outgoing s1" "write_script s2 = write_script s1" by auto
  moreover from d have "unat (word_of_nat (length d) :: u8) = length d" by (simp add: unat_of_nat)
  ultimately show ?thesis
    using Wire_Domain s1 d
    by (simp add: read_target_host_def SOCKS_ATYP_IPV4_def SOCKS_ATYP_DOMAIN_def)
next
  case (Wire_Ipv6 ip)
  from delivers_read_append [of s "octets6 ip" rest 16] assms Wire_Ipv6 obtain s' where
    "read_exact 16 s = (Inr (octets6 ip), s')" "delivers s' rest"
    "outgoing s' = outgoing s" "write_script s' = write_script s" by auto
  with Wire_Ipv6 show ?thesis
    by (simp add: read_target_host_def SOCKS_ATYP_IPV4_def SOCKS_ATYP_DOMAIN_def SOCKS_ATYP_IPV6_def)
qed

lemma read_request_target_delivers:
  assumes "delivers s (tl (encode_target t) @ u16_to_be p @ rest)" and "encodable t"
  shows "\<exists>s'. read_request_target s (hd (encode_target t)) =
      (Inr \<lparr>ct_host = target_text t, ct_port = p\<rparr>, s') \<and> delivers s' rest \<and>
    outgoing s' = outgoing s \<and> write_script s' = write_script s"
proof -
  from read_target_host_delivers [OF assms] obtain s1 where s1:
    "read_target_host s (hd (encode_target t)) = (Inr (target_text t), s1)"
    "delivers s1 (u16_to_be p @ rest)" "outgoing s1 = outgoing s" "write_script s1 = write_script s" by blast
  from delivers_read_append [OF s1(2), of 2] obtain s2 where
    "read_exact 2 s1 = (Inr (u16_to_be p), s2)" "delivers s2 rest"
    "outgoing s2 = outgoing s1" "write_script s2 = write_script s1" by auto
  with s1 show ?thesis by (simp add: read_request_target_def)
qed

lemma read_socks_request_delivers:
  assumes "delivers s ([SOCKS_VERSION_5, cmd, SOCKS_RSV] @ encode_target t @ u16_to_be p @ rest)"
    and "encodable t" and "cmd \<in> {SOCKS_CMD_CONNECT, SOCKS_CMD_UDP_ASSOCIATE}"
  shows "\<exists>s'. read_socks_request s =
      (Inr \<lparr>sr_command = command_from_byte cmd,
            sr_target = \<lparr>ct_host = target_text t, ct_port = p\<rparr>\<rparr>, s') \<and>
    delivers s' rest \<and> outgoing s' = outgoing s \<and> write_script s' = write_script s"
proof -
  obtain a r where e: "encode_target t = a # r" by (cases t) simp_all
  from assms(1) e have "delivers s ([SOCKS_VERSION_5, cmd, SOCKS_RSV, a] @ r @ u16_to_be p @ rest)" by simp
  from delivers_read_append [OF this, of 4] obtain s1 where s1:
    "read_exact 4 s = (Inr [SOCKS_VERSION_5, cmd, SOCKS_RSV, a], s1)"
    "delivers s1 (r @ u16_to_be p @ rest)"
    "outgoing s1 = outgoing s" "write_script s1 = write_script s" by auto
  from read_request_target_delivers [of s1 t p rest] s1(2) e assms(2) obtain s2 where
    "read_request_target s1 a = (Inr \<lparr>ct_host = target_text t, ct_port = p\<rparr>, s2)"
    "delivers s2 rest" "outgoing s2 = outgoing s1" "write_script s2 = write_script s1" by auto
  with s1 assms(3) show ?thesis
    by (auto simp: read_socks_request_def command_from_byte_def)
qed

lemma negotiate_method_delivers:
  assumes "delivers s ([SOCKS_VERSION_5, word_of_nat (length ms)] @ ms @ rest)"
    and "length ms < 256" and "SOCKS_METHOD_NO_AUTH \<in> set ms" and "write_script s = []"
  shows "\<exists>s'. negotiate_method s = (Inr (), s') \<and> delivers s' rest \<and>
    outgoing s' = outgoing s @ [SOCKS_VERSION_5, SOCKS_METHOD_NO_AUTH] \<and> write_script s' = []"
proof -
  from delivers_read_append [OF assms(1), of 2] obtain s1 where s1:
    "read_exact 2 s = (Inr [SOCKS_VERSION_5, word_of_nat (length ms)], s1)" "delivers s1 (ms @ rest)"
    "outgoing s1 = outgoing s" "write_script s1 = write_script s" by auto
  from delivers_read_append [OF s1(2) refl] obtain s2 where s2:
    "read_exact (length ms) s1 = (Inr ms, s2)" "delivers s2 rest"
    "outgoing s2 = outgoing s1" "write_script s2 = write_script s1" by auto
  from assms(2) have "unat (word_of_nat (length ms) :: u8) = length ms" by (simp add: unat_of_nat)
  with s1 s2 assms show ?thesis
    by (simp add: negotiate_method_def write_all_ok)
qed

text \<open>
  \<^bold>\<open>C22.\<close> The SOCKS5 handshake does not depend on how the client's bytes are segmented or delayed:
  a greeting that offers no-authentication (among at most 255 methods) followed by a CONNECT or
  UDP ASSOCIATE request for an address or a UTF-8 name of at most 255 bytes is answered by the
  method reply alone, and yields the command, the text of the target and its port; the bytes the
  client sends after the request are left in the connection, for the relay.
\<close>

theorem socks_handshake_any_segmentation:
  assumes "delivers s ([SOCKS_VERSION_5, word_of_nat (length ms)] @ ms
      @ [SOCKS_VERSION_5, cmd, SOCKS_RSV] @ encode_target t @ u16_to_be p @ rest)"
    and "length ms < 256" and "SOCKS_METHOD_NO_AUTH \<in> set ms"
    and "encodable t" and "cmd \<in> {SOCKS_CMD_CONNECT, SOCKS_CMD_UDP_ASSOCIATE}" and "write_script s = []"
  shows "\<exists>s'. try_io id (negotiate_method s) (\<lambda>_. read_socks_request) =
      (Inr \<lparr>sr_command = command_from_byte cmd,
            sr_target = \<lparr>ct_host = target_text t, ct_port = p\<rparr>\<rparr>, s') \<and>
    delivers s' rest \<and> outgoing s' = outgoing s @ [SOCKS_VERSION_5, SOCKS_METHOD_NO_AUTH]"
proof -
  from negotiate_method_delivers [OF assms(1-3,6)] obtain s1 where s1:
    "negotiate_method s = (Inr (), s1)"
    "delivers s1 ([SOCKS_VERSION_5, cmd, SOCKS_RSV] @ encode_target t @ u16_to_be p @ rest)"
    "outgoing s1 = outgoing s @ [SOCKS_VERSION_5, SOCKS_METHOD_NO_AUTH]" by blast
  from read_socks_request_delivers [OF s1(2) assms(4,5)] s1(1,3) show ?thesis by auto
qed

theorem socks_handshake_any_segmentation_witness:
  "\<exists>s'. try_io id (negotiate_method
      \<lparr>clock = 0, incoming = [(3, Data [5]), (1, Data [2, 2, 0, 5, 1, 0]), (9, Data [3, 2, 105, 100, 1]),
                               (2, Data [187, 71])],
       outgoing = [], write_script = []\<rparr>) (\<lambda>_. read_socks_request) =
      (Inr \<lparr>sr_command = Connect, sr_target = \<lparr>ct_host = ''id'', ct_port = 443\<rparr>\<rparr>, s') \<and>
    delivers s' [71] \<and> outgoing s' = [5, 0]"
proof -
  let ?s = "\<lparr>clock = 0, incoming = [(3, Data [5]), (1, Data [2, 2, 0, 5, 1, 0]), (9, Data [3, 2, 105, 100, 1]),
                               (2, Data [187, 71])], outgoing = [], write_script = []\<rparr> :: stream"
  have d: "delivers ?s ([SOCKS_VERSION_5, word_of_nat (length [2, 0 :: u8])] @ [2, 0]
      @ [SOCKS_VERSION_5, 1, SOCKS_RSV] @ encode_target (Wire_Domain ''id'') @ u16_to_be 443 @ [71])"
    by code_simp
  have e: "encodable (Wire_Domain ''id'')" by code_simp
  have m: "length [2, 0 :: u8] < 256" "SOCKS_METHOD_NO_AUTH \<in> set [2, 0]"
    "(1 :: u8) \<in> {SOCKS_CMD_CONNECT, SOCKS_CMD_UDP_ASSOCIATE}" "write_script ?s = []"
    by (simp_all add: socks_consts)
  have "command_from_byte 1 = Connect" by (simp add: command_from_byte_def socks_consts)
  with socks_handshake_any_segmentation [OF d m(1,2) e m(3,4)] show ?thesis by (simp add: socks_consts)
qed

section \<open>The datagrams of UDP ASSOCIATE\<close>

lemma list_from_4: "4 \<le> length xs \<Longrightarrow> \<exists>a b c d r. xs = a # b # c # d # r"
  by (auto simp: numeral_eq_Suc Suc_le_length_iff)

lemma split_len: "n \<le> length xs \<Longrightarrow> \<exists>a b. xs = a @ b \<and> length a = n"
  by (rule exI [of _ "take n xs"], rule exI [of _ "drop n xs"]) simp

lemma list_from_2: "2 \<le> length xs \<Longrightarrow> \<exists>a b r. xs = a # b # r"
  by (auto simp: numeral_eq_Suc Suc_le_length_iff)

lemma parse_udp_domain:
  "parse_udp_host (0 # 0 # 0 # SOCKS_ATYP_DOMAIN # n # r) =
     (if length r < unat n then Inl (Runtime ''udp domain is truncated'')
      else try_map (\<lambda>e. Runtime (''invalid udp domain utf8: '' @ e))
             (from_utf8 (take (unat n) r)) (\<lambda>domain. Inr (domain, 5 + unat n)))"
  by (simp add: parse_udp_host_def Let_def slice_def socks_consts)

lemma parse_udp_ipv4:
  "parse_udp_host (0 # 0 # 0 # SOCKS_ATYP_IPV4 # a # b # c # d # r) = Inr (show_ipv4 (Ipv4 a b c d), 8)"
  by (simp add: parse_udp_host_def Let_def)

lemma parse_udp_encoded:
  assumes "\<And>ip. t \<noteq> Wire_Ipv6 ip" and "encodable t"
  shows "parse_socks_udp_packet ([0, 0, 0] @ encode_target t @ u16_to_be p @ payload) =
    Inr \<lparr>up_target = \<lparr>ct_host = target_text t, ct_port = p\<rparr>, up_payload = payload\<rparr>"
proof (cases t)
  case (Wire_Ipv4 ip)
  obtain a b c d where "ip = Ipv4 a b c d" by (cases ip)
  with Wire_Ipv4 show ?thesis
    by (simp add: parse_socks_udp_packet_def parse_udp_ipv4 u16_to_be_def)
next
  case (Wire_Domain d)
  with assms have d: "length d < 256" "from_utf8 (bytes_of_str d) = Inr d" by simp_all
  then have "unat (word_of_nat (length d) :: u8) = length d" by (simp add: unat_of_nat)
  with d Wire_Domain show ?thesis
    by (simp add: parse_socks_udp_packet_def parse_udp_domain u16_to_be_def nth_append drop_Cons')
next
  case (Wire_Ipv6 ip)
  with assms(1) show ?thesis by blast
qed

lemma parse_udp_host_cases:
  assumes "parse_udp_host (0 # 0 # 0 # atyp # r) = Inr (host, off)"
  shows "\<exists>t rest. (\<forall>ip. t \<noteq> Wire_Ipv6 ip) \<and> encodable t \<and> atyp # r = encode_target t @ rest \<and>
    host = target_text t \<and> off = 3 + length (encode_target t)"
proof -
  consider "atyp = SOCKS_ATYP_IPV4" | "atyp = SOCKS_ATYP_DOMAIN" | "atyp \<notin> {SOCKS_ATYP_IPV4, SOCKS_ATYP_DOMAIN}"
    by blast
  then show ?thesis
  proof cases
    case 1
    with assms have "4 \<le> length r" by (auto simp: parse_udp_host_def Let_def split: if_splits)
    then obtain a b c d r' where r: "r = a # b # c # d # r'" using list_from_4 by blast
    with assms 1 have "host = show_ipv4 (Ipv4 a b c d)" "off = 8" by (simp_all add: parse_udp_ipv4)
    with r 1 show ?thesis by (intro exI [of _ "Wire_Ipv4 (Ipv4 a b c d)"] exI [of _ r']) simp
  next
    case 2
    with assms obtain n r' where r: "r = n # r'"
      by (cases r) (auto simp: parse_udp_host_def Let_def socks_consts)
    with assms 2 have len: "unat n \<le> length r'" and h: "from_utf8 (take (unat n) r') = Inr host"
      and off: "off = 5 + unat n"
      by (auto simp: parse_udp_domain try_map_Inr_iff split: if_splits)
    from from_utf8_Inr [OF h] have b: "bytes_of_str host = take (unat n) r'" by simp
    have lh: "length host = unat n" using b len by (metis length_bytes_of_str length_take min.absorb2)
    have "unat n < 256" using unsigned_less [of n, where ?'a = nat] by simp
    with b lh h have "encodable (Wire_Domain host)" by simp
    moreover have "atyp # r = encode_target (Wire_Domain host) @ drop (unat n) r'"
      using 2 r b lh by simp
    ultimately show ?thesis
      using off lh by (intro exI [of _ "Wire_Domain host"] exI [of _ "drop (unat n) r'"]) simp
  next
    case 3
    with assms show ?thesis by (simp add: parse_udp_host_def Let_def split: if_splits)
  qed
qed

text \<open>
  \<^bold>\<open>C38.\<close> Relayed datagrams: a packet is accepted exactly when it is three zero bytes (no
  fragmentation), the encoding of an IPv4 address or of a UTF-8 name of at most 255 bytes, a port and
  a payload, and then it is read back as that target and payload; and the packet built for a
  datagram from the tunnel is read back as its source and its data.
\<close>

theorem socks_udp_packet_roundtrip:
  "(parse_socks_udp_packet data = Inr pkt \<longleftrightarrow>
      (\<exists>t. (\<forall>ip. t \<noteq> Wire_Ipv6 ip) \<and> encodable t \<and> ct_host (up_target pkt) = target_text t \<and>
           data = [0, 0, 0] @ encode_target t @ u16_to_be (ct_port (up_target pkt)) @ up_payload pkt)) \<and>
   parse_socks_udp_packet (encode_socks_udp_packet source payload) =
     Inr \<lparr>up_target = \<lparr>ct_host = show_ipv4 (v4_ip source), ct_port = v4_port source\<rparr>, up_payload = payload\<rparr>"
proof (intro conjI iffI)
  assume a: "parse_socks_udp_packet data = Inr pkt"
  then have len: "4 \<le> length data" by (auto simp: parse_socks_udp_packet_def split: if_splits)
  obtain x y z atyp r where "data = x # y # z # atyp # r" using list_from_4 [OF len] by blast
  with a have data: "data = 0 # 0 # 0 # atyp # r"
    by (auto simp: parse_socks_udp_packet_def split: if_splits)
  with a obtain host off where h: "parse_udp_host (0 # 0 # 0 # atyp # r) = Inr (host, off)"
    and off: "off + 2 \<le> length data"
    and pkt: "pkt = \<lparr>up_target = \<lparr>ct_host = host, ct_port = u16_be (data ! off) (data ! (off + 1))\<rparr>,
                     up_payload = drop (off + 2) data\<rparr>"
    by (auto simp: parse_socks_udp_packet_def try_map_Inr_iff split: if_splits)
  from parse_udp_host_cases [OF h] obtain t rest where
    t: "\<forall>ip. t \<noteq> Wire_Ipv6 ip" "encodable t" "atyp # r = encode_target t @ rest"
       "host = target_text t" "off = 3 + length (encode_target t)" by blast
  from data t(3,5) have d: "data = [0, 0, 0] @ encode_target t @ rest" "2 \<le> length rest"
    using off by simp_all
  from list_from_2 [OF d(2)] obtain hi lo rest' where rest: "rest = hi # lo # rest'" by blast
  have "data = ([0, 0, 0] @ encode_target t) @ hi # lo # rest'" "off = length ([0, 0, 0 :: u8] @ encode_target t)"
    using d(1) rest t(5) by simp_all
  then have "data ! off = hi" "data ! (off + 1) = lo" "drop (off + 2) data = rest'"
    by (simp_all only: nth_append_length nth_append_length_plus drop_append) (simp_all add: nth_append)
  with pkt d(1) rest t show "\<exists>t. (\<forall>ip. t \<noteq> Wire_Ipv6 ip) \<and> encodable t \<and> ct_host (up_target pkt) = target_text t \<and>
           data = [0, 0, 0] @ encode_target t @ u16_to_be (ct_port (up_target pkt)) @ up_payload pkt"
    by auto
next
  assume "\<exists>t. (\<forall>ip. t \<noteq> Wire_Ipv6 ip) \<and> encodable t \<and> ct_host (up_target pkt) = target_text t \<and>
           data = [0, 0, 0] @ encode_target t @ u16_to_be (ct_port (up_target pkt)) @ up_payload pkt"
  then obtain t where t: "\<And>ip. t \<noteq> Wire_Ipv6 ip" "encodable t" "ct_host (up_target pkt) = target_text t"
    "data = [0, 0, 0] @ encode_target t @ u16_to_be (ct_port (up_target pkt)) @ up_payload pkt" by blast
  show "parse_socks_udp_packet data = Inr pkt"
    unfolding t(4) parse_udp_encoded [OF t(1,2)] using t(3) by simp
next
  show "parse_socks_udp_packet (encode_socks_udp_packet source payload) =
     Inr \<lparr>up_target = \<lparr>ct_host = show_ipv4 (v4_ip source), ct_port = v4_port source\<rparr>, up_payload = payload\<rparr>"
    using parse_udp_encoded [of "Wire_Ipv4 (v4_ip source)" "v4_port source" payload]
    by (simp add: encode_socks_udp_packet_def)
qed

end
