(* ===== verification/SocksProxy.thy ===== *)
theory SocksProxy
  imports SocksWire Output
begin

text \<open>
  \<^verbatim>\<open>ec-core/src/socks_proxy.rs\<close>: the fallback proxy. Its configuration text, the client side of
  SOCKS5 (greeting, request, reply) and of HTTP CONNECT. \<open>tcp_connect\<close> is
  \<^verbatim>\<open>TcpStream::connect\<close>: it gives the connection to the proxy or its error. The constants
  shared with the server side are those of \<^verbatim>\<open>SocksWire\<close>, which the file repeats.
\<close>

type_synonym tcp_connect = "string \<Rightarrow> io_error + stream"

definition HTTP_PROXY_HEAD_MAX_SIZE :: nat where "HTTP_PROXY_HEAD_MAX_SIZE = 16 * 1024"
definition FALLBACK_SCHEME_SOCKS5 :: string where "FALLBACK_SCHEME_SOCKS5 = ''socks5''"
definition FALLBACK_SCHEME_SOCKS5H :: string where "FALLBACK_SCHEME_SOCKS5H = ''socks5h''"
definition FALLBACK_SCHEME_HTTP :: string where "FALLBACK_SCHEME_HTTP = ''http''"
definition FALLBACK_SCHEME_ERROR :: string where
  "FALLBACK_SCHEME_ERROR = ''fallback is invalid: only socks5://, socks5h:// and http:// are supported''"

datatype fallback_proxy_kind = Socks5 | Http

record fallback_proxy =
  fp_url :: string
  fp_addr :: string
  fp_kind :: fallback_proxy_kind

section \<open>Configuration\<close>

definition parse_fallback_proxy_scheme :: "string \<Rightarrow> fallback_proxy_kind ec_result" where
  "parse_fallback_proxy_scheme scheme =
     (if scheme = FALLBACK_SCHEME_SOCKS5 \<or> scheme = FALLBACK_SCHEME_SOCKS5H then Inr Socks5
      else if scheme = FALLBACK_SCHEME_HTTP then Inr Http
      else Inl (InvalidConfig FALLBACK_SCHEME_ERROR))"

definition parse_fallback_proxy_value :: "string \<Rightarrow> fallback_proxy ec_result" where
  "parse_fallback_proxy_value raw =
     (let raw = trim raw in
      try_map id
        (case split_once ''://'' raw of
           Some (scheme, rest) \<Rightarrow>
             try_map id (parse_fallback_proxy_scheme scheme) (\<lambda>kind.
               Inr \<lparr>fp_url = raw, fp_addr = trim rest, fp_kind = kind\<rparr>)
         | None \<Rightarrow>
             Inr \<lparr>fp_url = FALLBACK_SCHEME_SOCKS5H @ ''://'' @ raw, fp_addr = raw, fp_kind = Socks5\<rparr>)
        (\<lambda>parsed.
          if trim (fp_addr parsed) = [] then
            Inl (InvalidConfig ''fallback is invalid: empty proxy address'')
          else Inr parsed))"

definition parse_fallback_proxy :: "string option \<Rightarrow> fallback_proxy option ec_result" where
  "parse_fallback_proxy raw =
     (case map_option trim raw of
        None \<Rightarrow> Inr None
      | Some v \<Rightarrow>
          if v = [] then Inr None
          else try_map id (parse_fallback_proxy_value v) (\<lambda>p. Inr (Some p)))"

section \<open>SOCKS5 client\<close>

definition socks5_reply_name :: "u8 \<Rightarrow> string" where
  "socks5_reply_name code =
     (if code = 0x00 then ''succeeded''
      else if code = 0x01 then ''general failure''
      else if code = 0x02 then ''connection not allowed''
      else if code = 0x03 then ''network unreachable''
      else if code = 0x04 then ''host unreachable''
      else if code = 0x05 then ''connection refused''
      else if code = 0x06 then ''ttl expired''
      else if code = 0x07 then ''command not supported''
      else if code = 0x08 then ''address type not supported''
      else ''unknown reply code'')"

definition negotiate_socks5_proxy_no_auth :: "stream \<Rightarrow> unit ec_result \<times> stream" where
  "negotiate_socks5_proxy_no_auth stream =
     try_io (io_err ''proxy greeting write failed: '')
       (write_all [SOCKS_VERSION_5, 0x01, SOCKS_METHOD_NO_AUTH] stream) (\<lambda>_ stream.
     try_io (io_err ''proxy greeting read failed: '') (read_exact 2 stream) (\<lambda>method_resp stream.
       if method_resp \<noteq> [SOCKS_VERSION_5, SOCKS_METHOD_NO_AUTH] then
         (Inl (Runtime (''fallback proxy auth method unsupported: version=0x'' @ hex2 (method_resp ! 0)
                        @ '' method=0x'' @ hex2 (method_resp ! 1))), stream)
       else (Inr (), stream)))"

definition append_socks5_addr :: "bytes \<Rightarrow> string \<Rightarrow> bytes ec_result" where
  "append_socks5_addr buf host =
     (let host = trim host in
      case parse_ipv4 host of
        Some ipv4 \<Rightarrow> Inr (buf @ [SOCKS_ATYP_IPV4] @ octets ipv4)
      | None \<Rightarrow>
          (case parse_ipv6 host of
             Some ipv6 \<Rightarrow> Inr (buf @ [SOCKS_ATYP_IPV6] @ octets6 ipv6)
           | None \<Rightarrow>
               if host = [] \<or> 255 < length host then
                 Inl (Runtime ''fallback proxy target domain is empty or too long'')
               else Inr (buf @ [SOCKS_ATYP_DOMAIN] @ [word_of_nat (length host)] @ bytes_of_str host)))"

definition write_socks5_connect_request :: "stream \<Rightarrow> string \<Rightarrow> u16 \<Rightarrow> unit ec_result \<times> stream" where
  "write_socks5_connect_request stream host port =
     (case append_socks5_addr [SOCKS_VERSION_5, SOCKS_CMD_CONNECT, SOCKS_RSV] host of
        Inl e \<Rightarrow> (Inl e, stream)
      | Inr req \<Rightarrow>
          try_io (io_err ''proxy connect request write failed: '')
            (write_all (req @ u16_to_be port) stream) (\<lambda>_ stream. (Inr (), stream)))"

definition consume_socks5_addr :: "stream \<Rightarrow> u8 \<Rightarrow> unit ec_result \<times> stream" where
  "consume_socks5_addr stream atyp =
     (if atyp = SOCKS_ATYP_IPV4 then
        try_io (io_err ''read proxy bind ipv4 failed: '') (read_exact 4 stream) (\<lambda>_ stream. (Inr (), stream))
      else if atyp = SOCKS_ATYP_DOMAIN then
        try_io (io_err ''read proxy bind domain length failed: '') (read_exact 1 stream) (\<lambda>len stream.
        try_io (io_err ''read proxy bind domain failed: '') (read_exact (unat (len ! 0)) stream)
          (\<lambda>_ stream. (Inr (), stream)))
      else if atyp = SOCKS_ATYP_IPV6 then
        try_io (io_err ''read proxy bind ipv6 failed: '') (read_exact 16 stream) (\<lambda>_ stream. (Inr (), stream))
      else (Inl (Runtime (''unsupported fallback proxy bind atyp: 0x'' @ hex2 atyp)), stream))"

definition consume_socks5_addr_and_port :: "stream \<Rightarrow> u8 \<Rightarrow> unit ec_result \<times> stream" where
  "consume_socks5_addr_and_port stream atyp =
     try_io id (consume_socks5_addr stream atyp) (\<lambda>_ stream.
       try_io (io_err ''read proxy bind port failed: '') (read_exact 2 stream) (\<lambda>_ stream. (Inr (), stream)))"

definition read_socks5_connect_reply :: "ansi \<Rightarrow> stream \<Rightarrow> unit ec_result \<times> stream" where
  "read_socks5_connect_reply A stream =
     try_io (io_err ''proxy connect reply read failed: '') (read_exact 4 stream) (\<lambda>head stream.
       if head ! 0 \<noteq> SOCKS_VERSION_5 then
         (Inl (Runtime (''invalid fallback proxy reply version: 0x'' @ hex2 (head ! 0))), stream)
       else if head ! 1 \<noteq> SOCKS_REP_SUCCEEDED then
         (Inl (Runtime (''fallback proxy connect rejected with code: ''
                        @ out_value A (''0x'' @ hex2 (head ! 1)) @ '' (''
                        @ socks5_reply_name (head ! 1) @ '')'')), stream)
       else consume_socks5_addr_and_port stream (head ! 3))"

definition connect_tcp_stream :: "tcp_connect \<Rightarrow> string \<Rightarrow> string \<Rightarrow> stream ec_result" where
  "connect_tcp_stream tcp_connect addr label =
     try_map (\<lambda>e. Runtime (''connect '' @ label @ '' '' @ addr @ '' failed: '' @ io_text e))
       (tcp_connect addr) Inr"

text \<open>The stream a function returns on success; on an error it is closed.\<close>

definition returned :: "unit ec_result \<times> stream \<Rightarrow> stream ec_result" where
  "returned r = (case r of (Inl e, _) \<Rightarrow> Inl e | (Inr _, s) \<Rightarrow> Inr s)"

definition socks5_exchange :: "ansi \<Rightarrow> stream \<Rightarrow> string \<Rightarrow> u16 \<Rightarrow> unit ec_result \<times> stream" where
  "socks5_exchange A stream host port =
     try_io id (negotiate_socks5_proxy_no_auth stream) (\<lambda>_ stream.
     try_io id (write_socks5_connect_request stream host port) (\<lambda>_ stream.
       read_socks5_connect_reply A stream))"

definition connect_via_socks5_proxy :: "tcp_connect \<Rightarrow> ansi \<Rightarrow> string \<Rightarrow> string \<Rightarrow> u16 \<Rightarrow> stream ec_result" where
  "connect_via_socks5_proxy tcp_connect A proxy_addr host port =
     try_map id (connect_tcp_stream tcp_connect proxy_addr ''fallback proxy'')
       (\<lambda>stream. returned (socks5_exchange A stream host port))"

section \<open>HTTP CONNECT client\<close>

definition HEAD_END :: bytes where "HEAD_END = [0x0d, 0x0a, 0x0d, 0x0a]"

function read_head_loop :: "bytes \<Rightarrow> stream \<Rightarrow> string ec_result \<times> stream" where
  "read_head_loop buf stream =
     (case io_read 1 stream of
        (Inl e, stream') \<Rightarrow> (Inl (io_err ''http proxy connect reply read failed: '' e), stream')
      | (Inr one, stream') \<Rightarrow>
          if one = [] then (Inl (Runtime ''http proxy connect reply is empty''), stream')
          else
            (let buf' = buf @ [one ! 0] in
             if 4 \<le> length buf' \<and> drop (length buf' - 4) buf' = HEAD_END then
               (Inr (from_utf8_lossy buf'), stream')
             else if HTTP_PROXY_HEAD_MAX_SIZE < length buf' then
               (Inl (Runtime ''http proxy connect reply header is too large''), stream')
             else read_head_loop buf' stream'))"
  by pat_completeness auto
termination
  by (relation "measure (\<lambda>(buf, s). script_size s)") (auto dest: io_read_decreases [OF sym])

declare read_head_loop.simps [simp del]

definition read_http_proxy_head :: "stream \<Rightarrow> string ec_result \<times> stream" where
  "read_http_proxy_head stream = read_head_loop [] stream"

definition ensure_http_connect_success :: "string \<Rightarrow> unit ec_result" where
  "ensure_http_connect_success reply_head =
     (let status_line = trim (first_line reply_head) in
      if \<not> starts_with ''HTTP/'' status_line then
        Inl (Runtime (''invalid http proxy connect reply: '' @ status_line))
      else
        try_map id
          (ok_or (Runtime (''invalid http proxy connect status line: '' @ status_line))
             (Option.bind (second_word status_line) parse_u16))
          (\<lambda>code.
            if code \<noteq> 200 then Inl (Runtime (''http proxy connect rejected: '' @ status_line))
            else Inr ()))"

definition connect_request :: "string \<Rightarrow> string" where
  "connect_request authority =
     ''CONNECT '' @ authority @ '' HTTP/1.1'' @ crlf @ ''Host: '' @ authority @ crlf
     @ ''Connection: keep-alive'' @ crlf @ ''Proxy-Connection: keep-alive'' @ crlf @ crlf"

definition http_exchange :: "stream \<Rightarrow> string \<Rightarrow> u16 \<Rightarrow> unit ec_result \<times> stream" where
  "http_exchange stream host port =
     try_io (io_err ''http proxy connect request write failed: '')
       (write_all (bytes_of_str (connect_request (format_socket_target host (dec_u16 port)))) stream)
       (\<lambda>_ stream.
          try_io id (read_http_proxy_head stream) (\<lambda>reply_head stream.
            (ensure_http_connect_success reply_head, stream)))"

definition connect_via_http_connect_proxy :: "tcp_connect \<Rightarrow> string \<Rightarrow> string \<Rightarrow> u16 \<Rightarrow> stream ec_result" where
  "connect_via_http_connect_proxy tcp_connect proxy_addr host port =
     try_map id (connect_tcp_stream tcp_connect proxy_addr ''fallback http proxy'')
       (\<lambda>stream. returned (http_exchange stream host port))"

definition connect_via_proxy :: "tcp_connect \<Rightarrow> ansi \<Rightarrow> fallback_proxy \<Rightarrow> string \<Rightarrow> u16 \<Rightarrow> stream ec_result" where
  "connect_via_proxy tcp_connect A proxy host port =
     (case fp_kind proxy of
        Socks5 \<Rightarrow> connect_via_socks5_proxy tcp_connect A (fp_addr proxy) host port
      | Http \<Rightarrow> connect_via_http_connect_proxy tcp_connect (fp_addr proxy) host port)"

section \<open>The request and the server that reads it\<close>

text \<open>How the client encodes a host text.\<close>

definition wire_target_of :: "string \<Rightarrow> wire_target option" where
  "wire_target_of host =
     (case parse_ipv4 host of
        Some ip \<Rightarrow> Some (Wire_Ipv4 ip)
      | None \<Rightarrow>
          (case parse_ipv6 host of
             Some ip \<Rightarrow> Some (Wire_Ipv6 ip)
           | None \<Rightarrow> if host = [] \<or> 255 < length host then None else Some (Wire_Domain host)))"

lemma append_socks5_addr_wire:
  "append_socks5_addr buf host =
     (case wire_target_of (trim host) of
        None \<Rightarrow> Inl (Runtime ''fallback proxy target domain is empty or too long'')
      | Some t \<Rightarrow> Inr (buf @ encode_target t))"
  by (cases "parse_ipv4 (trim host)"; cases "parse_ipv6 (trim host)")
     (simp_all add: append_socks5_addr_def wire_target_of_def Let_def)

lemma wire_target_of_encodable:
  assumes "wire_target_of h = Some t" and "from_utf8 (bytes_of_str h) = Inr h"
  shows "encodable t"
  using assms by (auto simp: wire_target_of_def split: option.splits if_splits)

lemma consume_addr_delivers:
  assumes "delivers s (tl (encode_target t) @ u16_to_be p @ rest)" and "encodable t"
  shows "\<exists>s'. consume_socks5_addr_and_port s (hd (encode_target t)) = (Inr (), s') \<and>
    delivers s' rest \<and> outgoing s' = outgoing s"
proof -
  have "\<exists>s1. consume_socks5_addr s (hd (encode_target t)) = (Inr (), s1) \<and>
      delivers s1 (u16_to_be p @ rest) \<and> outgoing s1 = outgoing s"
  proof (cases t)
    case (Wire_Ipv4 ip)
    from delivers_read_append [of s "octets ip" "u16_to_be p @ rest" 4] assms Wire_Ipv4 show ?thesis
      by (auto simp: consume_socks5_addr_def)
  next
    case (Wire_Domain d)
    with assms have d: "unat (word_of_nat (length d) :: u8) = length d" by (simp add: unat_of_nat)
    from delivers_read_append [of s "[word_of_nat (length d)]" "bytes_of_str d @ u16_to_be p @ rest" 1]
      assms Wire_Domain obtain s1 where s1: "read_exact 1 s = (Inr [word_of_nat (length d)], s1)"
      "delivers s1 (bytes_of_str d @ u16_to_be p @ rest)" "outgoing s1 = outgoing s" by auto
    from delivers_read_append [OF s1(2) refl] s1 d Wire_Domain show ?thesis
      by (auto simp: consume_socks5_addr_def SOCKS_ATYP_IPV4_def SOCKS_ATYP_DOMAIN_def)
  next
    case (Wire_Ipv6 ip)
    from delivers_read_append [of s "octets6 ip" "u16_to_be p @ rest" 16] assms Wire_Ipv6 show ?thesis
      by (auto simp: consume_socks5_addr_def SOCKS_ATYP_IPV4_def SOCKS_ATYP_DOMAIN_def SOCKS_ATYP_IPV6_def)
  qed
  then obtain s1 where s1: "consume_socks5_addr s (hd (encode_target t)) = (Inr (), s1)"
    "delivers s1 (u16_to_be p @ rest)" "outgoing s1 = outgoing s" by blast
  from delivers_read_append [OF s1(2), of 2] s1(1,3) show ?thesis
    by (auto simp: consume_socks5_addr_and_port_def)
qed

lemma read_connect_reply_delivers:
  assumes "delivers s ([SOCKS_VERSION_5, SOCKS_REP_SUCCEEDED, r] @ encode_target t @ u16_to_be p @ rest)"
    and "encodable t"
  shows "\<exists>s'. read_socks5_connect_reply A s = (Inr (), s') \<and> delivers s' rest \<and> outgoing s' = outgoing s"
proof -
  obtain a q where e: "encode_target t = a # q" by (cases t) simp_all
  with assms(1) have "delivers s ([SOCKS_VERSION_5, SOCKS_REP_SUCCEEDED, r, a] @ q @ u16_to_be p @ rest)"
    by simp
  from delivers_read_append [OF this, of 4] obtain s1 where s1:
    "read_exact 4 s = (Inr [SOCKS_VERSION_5, SOCKS_REP_SUCCEEDED, r, a], s1)"
    "delivers s1 (q @ u16_to_be p @ rest)" "outgoing s1 = outgoing s" by auto
  with consume_addr_delivers [of s1 t p rest] e assms(2) show ?thesis
    by (auto simp: read_socks5_connect_reply_def)
qed

text \<open>
  \<^bold>\<open>C34.\<close> The two halves of SOCKS5 fit together: when the proxy accepts the greeting and answers the
  request with success, whatever the segmentation, the fallback connection is established with every
  byte after the reply left for the relay; what the client has written is a greeting and a CONNECT
  request from which the server side of the same program reads the command, the port and the target
  the host text stands for (the address it parses to, or the trimmed name itself).
\<close>

theorem socks5_client_matches_server:
  assumes "write_script s = []" and "wire_target_of (trim host) = Some t"
    and "from_utf8 (bytes_of_str (trim host)) = Inr (trim host)" and "encodable bound"
    and "delivers s ([SOCKS_VERSION_5, SOCKS_METHOD_NO_AUTH]
      @ [SOCKS_VERSION_5, SOCKS_REP_SUCCEEDED, r] @ encode_target bound @ u16_to_be p @ rest)"
    and "outgoing s = []" and "write_script srv = []"
    and "delivers srv ([SOCKS_VERSION_5, 1, SOCKS_METHOD_NO_AUTH]
      @ [SOCKS_VERSION_5, SOCKS_CMD_CONNECT, SOCKS_RSV] @ encode_target t @ u16_to_be port @ extra)"
  shows "\<exists>s' srv'. socks5_exchange A s host port = (Inr (), s') \<and> delivers s' rest \<and>
    outgoing s' = [SOCKS_VERSION_5, 1, SOCKS_METHOD_NO_AUTH]
      @ [SOCKS_VERSION_5, SOCKS_CMD_CONNECT, SOCKS_RSV] @ encode_target t @ u16_to_be port \<and>
    try_io id (negotiate_method srv) (\<lambda>_. read_socks_request) =
      (Inr \<lparr>sr_command = Connect, sr_target = \<lparr>ct_host = target_text t, ct_port = port\<rparr>\<rparr>, srv') \<and>
    delivers srv' extra"
proof -
  let ?greet = "[SOCKS_VERSION_5, 1, SOCKS_METHOD_NO_AUTH]"
  let ?req = "[SOCKS_VERSION_5, SOCKS_CMD_CONNECT, SOCKS_RSV] @ encode_target t @ u16_to_be port"
  have enc: "encodable t" using wire_target_of_encodable assms(2,3) by blast
  have "delivers (s\<lparr>outgoing := ?greet\<rparr>) ([SOCKS_VERSION_5, SOCKS_METHOD_NO_AUTH]
      @ [SOCKS_VERSION_5, SOCKS_REP_SUCCEEDED, r] @ encode_target bound @ u16_to_be p @ rest)"
    using assms(5) by simp
  from delivers_read_append [OF this, of 2] obtain s1 where s1:
    "read_exact 2 (s\<lparr>outgoing := ?greet\<rparr>) = (Inr [SOCKS_VERSION_5, SOCKS_METHOD_NO_AUTH], s1)"
    "delivers s1 ([SOCKS_VERSION_5, SOCKS_REP_SUCCEEDED, r] @ encode_target bound @ u16_to_be p @ rest)"
    "outgoing s1 = ?greet" "write_script s1 = []" using assms(1) by auto
  have "delivers (s1\<lparr>outgoing := ?greet @ ?req\<rparr>)
      ([SOCKS_VERSION_5, SOCKS_REP_SUCCEEDED, r] @ encode_target bound @ u16_to_be p @ rest)"
    using s1(2) by simp
  from read_connect_reply_delivers [OF this assms(4), of A] obtain s2 where s2:
    "read_socks5_connect_reply A (s1\<lparr>outgoing := ?greet @ ?req\<rparr>) = (Inr (), s2)"
    "delivers s2 rest" "outgoing s2 = ?greet @ ?req" by auto
  have x: "socks5_exchange A s host port = (Inr (), s2)"
    using assms(1,2,6) s1 s2(1)
    by (simp add: socks5_exchange_def negotiate_socks5_proxy_no_auth_def write_all_ok
        write_socks5_connect_request_def append_socks5_addr_wire)
  from assms(8) have "delivers srv ([SOCKS_VERSION_5, word_of_nat (length [SOCKS_METHOD_NO_AUTH])]
      @ [SOCKS_METHOD_NO_AUTH] @ [SOCKS_VERSION_5, SOCKS_CMD_CONNECT, SOCKS_RSV] @ encode_target t
      @ u16_to_be port @ extra)" by simp
  from negotiate_method_delivers [OF this _ _ assms(7)] obtain v1 where
    v1: "negotiate_method srv = (Inr (), v1)"
      "delivers v1 ([SOCKS_VERSION_5, SOCKS_CMD_CONNECT, SOCKS_RSV] @ encode_target t @ u16_to_be port @ extra)"
    by auto
  from read_socks_request_delivers [OF v1(2) enc] v1(1) x s2 show ?thesis
    by (auto simp: command_from_byte_def)
qed

theorem socks5_client_matches_server_witness:
  "\<exists>s' srv'. socks5_exchange plain_ansi
      \<lparr>clock = 0, incoming = [(1, Data [5]), (1, Data [0, 5, 0]), (4, Data [0, 1, 10, 0, 0, 1, 4, 56, 9])],
       outgoing = [], write_script = []\<rparr> '' ids.cn '' 443 = (Inr (), s') \<and> delivers s' [9] \<and>
    outgoing s' = [5, 1, 0, 5, 1, 0, 3, 6, 105, 100, 115, 46, 99, 110, 1, 187] \<and>
    try_io id (negotiate_method
         \<lparr>clock = 0, incoming = [(0, Data [5, 1, 0, 5, 1, 0, 3, 6, 105, 100]), (2, Data [115, 46, 99, 110, 1, 187])],
               outgoing = [], write_script = []\<rparr>) (\<lambda>_. read_socks_request) =
      (Inr \<lparr>sr_command = Connect, sr_target = \<lparr>ct_host = ''ids.cn'', ct_port = 443\<rparr>\<rparr>, srv') \<and>
    delivers srv' []"
proof -
  let ?s = "\<lparr>clock = 0, incoming = [(1, Data [5]), (1, Data [0, 5, 0]), (4, Data [0, 1, 10, 0, 0, 1, 4, 56, 9])],
       outgoing = [], write_script = []\<rparr> :: stream"
  let ?srv = "\<lparr>clock = 0, incoming = [(0, Data [5, 1, 0, 5, 1, 0, 3, 6, 105, 100]), (2, Data [115, 46, 99, 110, 1, 187])],
               outgoing = [], write_script = []\<rparr> :: stream"
  have t: "wire_target_of (trim '' ids.cn '') = Some (Wire_Domain ''ids.cn'')" by code_simp
  have u: "from_utf8 (bytes_of_str (trim '' ids.cn '')) = Inr (trim '' ids.cn '')" by code_simp
  have d: "delivers ?s ([SOCKS_VERSION_5, SOCKS_METHOD_NO_AUTH]
      @ [SOCKS_VERSION_5, SOCKS_REP_SUCCEEDED, 0] @ encode_target (Wire_Ipv4 (Ipv4 10 0 0 1)) @ u16_to_be 1080 @ [9])"
    by code_simp
  have v: "delivers ?srv ([SOCKS_VERSION_5, 1, SOCKS_METHOD_NO_AUTH]
      @ [SOCKS_VERSION_5, SOCKS_CMD_CONNECT, SOCKS_RSV] @ encode_target (Wire_Domain ''ids.cn'') @ u16_to_be 443 @ [])"
    by code_simp
  have o: "[SOCKS_VERSION_5, 1, SOCKS_METHOD_NO_AUTH]
      @ [SOCKS_VERSION_5, SOCKS_CMD_CONNECT, SOCKS_RSV] @ encode_target (Wire_Domain ''ids.cn'') @ u16_to_be 443
    = [5, 1, 0, 5, 1, 0, 3, 6, 105, 100, 115, 46, 99, 110, 1, 187]" by code_simp
  have "write_script ?s = []" "outgoing ?s = []" "encodable (Wire_Ipv4 (Ipv4 10 0 0 1))" "write_script ?srv = []"
    by simp_all
  from socks5_client_matches_server [OF this(1) t u this(3) d this(2) this(4) v, of plain_ansi]
  show ?thesis unfolding o target_text.simps .
qed

section \<open>The reply of an HTTP proxy\<close>

definition ends_head :: "bytes \<Rightarrow> bool" where
  "ends_head bs \<longleftrightarrow> 4 \<le> length bs \<and> drop (length bs - 4) bs = HEAD_END"

text \<open>A reply head: it ends with the empty line, and no shorter prefix does.\<close>

definition is_reply_head :: "bytes \<Rightarrow> bool" where
  "is_reply_head bs \<longleftrightarrow> ends_head bs \<and> list_all (\<lambda>k. \<not> ends_head (take k bs)) [0..<length bs]"

lemma read_head_loop_step:
  "io_read 1 s = (Inr [b], s') \<Longrightarrow> read_head_loop buf s =
     (if ends_head (buf @ [b]) then (Inr (from_utf8_lossy (buf @ [b])), s')
      else if HTTP_PROXY_HEAD_MAX_SIZE < length (buf @ [b]) then
        (Inl (Runtime ''http proxy connect reply header is too large''), s')
      else read_head_loop (buf @ [b]) s')"
  unfolding ends_head_def by (subst read_head_loop.simps) (simp only: prod.case sum.case list.simps nth_Cons_0 Let_def if_False simp_thms)

lemma read_head_loop_delivers:
  "delivers s (xs @ rest) \<Longrightarrow> xs \<noteq> [] \<Longrightarrow> ends_head (buf @ xs) \<Longrightarrow>
   (\<And>k. length buf < k \<Longrightarrow> k < length (buf @ xs) \<Longrightarrow> \<not> ends_head (take k (buf @ xs))) \<Longrightarrow>
   length (buf @ xs) \<le> Suc HTTP_PROXY_HEAD_MAX_SIZE \<Longrightarrow>
   \<exists>s'. read_head_loop buf s = (Inr (from_utf8_lossy (buf @ xs)), s') \<and> delivers s' rest \<and> outgoing s' = outgoing s"
proof (induction xs arbitrary: buf s)
  case (Cons x xs)
  from delivers_io_read [OF Cons.prems(1), of 1] obtain s1 where
    s1: "io_read 1 s = (Inr [x], s1)" "delivers s1 (xs @ rest)" "outgoing s1 = outgoing s"
    by (auto simp: le_Suc_eq)
  show ?case
  proof (cases "xs = []")
    case True
    with s1 Cons.prems(3) show ?thesis by (simp add: read_head_loop_step [OF s1(1)])
  next
    case False
    with Cons.prems(4) [of "Suc (length buf)"] have "\<not> ends_head (buf @ [x])" by simp
    moreover have "\<not> HTTP_PROXY_HEAD_MAX_SIZE < length (buf @ [x])"
      using Cons.prems(5) False by (cases xs) simp_all
    moreover have "\<exists>s'. read_head_loop (buf @ [x]) s1 = (Inr (from_utf8_lossy ((buf @ [x]) @ xs)), s') \<and>
        delivers s' rest \<and> outgoing s' = outgoing s1"
      using Cons.prems(3-5) False s1(2) by (intro Cons.IH) auto
    ultimately show ?thesis using s1 by (simp add: read_head_loop_step [OF s1(1)])
  qed
qed simp

text \<open>The number of bytes a script still holds.\<close>

fun item_bytes :: "nat \<times> read_item \<Rightarrow> nat" where
  "item_bytes (d, Data bs) = length bs"
| "item_bytes (d, Read_Err e) = 0"

definition script_bytes :: "stream \<Rightarrow> nat" where
  "script_bytes s = sum_list (map item_bytes (incoming s))"

lemma io_read_consumes: "io_read n s = (Inr bs, s') \<Longrightarrow> script_bytes s = length bs + script_bytes s'"
  by (auto simp: io_read_def script_bytes_def split: list.splits read_item.splits if_splits)

lemma io_read_error_consumes: "io_read n s = (Inl e, s') \<Longrightarrow> script_bytes s = script_bytes s'"
  by (auto simp: io_read_def script_bytes_def split: list.splits read_item.splits if_splits)

lemma read_head_loop_bounded:
  "length buf \<le> HTTP_PROXY_HEAD_MAX_SIZE \<Longrightarrow> read_head_loop buf s = (r, s') \<Longrightarrow>
   \<exists>n. script_bytes s = n + script_bytes s' \<and> length buf + n \<le> Suc HTTP_PROXY_HEAD_MAX_SIZE \<and>
     (\<forall>head. r = Inr head \<longrightarrow> (\<exists>bs. ends_head bs \<and> length bs = length buf + n \<and> head = from_utf8_lossy bs))"
proof (induction buf s arbitrary: r s' rule: read_head_loop.induct)
  case (1 buf s)
  obtain res s1 where io: "io_read 1 s = (res, s1)" by fastforce
  show ?case
  proof (cases res)
    case (Inl e)
    with "1.prems" io io_read_error_consumes [of 1 s e s1] show ?thesis
      by (auto simp: read_head_loop.simps [of buf s])
  next
    case (Inr one)
    show ?thesis
    proof (cases "one = []")
      case True
      with "1.prems" io Inr io_read_consumes [of 1 s one s1] show ?thesis
        by (auto simp: read_head_loop.simps [of buf s])
    next
      case False
      with io Inr io_read_length [of 1 s one s1] obtain b where b: "one = [b]"
        by (cases one) auto
      have c: "script_bytes s = 1 + script_bytes s1"
        using io_read_consumes [of 1 s one s1] io Inr b by simp
      note step = read_head_loop_step [OF io [unfolded Inr b]]
      consider (found) "ends_head (buf @ [b])"
        | (large) "\<not> ends_head (buf @ [b])" "HTTP_PROXY_HEAD_MAX_SIZE < length (buf @ [b])"
        | (again) "\<not> ends_head (buf @ [b])" "\<not> HTTP_PROXY_HEAD_MAX_SIZE < length (buf @ [b])"
        by blast
      then show ?thesis
      proof cases
        case found
        with step "1.prems" c show ?thesis by (intro exI [of _ 1]) auto
      next
        case large
        with step "1.prems" c show ?thesis by (intro exI [of _ 1]) auto
      next
        case again
        with step "1.prems" have r: "read_head_loop (buf @ [b]) s1 = (r, s')" by simp
        from again "1.IH" [OF io [symmetric] Inr False refl _ _ _ ] r b obtain n where
          "script_bytes s1 = n + script_bytes s'" "length (buf @ [b]) + n \<le> Suc HTTP_PROXY_HEAD_MAX_SIZE"
          "\<forall>head. r = Inr head \<longrightarrow> (\<exists>bs. ends_head bs \<and> length bs = length (buf @ [b]) + n \<and> head = from_utf8_lossy bs)"
          by (auto simp: ends_head_def)
        with c show ?thesis by (intro exI [of _ "Suc n"]) auto
      qed
    qed
  qed
qed


text \<open>
  HTTP CONNECT: whatever the segmentation of the reply, the tunnel is established exactly when
  the status line of the reply's head says 200, with the connection left right behind the head, so
  that no byte of the tunnelled stream is lost; and what was written is the CONNECT request for the
  target.
\<close>

theorem http_connect_tunnel:
  assumes "delivers s (head @ rest)" and "is_reply_head head" and "length head \<le> 16385"
    and "write_script s = []"
  shows "\<exists>s'. http_exchange s host port = (ensure_http_connect_success (from_utf8_lossy head), s') \<and>
    delivers s' rest \<and>
    outgoing s' = outgoing s @ bytes_of_str (connect_request (format_socket_target host (dec_u16 port)))"
proof -
  let ?s = "s\<lparr>outgoing := outgoing s @ bytes_of_str (connect_request (format_socket_target host (dec_u16 port)))\<rparr>"
  from assms(2) have h: "ends_head head" "\<And>k. k < length head \<Longrightarrow> \<not> ends_head (take k head)"
    by (simp_all add: is_reply_head_def list_all_iff)
  have "\<exists>s'. read_head_loop [] ?s = (Inr (from_utf8_lossy ([] @ head)), s') \<and> delivers s' rest \<and> outgoing s' = outgoing ?s"
    using assms(1,3) h by (intro read_head_loop_delivers) (auto simp: ends_head_def HTTP_PROXY_HEAD_MAX_SIZE_def)
  then show ?thesis
    using assms(4) by (auto simp: http_exchange_def read_http_proxy_head_def write_all_ok)
qed

theorem http_connect_tunnel_witness:
  "\<exists>s'. http_exchange
      \<lparr>clock = 0, incoming = [(0, Data (bytes_of_str ''HTTP/1.1 200 OK'' @ [13])), (7, Data ([10, 13, 10] @ [22, 3]))],
       outgoing = [], write_script = []\<rparr> ''::1'' 443 = (Inr (), s') \<and>
    delivers s' [22, 3] \<and>
    outgoing s' = bytes_of_str (connect_request ''[::1]:443'')"
proof -
  let ?s = "\<lparr>clock = 0, incoming = [(0, Data (bytes_of_str ''HTTP/1.1 200 OK'' @ [13])), (7, Data ([10, 13, 10] @ [22, 3]))],
       outgoing = [], write_script = []\<rparr> :: stream"
  let ?h = "bytes_of_str ''HTTP/1.1 200 OK'' @ [13, 10, 13, 10]"
  have d: "delivers ?s (?h @ [22, 3])" by code_simp
  have h: "is_reply_head ?h" by code_simp
  have l: "length ?h \<le> 16385" "write_script ?s = []" by simp_all
  have e: "ensure_http_connect_success (from_utf8_lossy ?h) = Inr ()" by code_simp
  have f: "format_socket_target ''::1'' (dec_u16 443) = ''[::1]:443''" by code_simp
  from http_connect_tunnel [OF d h l, of "''::1''" 443] show ?thesis unfolding e f by simp
qed

end
