(* ===== verification/Socks.thy ===== *)
theory Socks
  imports Routing SocksProxy TunnelRuntime
begin

text \<open>
  \<^verbatim>\<open>ec-core/src/socks.rs\<close>: the SOCKS server. From a request to a route decision (tunnel, direct,
  fallback proxy, or none), its execution up to the reply, the relays, and UDP ASSOCIATE with its
  pinned client. The network stack (\<^verbatim>\<open>open_tcp_connection\<close>, \<^verbatim>\<open>open_udp_association\<close>), the sockets of
  the system and the duplication of a socket handle are parameters (\<open>socks_env\<close>); the routing state
  is threaded through. Log lines are values: a level, a scope and a message.
\<close>

definition RELAY_BUFFER_SIZE :: nat where "RELAY_BUFFER_SIZE = 4096"
definition UDP_RELAY_BUFFER_SIZE :: nat where "UDP_RELAY_BUFFER_SIZE = 64 * 1024"

datatype route_transport =
    Via_Tunnel string
  | Via_Direct string
  | Via_Proxy fallback_proxy connect_target
  | Via_Unsupported string

record route_decision =
  rd_line :: string
  rd_path :: string
  rd_transport :: route_transport

datatype udp_route_transport = Udp_Tunnel sock_v4 | Udp_Unsupported string

record udp_route_decision =
  ud_line :: string
  ud_path :: string
  ud_transport :: udp_route_transport

record 'conn socks_env =
  se_ansi :: ansi
  se_route :: route_env
  se_open_tunnel :: "string \<Rightarrow> 'conn ec_result"
  se_connect :: tcp_connect
  se_clone :: "stream \<Rightarrow> io_error + unit"

section \<open>Addresses\<close>

definition normalize_bind_addr :: "string \<Rightarrow> string" where
  "normalize_bind_addr bind_addr =
     (if starts_with '':'' bind_addr then ''0.0.0.0'' @ bind_addr else bind_addr)"

definition target_addr :: "string \<Rightarrow> string" where
  "target_addr target =
     (case rsplit_once '':'' target of
        Some (host, port) \<Rightarrow> format_socket_target host port
      | None \<Rightarrow> target)"

definition is_ip_host :: "string \<Rightarrow> bool" where
  "is_ip_host host \<longleftrightarrow> parse_ipv4 (trim host) \<noteq> None \<or> parse_ipv6 (trim host) \<noteq> None"

definition resolve_dial_v4_from_str :: "resolver \<Rightarrow> string \<Rightarrow> sock_v4 ec_result" where
  "resolve_dial_v4_from_str lookup target =
     try_map (\<lambda>e. Runtime (''resolve udp target failed: '' @ target @ '': '' @ e)) (to_socket_addrs lookup target)
       (\<lambda>addrs. ok_or (Runtime (''no ipv4 address resolved for udp target '' @ target)) (first_v4 addrs))"

section \<open>Route decisions\<close>

definition arrow :: "ansi \<Rightarrow> string" where
  "arrow A = out_weak A '' -> ''"

definition route_decision_remote :: "ansi \<Rightarrow> string \<Rightarrow> bool \<Rightarrow> string \<Rightarrow> string \<Rightarrow> route_source \<Rightarrow> route_decision" where
  "route_decision_remote A target_display target_is_ip dial rc_name source =
     (let name = (if trim rc_name = [] then ''unknown'' else rc_name);
          head = target_display @ arrow A @ route_label A Kind_Remote @ arrow A @ name
      in \<lparr>rd_line = (if target_is_ip then head else head @ out_weak A ''('' @ dial @ out_weak A '')''),
          rd_path = ''remote -> '' @ name @ ''('' @ dial @ ''); source='' @ source_describe source,
          rd_transport = Via_Tunnel dial\<rparr>)"

definition route_decision_fallback :: "ansi \<Rightarrow> connect_target \<Rightarrow> string \<Rightarrow> string \<Rightarrow> string
    \<Rightarrow> fallback_proxy option \<Rightarrow> route_decision" where
  "route_decision_fallback A target target_display dial reason fallback_proxy =
     (case fallback_proxy of
        Some proxy \<Rightarrow>
          \<lparr>rd_line = target_display @ arrow A @ route_label A Kind_Fallback @ arrow A @ out_value A (fp_url proxy),
           rd_path = ''fallback -> '' @ fp_url proxy @ ''; reason: '' @ reason,
           rd_transport = Via_Proxy proxy target\<rparr>
      | None \<Rightarrow>
          \<lparr>rd_line = target_display @ arrow A @ route_label A Kind_Fallback @ arrow A @ route_label A Kind_Direct,
           rd_path = ''fallback -> direct; dial: '' @ dial @ ''; reason: '' @ reason,
           rd_transport = Via_Direct dial\<rparr>)"

definition route_decision_planner_error :: "ansi \<Rightarrow> string \<Rightarrow> ec_error \<Rightarrow> route_decision" where
  "route_decision_planner_error A target_display err =
     \<lparr>rd_line = target_display @ arrow A @ route_label A Kind_Fallback @ arrow A @ ''route planner unavailable'',
      rd_path = ''fallback -> unavailable; reason: route planner unavailable: '' @ concise_error err,
      rd_transport = Via_Unsupported ''route planner unavailable''\<rparr>"

definition resolved_line :: "ansi \<Rightarrow> string \<Rightarrow> string \<Rightarrow> string \<Rightarrow> string \<Rightarrow> int \<Rightarrow> log_entry list" where
  "resolved_line A how host resolved_ip via rc_id =
     [(Level_Info, Scope_Upstream,
       how @ out_value A host @ arrow A @ out_value A resolved_ip @ via @ '' for rc_id=''
       @ out_value A (dec_of_int rc_id))]"

fun log_resolved_route_source :: "ansi \<Rightarrow> string \<Rightarrow> string \<Rightarrow> int \<Rightarrow> route_source \<Rightarrow> log_entry list" where
  "log_resolved_route_source A host resolved_ip rc_id DnsDataIpRule =
     resolved_line A ''dns.data resolved '' host resolved_ip [] rc_id"
| "log_resolved_route_source A host resolved_ip rc_id (DnsServerQuery server) =
     resolved_line A ''dnsserver resolved '' host resolved_ip ('' via '' @ out_value A (show_sock_addr server)) rc_id"
| "log_resolved_route_source A host resolved_ip rc_id (CnameDnsServerQuery server) =
     resolved_line A ''dnsserver resolved '' host resolved_ip ('' via '' @ out_value A (show_sock_addr server)) rc_id"
| "log_resolved_route_source A host resolved_ip rc_id (DnsServerIpRuleQuery server) =
     resolved_line A ''dnsserver resolved '' host resolved_ip ('' via '' @ out_value A (show_sock_addr server)) rc_id"
| "log_resolved_route_source A host resolved_ip rc_id DnsServerCache =
     resolved_line A ''dns cache hit '' host resolved_ip [] rc_id"
| "log_resolved_route_source A host resolved_ip rc_id CnameDnsServerCache =
     resolved_line A ''dns cache hit '' host resolved_ip [] rc_id"
| "log_resolved_route_source A host resolved_ip rc_id DnsServerIpRuleCache =
     resolved_line A ''dns cache hit '' host resolved_ip [] rc_id"
| "log_resolved_route_source A host resolved_ip rc_id source = []"

definition resolved_ip_of :: "string \<Rightarrow> string" where
  "resolved_ip_of dial = (case rsplit_once '':'' dial of Some (ip, _) \<Rightarrow> ip | None \<Rightarrow> dial)"

definition decide_route :: "'conn socks_env \<Rightarrow> connect_target \<Rightarrow> fallback_proxy option \<Rightarrow> router_state
    \<Rightarrow> route_decision \<times> log_entry list \<times> router_state" where
  "decide_route E target fallback_proxy s =
     (let A = se_ansi E; target_display = show_target target; target_is_ip = is_ip_host (ct_host target) in
      case plan_target_with_proto (se_route E) (ct_host target) (ct_port target) Tcp s of
        (Inr (Remote dial rc_id rc_name source), s) \<Rightarrow>
          (route_decision_remote A target_display target_is_ip dial rc_name source,
           log_resolved_route_source A (ct_host target) (resolved_ip_of dial) rc_id source, s)
      | (Inr (Fallback planned_target reason), s) \<Rightarrow>
          (route_decision_fallback A target target_display (target_addr planned_target) reason fallback_proxy, [], s)
      | (Inl err, s) \<Rightarrow> (route_decision_planner_error A target_display err, [], s))"

definition decision_tunnel_target :: "route_decision \<Rightarrow> string ec_result" where
  "decision_tunnel_target decision =
     (case rd_transport decision of
        Via_Tunnel dial \<Rightarrow> Inr dial
      | _ \<Rightarrow> Inl (Runtime ''route decision is not a tunnel transport''))"

definition udp_decision :: "route_decision \<Rightarrow> udp_route_transport \<Rightarrow> udp_route_decision" where
  "udp_decision decision transport =
     \<lparr>ud_line = rd_line decision, ud_path = rd_path decision, ud_transport = transport\<rparr>"

definition decide_udp_route :: "'conn socks_env \<Rightarrow> connect_target \<Rightarrow> fallback_proxy option \<Rightarrow> router_state
    \<Rightarrow> udp_route_decision \<times> log_entry list \<times> router_state" where
  "decide_udp_route E target fallback_proxy s =
     (let A = se_ansi E; target_display = show_target target; target_is_ip = is_ip_host (ct_host target) in
      case plan_target_with_proto (se_route E) (ct_host target) (ct_port target) Udp s of
        (Inr (Remote dial rc_id rc_name source), s) \<Rightarrow>
          (let decision = route_decision_remote A target_display target_is_ip dial rc_name source in
           (udp_decision decision
              (case try_map id (decision_tunnel_target decision) (resolve_dial_v4_from_str (re_resolver (se_route E))) of
                 Inr v4 \<Rightarrow> Udp_Tunnel v4
               | Inl err \<Rightarrow> Udp_Unsupported (''udp remote target is not ipv4: '' @ concise_error err)),
            log_resolved_route_source A (ct_host target) (resolved_ip_of dial) rc_id source, s))
      | (Inr (Fallback planned_target reason), s) \<Rightarrow>
          (udp_decision
             (route_decision_fallback A target target_display (target_addr planned_target) reason fallback_proxy)
             (Udp_Unsupported ''udp fallback transport is not supported yet''), [], s)
      | (Inl err, s) \<Rightarrow>
          (udp_decision (route_decision_planner_error A target_display err)
             (Udp_Unsupported ''route planner unavailable''), [], s))"

section \<open>Executing a route\<close>

definition route_runtime_error :: "string \<Rightarrow> string \<Rightarrow> string \<Rightarrow> ec_error" where
  "route_runtime_error target_display route_path err =
     Runtime (target_display @ '' -> '' @ route_path @ ''; error: '' @ concise_message err)"

definition write_connect_ok_reply :: "stream \<Rightarrow> string \<Rightarrow> string \<Rightarrow> unit ec_result \<times> stream" where
  "write_connect_ok_reply client target_display route_path =
     try_io (\<lambda>e. route_runtime_error target_display route_path (show_error e))
       (write_reply client SOCKS_REP_SUCCEEDED) (\<lambda>_ client. (Inr (), client))"

text \<open>What the relay that starts has at its other end.\<close>

datatype 'conn upstream = Tunnel_Conn 'conn | Direct_Conn stream

definition clone_stream :: "'conn socks_env \<Rightarrow> string \<Rightarrow> stream \<Rightarrow> unit ec_result" where
  "clone_stream E what s = try_map (io_err (''clone '' @ what @ '' stream failed: '')) (se_clone E s) Inr"

definition relay_direct_with_reply :: "'conn socks_env \<Rightarrow> stream \<Rightarrow> stream \<Rightarrow> string \<Rightarrow> string
    \<Rightarrow> 'conn upstream ec_result \<times> stream" where
  "relay_direct_with_reply E client conn target_display route_path =
     try_io id (write_connect_ok_reply client target_display route_path) (\<lambda>_ client.
       (try_map (\<lambda>e. route_runtime_error target_display route_path (show_error e))
          (try_map id (clone_stream E ''client'' client) (\<lambda>_. clone_stream E ''upstream'' conn))
          (\<lambda>_. Inr (Direct_Conn conn)), client))"

text \<open>
  \<^verbatim>\<open>execute_route\<close> up to the start of the relay's threads, which end without an error: its result
  is the other end they copy to and from, or the error.
\<close>

definition execute_route :: "'conn socks_env \<Rightarrow> stream \<Rightarrow> string \<Rightarrow> route_decision
    \<Rightarrow> 'conn upstream ec_result \<times> stream" where
  "execute_route E client target_display route =
     (let route_path = rd_path route; failed = route_runtime_error target_display route_path in
      case rd_transport route of
        Via_Tunnel dial_target \<Rightarrow>
          (case se_open_tunnel E dial_target of
             Inl e \<Rightarrow> (Inl (failed (show_error e)), client)
           | Inr conn \<Rightarrow>
               try_io id (write_connect_ok_reply client target_display route_path) (\<lambda>_ client.
                 (try_map (\<lambda>e. failed (show_error e)) (clone_stream E ''client'' client)
                    (\<lambda>_. Inr (Tunnel_Conn conn)), client)))
      | Via_Direct dial_target \<Rightarrow>
          (case se_connect E dial_target of
             Inl e \<Rightarrow> (Inl (failed (io_text e)), client)
           | Inr conn \<Rightarrow> relay_direct_with_reply E client conn target_display route_path)
      | Via_Proxy proxy target \<Rightarrow>
          (case connect_via_proxy (se_connect E) (se_ansi E) proxy (ct_host target) (ct_port target) of
             Inl e \<Rightarrow> (Inl (failed (show_error e)), client)
           | Inr conn \<Rightarrow> relay_direct_with_reply E client conn target_display route_path)
      | Via_Unsupported reason \<Rightarrow> (Inl (failed reason), client))"

definition handle_connect :: "'conn socks_env \<Rightarrow> fallback_proxy option \<Rightarrow> stream \<Rightarrow> connect_target \<Rightarrow> router_state
    \<Rightarrow> 'conn upstream ec_result \<times> stream \<times> log_entry list \<times> router_state" where
  "handle_connect E fallback_proxy client target s =
     (case decide_route E target fallback_proxy s of (route, logs, s) \<Rightarrow>
        (case execute_route E client (show_target target) route of (r, client) \<Rightarrow>
           (r, client, logs @ [(Level_Info, Scope_Req, rd_line route)], s)))"

section \<open>Relays\<close>

text \<open>
  \<^verbatim>\<open>pump_stream\<close>: the loop of one direction, from the reads of \<open>src\<close> to the writes of \<open>dst\<close>; it ends
  in the half-close of \<open>dst\<close>, which streams do not record. The two directions of a relay use
  different halves of the two sockets, so that running one after the other loses nothing.
\<close>

function pump_stream :: "stream \<Rightarrow> stream \<Rightarrow> stream \<times> stream" where
  "pump_stream src dst =
     (case io_read RELAY_BUFFER_SIZE src of
        (Inr buf, src') \<Rightarrow>
          if buf = [] then (src', dst)
          else
            (case write_all buf dst of
               (Inr _, dst') \<Rightarrow> pump_stream src' dst'
             | (Inl _, dst') \<Rightarrow> (src', dst'))
      | (Inl _, src') \<Rightarrow> (src', dst))"
  by pat_completeness auto
termination
  by (relation "measure (\<lambda>(src, dst). script_size src)")
     (auto dest: io_read_decreases [OF sym] simp: RELAY_BUFFER_SIZE_def)

declare pump_stream.simps [simp del]

definition relay_direct :: "stream \<Rightarrow> stream \<Rightarrow> stream \<times> stream" where
  "relay_direct client upstream =
     (case pump_stream client upstream of (client, upstream) \<Rightarrow>
        (case pump_stream upstream client of (upstream, client) \<Rightarrow> (client, upstream)))"

text \<open>
  The two threads of \<^verbatim>\<open>relay_tunnel\<close>. Upload: what is sent into the tunnel connection, and whether
  it is closed at the end; \<open>gone n\<close> says whether sending fails after \<open>n\<close> chunks. Download: the chunks
  the tunnel delivers until the connection ends.
\<close>

function tunnel_upload :: "(nat \<Rightarrow> bool) \<Rightarrow> bytes list \<Rightarrow> stream \<Rightarrow> bytes list \<times> bool \<times> stream" where
  "tunnel_upload gone sent client =
     (case io_read RELAY_BUFFER_SIZE client of
        (Inr buf, client') \<Rightarrow>
          if buf = [] then (sent, True, client')
          else if gone (length sent) then (sent, False, client')
          else tunnel_upload gone (sent @ [buf]) client'
      | (Inl _, client') \<Rightarrow> (sent, True, client'))"
  by pat_completeness auto
termination
  by (relation "measure (\<lambda>(gone, sent, client). script_size client)")
     (auto dest: io_read_decreases [OF sym] simp: RELAY_BUFFER_SIZE_def)

declare tunnel_upload.simps [simp del]

fun tunnel_download :: "bytes list \<Rightarrow> stream \<Rightarrow> stream" where
  "tunnel_download [] client = client"
| "tunnel_download (chunk # chunks) client =
     (if chunk = [] then tunnel_download chunks client
      else
        (case write_all chunk client of
           (Inr _, client) \<Rightarrow> tunnel_download chunks client
         | (Inl _, client) \<Rightarrow> client))"

section \<open>UDP ASSOCIATE\<close>

text \<open>The client the association is pinned to (\<^verbatim>\<open>client_peer\<close>).\<close>

definition remember_udp_client :: "sock_addr option \<Rightarrow> sock_addr \<Rightarrow> bool \<times> sock_addr option" where
  "remember_udp_client client_peer peer =
     (case client_peer of
        Some existing \<Rightarrow> (existing = peer, client_peer)
      | None \<Rightarrow> (True, Some peer))"

definition current_udp_client :: "sock_addr option \<Rightarrow> sock_addr option" where
  "current_udp_client client_peer = client_peer"

text \<open>
  What happens to an association: a datagram (or an error) at its relay socket, with the stop message
  of the control watcher already there or not; a datagram from the tunnel. \<open>ua_to_tunnel\<close> is what was
  sent to the tunnel, \<open>ua_to_client\<close> what was sent to clients, each oldest first.
\<close>

datatype udp_event =
    From_Socket bytes sock_addr bool
  | Socket_Error io_error
  | From_Tunnel sock_v4 bytes

record udp_association =
  ua_peer :: "sock_addr option"
  ua_router :: router_state
  ua_to_tunnel :: "(sock_v4 \<times> bytes) list"
  ua_to_client :: "(sock_addr \<times> bytes) list"

text \<open>One iteration of \<^verbatim>\<open>run_udp_relay\<close> on a datagram.\<close>

definition udp_relay_packet :: "'conn socks_env \<Rightarrow> fallback_proxy option \<Rightarrow> bytes \<Rightarrow> sock_addr
    \<Rightarrow> udp_association \<Rightarrow> udp_association" where
  "udp_relay_packet E fallback_proxy data peer st =
     (let data = take UDP_RELAY_BUFFER_SIZE data in
      if data = [] then st
      else
        (case remember_udp_client (ua_peer st) peer of (known, client_peer) \<Rightarrow>
          (let st = st\<lparr>ua_peer := client_peer\<rparr> in
           if \<not> known then st
           else
             (case parse_socks_udp_packet data of
                Inl _ \<Rightarrow> st
              | Inr packet \<Rightarrow>
                  (case decide_udp_route E (up_target packet) fallback_proxy (ua_router st) of (route, logs, s) \<Rightarrow>
                    (let st = st\<lparr>ua_router := s\<rparr> in
                     case ud_transport route of
                       Udp_Tunnel target \<Rightarrow> st\<lparr>ua_to_tunnel := ua_to_tunnel st @ [(target, up_payload packet)]\<rparr>
                     | Udp_Unsupported _ \<Rightarrow> st))))))"

text \<open>One iteration of \<^verbatim>\<open>forward_udp_from_tunnel\<close>.\<close>

definition forward_udp_datagram :: "sock_v4 \<Rightarrow> bytes \<Rightarrow> udp_association \<Rightarrow> udp_association" where
  "forward_udp_datagram source data st =
     (case current_udp_client (ua_peer st) of
        None \<Rightarrow> st
      | Some peer \<Rightarrow> st\<lparr>ua_to_client := ua_to_client st @ [(peer, encode_socks_udp_packet source data)]\<rparr>)"

text \<open>
  \<^verbatim>\<open>run_udp_relay\<close> and \<^verbatim>\<open>forward_udp_from_tunnel\<close> on an interleaving of their events; the result is
  that of the relay, \<open>None\<close> while it waits for the next event.
\<close>

fun run_udp_association :: "'conn socks_env \<Rightarrow> fallback_proxy option \<Rightarrow> udp_event list \<Rightarrow> udp_association
    \<Rightarrow> unit ec_result option \<times> udp_association" where
  "run_udp_association E fallback_proxy [] st = (None, st)"
| "run_udp_association E fallback_proxy (Socket_Error e # events) st =
     (Some (Inl (io_err ''udp relay recv failed: '' e)), st)"
| "run_udp_association E fallback_proxy (From_Socket data peer stopped # events) st =
     (if stopped then (Some (Inr ()), st)
      else run_udp_association E fallback_proxy events (udp_relay_packet E fallback_proxy data peer st))"
| "run_udp_association E fallback_proxy (From_Tunnel source data # events) st =
     run_udp_association E fallback_proxy events (forward_udp_datagram source data st)"

record 'assoc udp_env =
  ue_control_addr :: "io_error + sock_addr"
  ue_bind :: "sock_v4 \<Rightarrow> io_error + unit"
  ue_relay_addr :: "io_error + sock_addr"
  ue_open :: "'assoc ec_result"

definition udp_relay_bind_addr :: "'assoc udp_env \<Rightarrow> sock_v4 ec_result" where
  "udp_relay_bind_addr U =
     try_map (io_err ''socks control local addr failed: '') (ue_control_addr U) (\<lambda>addr.
       case addr of
         V4 a \<Rightarrow> Inr (Sock_V4 (v4_ip a) 0)
       | V6 _ _ _ \<Rightarrow> Inl (Runtime ''udp associate over ipv6 control connection is not supported''))"

text \<open>What is asked of the network stack for an association.\<close>

datatype assoc_call = Assoc_Open | Assoc_Close

text \<open>\<^verbatim>\<open>handle_udp_associate\<close> up to the start of the relay: the relay's address and its association.\<close>

definition udp_associate_setup :: "'conn socks_env \<Rightarrow> 'assoc udp_env \<Rightarrow> stream
    \<Rightarrow> (sock_v4 \<times> 'assoc) ec_result \<times> assoc_call list \<times> stream" where
  "udp_associate_setup E U client =
     (case try_map id (udp_relay_bind_addr U) (\<lambda>relay_bind.
             try_map (io_err ''udp relay bind failed: '') (ue_bind U relay_bind) (\<lambda>_.
               try_map (io_err ''udp relay local addr failed: '') (ue_relay_addr U) Inr)) of
        Inl e \<Rightarrow> (Inl e, [], client)
      | Inr (V6 _ _ _) \<Rightarrow>
          (Inl (Runtime ''udp relay only supports ipv4 bind address''), [],
           snd (write_reply client SOCKS_REP_GENERAL_FAILURE))
      | Inr (V4 relay_addr) \<Rightarrow>
          (case try_map id (clone_stream E ''socks control'' client) (\<lambda>_. ue_open U) of
             Inl e \<Rightarrow> (Inl e, [], client)
           | Inr assoc \<Rightarrow>
               (case write_bound_reply client SOCKS_REP_SUCCEEDED relay_addr of
                  (Inl e, client) \<Rightarrow> (Inl e, [Assoc_Open, Assoc_Close], client)
                | (Inr _, client) \<Rightarrow> (Inr (relay_addr, assoc), [Assoc_Open], client))))"

definition new_udp_association :: "router_state \<Rightarrow> udp_association" where
  "new_udp_association s = \<lparr>ua_peer = None, ua_router = s, ua_to_tunnel = [], ua_to_client = []\<rparr>"

section \<open>A client, and the server\<close>

datatype ('conn, 'assoc) session =
    Connect_Session "'conn upstream"
  | Udp_Session sock_v4 'assoc

definition handle_client :: "'conn socks_env \<Rightarrow> 'assoc udp_env \<Rightarrow> fallback_proxy option \<Rightarrow> stream \<Rightarrow> router_state
    \<Rightarrow> ('conn, 'assoc) session ec_result \<times> stream \<times> router_state" where
  "handle_client E U fallback_proxy client s =
     (case try_io id (negotiate_method client) (\<lambda>_. read_socks_request) of
        (Inl e, client) \<Rightarrow> (Inl e, client, s)
      | (Inr request, client) \<Rightarrow>
          (case sr_command request of
             Connect \<Rightarrow>
               (case handle_connect E fallback_proxy client (sr_target request) s of (r, client, logs, s) \<Rightarrow>
                  (map_sum id Connect_Session r, client, s))
           | UdpAssociate \<Rightarrow>
               (case udp_associate_setup E U client of (r, calls, client) \<Rightarrow>
                  (map_sum id (\<lambda>(addr, assoc). Udp_Session addr assoc) r, client, s))
           | Other v \<Rightarrow>
               (Inl (Runtime (''unsupported socks command: '' @ show_command (sr_command request))),
                snd (write_reply client SOCKS_REP_CMD_NOT_SUPPORTED), s)))"

text \<open>
  \<^verbatim>\<open>serve\<close>: what it binds and the proxy it hands to the accept loop, or its error; once the tunnel
  reports a fatal reason it returns \<open>tunnel closed\<close>.
\<close>

definition serve_start :: "(string \<Rightarrow> io_error + unit) \<Rightarrow> string \<Rightarrow> string option
    \<Rightarrow> (string \<times> fallback_proxy option) ec_result" where
  "serve_start bind bind_addr fallback_proxy =
     (let normalized = normalize_bind_addr bind_addr in
      try_map id (parse_fallback_proxy fallback_proxy) (\<lambda>proxy.
        try_map (io_err (''socks bind failed on '' @ bind_addr @ '': '')) (bind normalized)
          (\<lambda>_. Inr (normalized, proxy))))"

definition serve_wait :: "'rx tunnel_globals \<Rightarrow> unit ec_result option" where
  "serve_wait g = map_option (\<lambda>_. Inl (Runtime ''tunnel closed'')) (wait_tunnel_fatal_reason g)"

definition log_socks_startup :: "ansi \<Rightarrow> string \<Rightarrow> fallback_proxy option \<Rightarrow> log_entry list" where
  "log_socks_startup A bind_addr fallback_proxy =
     [(Level_Info, Scope_App,
       case fallback_proxy of
         Some proxy \<Rightarrow> ''fallback: proxy to '' @ out_value A (fp_url proxy)
       | None \<Rightarrow> ''fallback: direct''),
      (Level_Info, Scope_App, ''listening on '' @ out_value A bind_addr)]"

section \<open>Which way a target leaves\<close>

lemma plan_target_matcher:
  assumes "router s = Some (Matcher m)" and "indexed m"
    and "plan_target_with_proto env host port flow s = (r, s')"
  shows "router s' = router s \<and> (\<exists>p. r = Inr p \<and> justified env m host port flow p)"
  using assms plan_justified [OF assms(2), of env host port flow "router_dns s"]
  by (cases "plan env m host port flow (router_dns s)")
     (auto simp: plan_target_with_proto_def plan_from_mode_def)


section \<open>A connection from the handshake to the relay\<close>

text \<open>Reaching the far end of a decided transport: the other end of the relay, if there is one.\<close>

definition reach :: "'conn socks_env \<Rightarrow> route_transport \<Rightarrow> 'conn upstream option" where
  "reach E transport =
     (case transport of
        Via_Tunnel dial \<Rightarrow> map_option Tunnel_Conn (ok (se_open_tunnel E dial))
      | Via_Direct dial \<Rightarrow> map_option Direct_Conn (ok (se_connect E dial))
      | Via_Proxy proxy target \<Rightarrow> map_option Direct_Conn
          (ok (connect_via_proxy (se_connect E) (se_ansi E) proxy (ct_host target) (ct_port target)))
      | Via_Unsupported _ \<Rightarrow> None)"

definition success_reply :: bytes where
  "success_reply = [5, 0, 0, 1, 0, 0, 0, 0, 0, 0]"

lemma write_connect_ok:
  "write_script client = [] \<Longrightarrow> write_connect_ok_reply client display path =
     (Inr (), client\<lparr>outgoing := outgoing client @ success_reply\<rparr>)"
  by (simp add: write_connect_ok_reply_def write_reply_def write_all_ok success_reply_def socks_consts)

lemma execute_route_reach:
  assumes "write_script client = []" and "se_clone E = (\<lambda>_. Inr ())"
  shows "case reach E (rd_transport route) of
      None \<Rightarrow> \<exists>m. execute_route E client display route = (Inl (Runtime m), client)
    | Some up \<Rightarrow> execute_route E client display route =
        (Inr up, client\<lparr>outgoing := outgoing client @ success_reply\<rparr>)"
  using assms
  by (cases "rd_transport route")
     (auto simp: reach_def execute_route_def relay_direct_with_reply_def clone_stream_def write_connect_ok Let_def
        route_runtime_error_def ok_def split: sum.splits)

lemma connect_session_run:
  assumes "delivers client ([SOCKS_VERSION_5, word_of_nat (length ms)] @ ms
      @ [SOCKS_VERSION_5, SOCKS_CMD_CONNECT, SOCKS_RSV] @ encode_target t @ u16_to_be p @ rest)"
    and "length ms < 256" and "SOCKS_METHOD_NO_AUTH \<in> set ms" and "encodable t"
    and "write_script client = []" and "outgoing client = []" and "se_clone E = (\<lambda>_. Inr ())"
    and "decide_route E \<lparr>ct_host = target_text t, ct_port = p\<rparr> fallback_proxy s = (route, logs, s')"
  shows "\<exists>r client'. handle_client E U fallback_proxy client s = (r, client', s') \<and> delivers client' rest \<and>
    write_script client' = [] \<and> (case reach E (rd_transport route) of
       Some up \<Rightarrow> r = Inr (Connect_Session up) \<and> outgoing client' = [5, 0] @ success_reply
     | None \<Rightarrow> (\<exists>m. r = Inl (Runtime m)) \<and> outgoing client' = [5, 0])"
proof -
  from negotiate_method_delivers [OF assms(1-3,5)] obtain c1 where c1: "negotiate_method client = (Inr (), c1)"
    "delivers c1 ([SOCKS_VERSION_5, SOCKS_CMD_CONNECT, SOCKS_RSV] @ encode_target t @ u16_to_be p @ rest)"
    "outgoing c1 = [SOCKS_VERSION_5, SOCKS_METHOD_NO_AUTH]" "write_script c1 = []" using assms(6) by auto
  from read_socks_request_delivers [OF c1(2) assms(4)] obtain c2 where c2:
    "read_socks_request c1 = (Inr \<lparr>sr_command = command_from_byte SOCKS_CMD_CONNECT,
        sr_target = \<lparr>ct_host = target_text t, ct_port = p\<rparr>\<rparr>, c2)"
    "delivers c2 rest" "outgoing c2 = outgoing c1" "write_script c2 = []" using c1(4) by auto
  have cmd: "command_from_byte SOCKS_CMD_CONNECT = Connect" by (simp add: command_from_byte_def)
  have out: "outgoing c2 = [5, 0]" using c1(3) c2(3) by (simp add: socks_consts)
  let ?x = "execute_route E c2 (show_target \<lparr>ct_host = target_text t, ct_port = p\<rparr>) route"
  have h: "handle_client E U fallback_proxy client s = (map_sum id Connect_Session (fst ?x), snd ?x, s')"
    using c1(1) c2(1) cmd assms(8) by (simp add: handle_client_def handle_connect_def split: prod.splits)
  from execute_route_reach [OF c2(4) assms(7), where route = route and display = "show_target \<lparr>ct_host = target_text t, ct_port = p\<rparr>"]
  show ?thesis
    unfolding h using c2(2,4) out by (auto split: option.splits)
qed

text \<open>
  \<^bold>\<open>C8.\<close> A CONNECT client, from the first byte to the relay, in any segmentation: if the far end of
  the decided route is reached, the client has been sent the method reply and the success reply, in
  this order and nothing else, and the relay starts with every byte the client sent after its request
  still to be read; if it is not reached the session ends with an error, and the client has been sent
  the method reply only, no SOCKS reply at all.
\<close>

theorem connect_session:
  assumes "delivers client ([SOCKS_VERSION_5, word_of_nat (length ms)] @ ms
      @ [SOCKS_VERSION_5, SOCKS_CMD_CONNECT, SOCKS_RSV] @ encode_target t @ u16_to_be p @ rest)"
    and "length ms < 256" and "SOCKS_METHOD_NO_AUTH \<in> set ms" and "encodable t"
    and "write_script client = []" and "outgoing client = []" and "se_clone E = (\<lambda>_. Inr ())"
    and "decide_route E \<lparr>ct_host = target_text t, ct_port = p\<rparr> fallback_proxy s = (route, logs, s')"
  shows "\<exists>r client'. handle_client E U fallback_proxy client s = (r, client', s') \<and> delivers client' rest \<and>
    (case reach E (rd_transport route) of
       Some up \<Rightarrow> r = Inr (Connect_Session up) \<and> outgoing client' = [5, 0] @ success_reply
     | None \<Rightarrow> (\<exists>m. r = Inl (Runtime m)) \<and> outgoing client' = [5, 0])"
proof -
  from connect_session_run [OF assms, of U] show ?thesis by blast
qed

section \<open>The pinned client of a UDP association\<close>

text \<open>The datagrams at the relay socket before the stop message, each with its sender.\<close>

fun socket_datagrams :: "udp_event list \<Rightarrow> (bytes \<times> sock_addr) list" where
  "socket_datagrams [] = []"
| "socket_datagrams (Socket_Error e # events) = []"
| "socket_datagrams (From_Socket data peer stopped # events) =
     (if stopped then [] else (take UDP_RELAY_BUFFER_SIZE data, peer) # socket_datagrams events)"
| "socket_datagrams (From_Tunnel source data # events) = socket_datagrams events"

definition first_peer :: "(bytes \<times> sock_addr) list \<Rightarrow> sock_addr option" where
  "first_peer ds = map_option snd (find (\<lambda>(data, _). data \<noteq> []) ds)"

definition relayed_ok :: "(bytes \<times> sock_addr) list \<Rightarrow> sock_addr option \<Rightarrow> sock_v4 \<times> bytes \<Rightarrow> bool" where
  "relayed_ok ds peer sent \<longleftrightarrow>
     (\<exists>(data, from) \<in> set ds. peer = Some from \<and>
        (\<exists>packet. parse_socks_udp_packet data = Inr packet \<and> up_payload packet = snd sent))"

definition udp_inv :: "(bytes \<times> sock_addr) list \<Rightarrow> udp_association \<Rightarrow> bool" where
  "udp_inv ds st \<longleftrightarrow> ua_peer st = first_peer ds \<and>
     list_all (relayed_ok ds (ua_peer st)) (ua_to_tunnel st) \<and>
     list_all (\<lambda>(peer, _). ua_peer st = Some peer) (ua_to_client st)"

lemma relayed_ok_mono: "relayed_ok ds peer sent \<Longrightarrow> relayed_ok (ds @ es) peer sent"
  by (auto simp: relayed_ok_def)

lemma relayed_ok_none: "\<not> relayed_ok ds None sent"
  by (simp add: relayed_ok_def case_prod_beta)

lemma find_snoc: "find P (xs @ [x]) = (case find P xs of Some y \<Rightarrow> Some y | None \<Rightarrow> if P x then Some x else None)"
  by (induction xs) auto

lemma first_peer_snoc:
  "first_peer (ds @ [(data, from)]) =
     (case first_peer ds of Some p \<Rightarrow> Some p | None \<Rightarrow> if data \<noteq> [] then Some from else None)"
  by (auto simp: first_peer_def find_snoc split: option.splits)

lemma udp_relay_packet_peer:
  "ua_peer (udp_relay_packet E fb data from st) =
     (case ua_peer st of Some p \<Rightarrow> Some p
      | None \<Rightarrow> if take UDP_RELAY_BUFFER_SIZE data \<noteq> [] then Some from else None)"
  by (auto simp: udp_relay_packet_def Let_def remember_udp_client_def
      split: option.splits prod.splits sum.splits udp_route_transport.splits)

lemma udp_relay_packet_client: "ua_to_client (udp_relay_packet E fb data from st) = ua_to_client st"
  by (auto simp: udp_relay_packet_def Let_def
      split: option.splits prod.splits sum.splits udp_route_transport.splits)

lemma udp_relay_packet_tunnel:
  "ua_to_tunnel (udp_relay_packet E fb data from st) = ua_to_tunnel st \<or>
   (\<exists>target packet. ua_to_tunnel (udp_relay_packet E fb data from st) = ua_to_tunnel st @ [(target, up_payload packet)] \<and>
      parse_socks_udp_packet (take UDP_RELAY_BUFFER_SIZE data) = Inr packet \<and>
      ua_peer (udp_relay_packet E fb data from st) = Some from)"
  by (auto simp: udp_relay_packet_def Let_def remember_udp_client_def
      split: option.splits prod.splits sum.splits udp_route_transport.splits)

lemma udp_inv_packet:
  assumes "udp_inv ds st"
  shows "udp_inv (ds @ [(take UDP_RELAY_BUFFER_SIZE data, from)]) (udp_relay_packet E fb data from st)"
proof -
  let ?st = "udp_relay_packet E fb data from st" and ?d = "(take UDP_RELAY_BUFFER_SIZE data, from)"
  from assms have peer: "ua_peer ?st = first_peer (ds @ [?d])"
    by (simp add: udp_inv_def udp_relay_packet_peer first_peer_snoc)
  have stays: "ua_peer st = None \<or> ua_peer ?st = ua_peer st"
    by (simp add: udp_relay_packet_peer split: option.splits)
  from assms stays have old: "list_all (relayed_ok (ds @ [?d]) (ua_peer ?st)) (ua_to_tunnel st)"
    by (cases "ua_peer st") (auto simp: udp_inv_def list_all_iff relayed_ok_none intro: relayed_ok_mono)
  moreover from assms stays have "list_all (\<lambda>(p, _). ua_peer ?st = Some p) (ua_to_client ?st)"
    by (auto simp: udp_inv_def list_all_iff udp_relay_packet_client)
  moreover have "list_all (relayed_ok (ds @ [?d]) (ua_peer ?st)) (ua_to_tunnel ?st)"
    using udp_relay_packet_tunnel [of E fb data "from" st]
  proof
    assume "\<exists>target packet. ua_to_tunnel ?st = ua_to_tunnel st @ [(target, up_payload packet)] \<and>
      parse_socks_udp_packet (take UDP_RELAY_BUFFER_SIZE data) = Inr packet \<and> ua_peer ?st = Some from"
    with old show ?thesis by (auto simp: relayed_ok_def)
  qed (use old in simp)
  ultimately show ?thesis using peer by (simp add: udp_inv_def)
qed

lemma udp_inv_datagram: "udp_inv ds st \<Longrightarrow> udp_inv ds (forward_udp_datagram source data st)"
  by (auto simp: udp_inv_def forward_udp_datagram_def current_udp_client_def split: option.splits)

lemma udp_inv_run:
  "run_udp_association E fb events st = (r, st') \<Longrightarrow> udp_inv ds st \<Longrightarrow> udp_inv (ds @ socket_datagrams events) st'"
proof (induction E fb events st arbitrary: ds rule: run_udp_association.induct)
  case (3 E fb data peer stopped events st)
  show ?case
  proof (cases stopped)
    case True
    with "3.prems" show ?thesis by simp
  next
    case False
    with "3.IH" [OF False _ udp_inv_packet [OF "3.prems"(2)]] "3.prems"(1) show ?thesis by simp
  qed
qed (auto intro: udp_inv_datagram)

text \<open>
  \<^bold>\<open>C23.\<close> A UDP association serves one client: whatever arrives at its relay socket and from the
  tunnel, in any order, every payload it sends into the tunnel is that of a well-formed packet from the
  sender of the first non-empty datagram, and every packet it sends back goes to that sender.
\<close>

theorem udp_association_one_client:
  "case run_udp_association E fallback_proxy events (new_udp_association s) of (r, st) \<Rightarrow>
     ua_peer st = first_peer (socket_datagrams events) \<and>
     list_all (relayed_ok (socket_datagrams events) (ua_peer st)) (ua_to_tunnel st) \<and>
     list_all (\<lambda>(peer, _). ua_peer st = Some peer) (ua_to_client st)"
proof -
  obtain r st where run: "run_udp_association E fallback_proxy events (new_udp_association s) = (r, st)" by fastforce
  have "udp_inv [] (new_udp_association s)"
    by (simp add: udp_inv_def new_udp_association_def first_peer_def)
  from udp_inv_run [OF run this] show ?thesis
    unfolding run udp_inv_def prod.case append_Nil .
qed

section \<open>The relays copy\<close>

lemma pump_stream_delivers:
  "delivers src bs \<Longrightarrow> write_script dst = [] \<Longrightarrow>
   \<exists>src' dst'. pump_stream src dst = (src', dst') \<and> outgoing dst' = outgoing dst @ bs \<and>
     incoming dst' = incoming dst \<and> write_script dst' = [] \<and>
     outgoing src' = outgoing src \<and> write_script src' = write_script src"
proof (induction src dst arbitrary: bs rule: pump_stream.induct)
  case (1 src dst)
  show ?case
  proof (cases "bs = []")
    case True
    with "1.prems"(1) have "incoming src = []"
      by (cases "incoming src" rule: chunk_bytes.cases) (auto simp: delivers_def split: if_splits)
    with True "1.prems"(2) show ?thesis by (simp add: pump_stream.simps [of src dst] io_read_def)
  next
    case False
    from io_read_deliver_time [OF "1.prems"(1) False, of RELAY_BUFFER_SIZE] obtain c s' where
      c: "io_read RELAY_BUFFER_SIZE src = (Inr c, s')" "c \<noteq> []" "bs = c @ drop (length c) bs"
        "delivers s' (drop (length c) bs)" "outgoing s' = outgoing src" "write_script s' = write_script src"
      by (auto simp: RELAY_BUFFER_SIZE_def)
    let ?d = "dst\<lparr>outgoing := outgoing dst @ c\<rparr>"
    have w: "write_all c dst = (Inr (), ?d)" using "1.prems"(2) by (rule write_all_ok)
    from "1.IH" [OF c(1) [symmetric] refl c(2) w [symmetric] refl c(4)] "1.prems"(2) obtain src' dst' where
      "pump_stream s' ?d = (src', dst')" "outgoing dst' = outgoing ?d @ drop (length c) bs"
      "incoming dst' = incoming ?d" "write_script dst' = []" "outgoing src' = outgoing s'"
      "write_script src' = write_script s'" by auto
    with c w show ?thesis by (simp add: pump_stream.simps [of src dst])
  qed
qed

lemma tunnel_upload_delivers:
  "delivers client bs \<Longrightarrow> \<exists>chunks client'. tunnel_upload (\<lambda>_. False) sent client = (sent @ chunks, True, client') \<and>
     concat chunks = bs \<and> list_all (\<lambda>c. c \<noteq> [] \<and> length c \<le> 4096) chunks"
proof (induction "\<lambda>_ :: nat. False" sent client arbitrary: bs rule: tunnel_upload.induct)
  case (1 sent client)
  show ?case
  proof (cases "bs = []")
    case True
    with "1.prems" have "incoming client = []"
      by (cases "incoming client" rule: chunk_bytes.cases) (auto simp: delivers_def split: if_splits)
    with True show ?thesis by (simp add: tunnel_upload.simps [of _ sent client] io_read_def)
  next
    case False
    from io_read_deliver_time [OF "1.prems" False, of RELAY_BUFFER_SIZE] obtain c s' where
      c: "io_read RELAY_BUFFER_SIZE client = (Inr c, s')" "c \<noteq> []" "length c \<le> 4096" "bs = c @ drop (length c) bs"
        "delivers s' (drop (length c) bs)" by (auto simp: RELAY_BUFFER_SIZE_def)
    from "1.hyps" [OF c(1) [symmetric] refl c(2) _ c(5)] obtain chunks client' where
      "tunnel_upload (\<lambda>_. False) (sent @ [c]) s' = ((sent @ [c]) @ chunks, True, client')"
      "concat chunks = drop (length c) bs" "list_all (\<lambda>c. c \<noteq> [] \<and> length c \<le> 4096) chunks" by auto
    with c show ?thesis by (auto simp: tunnel_upload.simps [of _ sent client] intro!: exI [of _ "c # chunks"])
  qed
qed

lemma tunnel_download_ok:
  "write_script client = [] \<Longrightarrow> outgoing (tunnel_download chunks client) = outgoing client @ concat chunks"
  by (induction chunks arbitrary: client) (auto simp: write_all_ok)

lemma relay_direct_delivers:
  assumes "delivers client up" and "delivers server down" and "write_script client = []" and "write_script server = []"
  shows "case relay_direct client server of (client', server') \<Rightarrow>
    outgoing server' = outgoing server @ up \<and> outgoing client' = outgoing client @ down"
proof -
  from pump_stream_delivers [OF assms(1,4)] obtain c1 u1 where p1: "pump_stream client server = (c1, u1)"
    "outgoing u1 = outgoing server @ up" "incoming u1 = incoming server" "outgoing c1 = outgoing client"
    "write_script c1 = []" using assms(3) by auto
  from p1(3) assms(2) have "delivers u1 down" by (simp add: delivers_def)
  from pump_stream_delivers [OF this p1(5)] p1 obtain u2 c2 where
    "pump_stream u1 c1 = (u2, c2)" "outgoing c2 = outgoing client @ down" "outgoing u2 = outgoing server @ up"
    by auto
  with p1(1) show ?thesis by (simp add: relay_direct_def)
qed

section \<open>Witnesses\<close>

definition toy_socks :: "unit socks_env" where
  "toy_socks = \<lparr>se_ansi = plain_ansi, se_route = \<lparr>re_dns = toy_env, re_resolver = (\<lambda>_ _. Inl ''no such host'')\<rparr>,
     se_open_tunnel = (\<lambda>_. Inr ()), se_connect = (\<lambda>_. Inr (toy_stream [])), se_clone = (\<lambda>_. Inr ())\<rparr>"


definition toy_client :: stream where
  "toy_client = toy_stream [(3, Data [5]), (1, Data [2, 2, 0, 5, 1, 0]), (9, Data [3, 2, 105, 100, 1]), (2, Data [187, 71])]"

definition toy_router :: router_state where
  "toy_router = \<lparr>router = Some TunnelFallback, router_dns = toy_state\<rparr>"

lemma toy_client:
  "delivers toy_client ([SOCKS_VERSION_5, word_of_nat (length [2, 0 :: u8])] @ [2, 0]
      @ [SOCKS_VERSION_5, SOCKS_CMD_CONNECT, SOCKS_RSV] @ encode_target (Wire_Domain ''id'') @ u16_to_be 443 @ [71])"
  "length [2, 0 :: u8] < 256" "SOCKS_METHOD_NO_AUTH \<in> set [2, 0]" "encodable (Wire_Domain ''id'')"
  "write_script toy_client = []" "outgoing toy_client = []" "se_clone toy_socks = (\<lambda>_. Inr ())"
proof -
  show "delivers toy_client ([SOCKS_VERSION_5, word_of_nat (length [2, 0 :: u8])] @ [2, 0]
      @ [SOCKS_VERSION_5, SOCKS_CMD_CONNECT, SOCKS_RSV] @ encode_target (Wire_Domain ''id'') @ u16_to_be 443 @ [71])"
    by code_simp
  show "encodable (Wire_Domain ''id'')" by code_simp
qed (simp_all add: socks_consts toy_client_def toy_stream_def toy_socks_def)

lemma toy_route:
  "\<exists>route logs. decide_route toy_socks \<lparr>ct_host = target_text (Wire_Domain ''id''), ct_port = 443\<rparr> None toy_router =
     (route, logs, toy_router) \<and> reach toy_socks (rd_transport route) = Some (Tunnel_Conn ())"
proof -
  let ?t = "\<lparr>ct_host = target_text (Wire_Domain ''id''), ct_port = 443\<rparr>"
  obtain route logs s' where r: "decide_route toy_socks ?t None toy_router = (route, logs, s')"
    by (cases "decide_route toy_socks ?t None toy_router") auto
  then have "s' = toy_router \<and> (\<exists>dial. rd_transport route = Via_Tunnel dial)"
    by (auto simp: toy_router_def decide_route_def Let_def plan_target_with_proto_def plan_from_mode_def
        route_decision_remote_def)
  with r show ?thesis by (auto simp: reach_def toy_socks_def ok_def)
qed

theorem connect_session_witness:
  "\<forall>U :: unit udp_env. \<exists>client'. handle_client toy_socks U None toy_client toy_router =
    (Inr (Connect_Session (Tunnel_Conn ())), client', toy_router) \<and>
    delivers client' [71] \<and> outgoing client' = [5, 0, 5, 0, 0, 1, 0, 0, 0, 0, 0, 0]"
proof -
  from toy_route obtain route logs where
    "decide_route toy_socks \<lparr>ct_host = target_text (Wire_Domain ''id''), ct_port = 443\<rparr> None toy_router =
       (route, logs, toy_router)" "reach toy_socks (rd_transport route) = Some (Tunnel_Conn ())" by blast
  with connect_session [OF toy_client this(1), where 'b = unit] show ?thesis
    by (auto simp: success_reply_def)
qed

end
