(* ===== verification/App.thy ===== *)
theory App
  imports Login RouteDetails Netstack Socks
begin

text \<open>
  \<^verbatim>\<open>ec-core/src/app.rs\<close> and \<^verbatim>\<open>main\<close> of \<^verbatim>\<open>ec-cli/src/main.rs\<close>: the program from its arguments to the
  state in which it serves, or to its exit code. The connections are those of \<open>Tls\<close>, made from the
  outcomes of the socket and OpenSSL calls of each connection (\<open>ap_route_tls\<close>, \<open>ap_token_tls\<close>, and
  \<open>ap_vpn_tls\<close> by the number of the VPN connection, with the time it takes). The state are the
  statics of the process: the router, the tunnel channels, whether the network stack runs, and the
  time of the VPN connections.
\<close>

section \<open>The application\<close>

record ('key, 'rx) app_env =
  ap_login :: "'key login_env"
  ap_route_tls :: tls_lib
  ap_xml :: "string \<Rightarrow> xml_event list"
  ap_write_details :: "bytes \<Rightarrow> io_error + unit"
  ap_token_tls :: tls_lib
  ap_session :: "stream \<Rightarrow> bytes option"
  ap_vpn_tls :: "nat \<Rightarrow> nat \<times> tls_lib"
  ap_clear_read_timeout :: "stream \<Rightarrow> io_error + unit"
  ap_nanos :: nat
  ap_pid :: u32
  ap_rx :: 'rx
  ap_bind :: "string \<Rightarrow> io_error + unit"

record 'rx app_state =
  as_router :: router_state
  as_time :: vpn_time
  as_globals :: "'rx tunnel_globals"
  as_netstack :: bool

definition validate_transport_preconditions :: "unit ec_result" where
  "validate_transport_preconditions = Inr ()"

definition validate_netstack_preconditions :: "unit ec_result" where
  "validate_netstack_preconditions = Inr ()"

definition validate_preconditions :: "unit ec_result" where
  "validate_preconditions =
     try_map id validate_transport_preconditions (\<lambda>_. try_map id validate_netstack_preconditions (\<lambda>_. Inr ()))"

definition app_ansi :: "('key, 'rx) app_env \<Rightarrow> ansi" where
  "app_ansi E = le_ansi (ap_login E)"

text \<open>The library of the tunnel: its TLS connections are \<^verbatim>\<open>connect_vpn_tls\<close> of \<open>Tls\<close>.\<close>

definition app_vpn_lib :: "('key, 'rx) app_env \<Rightarrow> vpn_lib" where
  "app_vpn_lib E =
     \<lparr>vl_connect = (\<lambda>authority host n. case ap_vpn_tls E n of (d, T) \<Rightarrow> (d, open_vpn_tls T authority host)),
      vl_clear_read_timeout = ap_clear_read_timeout E\<rparr>"

definition app_login :: "('key, 'rx) app_env \<Rightarrow> app_config \<Rightarrow> string ec_result \<times> log_entry list" where
  "app_login E config =
     (case login (ap_login E) config of
        (Inl e, requests, logs) \<Rightarrow> (Inl e, logs)
      | (Inr twf_id, requests, logs) \<Rightarrow>
          (Inr twf_id,
           logs @ [(Level_Success, Scope_Login, ''session id acquired: '' @ out_value (app_ansi E) twf_id)]))"

definition try_install_route_table :: "('key, 'rx) app_env \<Rightarrow> app_config \<Rightarrow> string \<Rightarrow> router_state
    \<Rightarrow> unit ec_result \<times> router_state \<times> log_entry list" where
  "try_install_route_table E config twf_id s =
     (case fst (fetch_route_table (route_table_connect_tls (ap_route_tls E)) (ap_xml E) (ac_server config) twf_id) of
        Inr table \<Rightarrow>
          (let logs = (if ac_details config
                then fst (log_table_details (ap_write_details E) table (ac_extra_ips config)) else []);
               A = app_ansi E in
           case install_route_table table (ac_extra_ips config) s of
             (Inl e, s) \<Rightarrow> (Inl e, s, logs)
           | (Inr install, s) \<Rightarrow>
               (Inr (), s, logs @ [(Level_Info, Scope_App,
                  ''route table loaded: '' @ out_value A (dec_of_nat (sum_rule_count install)) @ '' rules, ''
                  @ out_value A (dec_of_nat (sum_dns_server_count install)) @ '' dns servers, ''
                  @ out_value A (dec_of_nat (sum_dns_record_count install)) @ '' dns records'')]))
      | Inl err \<Rightarrow>
          (let logs = [(Level_Warn, Scope_App,
                ''route table unavailable; routing degraded to tunnel: '' @ concise_error err)] in
           case install_tunnel_fallback s of (r, s) \<Rightarrow> (r, s, logs)))"

definition acquire_protocol_token :: "('key, 'rx) app_env \<Rightarrow> app_config \<Rightarrow> string \<Rightarrow> string ec_result \<times> log_entry list" where
  "acquire_protocol_token E config twf_id =
     (let start = (Level_Info, Scope_Agent, ''fetching agent token...'') in
      case fst (fetch_agent_token (le_hex (ap_login E)) (token_connect_tls (ap_token_tls E)) (ap_session E) (ac_server config) twf_id) of
        Inl e \<Rightarrow> (Inl e, [start])
      | Inr agent_token \<Rightarrow>
          (Inr (agent_token @ twf_id), [start, (Level_Success, Scope_Agent, ''agent token acquired'')]))"

text \<open>
  What \<^verbatim>\<open>start_tunnel_runtime\<close> logs: a line for each handshake that succeeded and, once the threads run,
  the schedule of the heartbeats.
\<close>

definition heartbeat_logs :: "ansi \<Rightarrow> log_entry list" where
  "heartbeat_logs A =
     [(Level_Info, Scope_Protocol,
       ''data heartbeat: TX every '' @ out_value A (dec_of_nat (TX_HEARTBEAT_INTERVAL div 1000)) @ ''s''),
      (Level_Info, Scope_Protocol,
       ''command heartbeat: every '' @ out_value A (dec_of_nat (COMMAND_HEARTBEAT_INTERVAL div 1000)) @ ''s; retry ''
       @ out_value A (dec_of_nat (COMMAND_HEARTBEAT_RETRY_DELAY div 1000)) @ ''s x''
       @ out_value A (dec_of_nat COMMAND_HEARTBEAT_FAILURE_LIMIT))]"

definition start_tunnel_logs :: "ansi \<Rightarrow> vpn_lib \<Rightarrow> tunnel_params \<Rightarrow> bool \<Rightarrow> vpn_time \<Rightarrow> log_entry list" where
  "start_tunnel_logs A L P started t =
     (case open_stream L P Rx t of
        (Inl _, _) \<Rightarrow> []
      | (Inr _, t) \<Rightarrow> (Level_Success, Scope_Protocol, ''RX handshake successful'') #
          (case open_stream L P Tx t of
             (Inl _, _) \<Rightarrow> []
           | (Inr _, _) \<Rightarrow> (Level_Success, Scope_Protocol, ''TX handshake successful'') #
               (if started then heartbeat_logs A else [])))"

text \<open>The lines of a start that gets as far as opening the data streams.\<close>

definition tunnel_runtime_logs :: "('key, 'rx) app_env \<Rightarrow> app_config \<Rightarrow> string \<Rightarrow> tunnel_ips \<Rightarrow> bool \<Rightarrow> vpn_time \<Rightarrow> log_entry list" where
  "tunnel_runtime_logs E config token ips started t =
     (case (parse_server (ac_server config), parse_protocol_token token) of
        (Inr (authority, host), Inr token_bytes) \<Rightarrow>
          start_tunnel_logs (app_ansi E) (app_vpn_lib E)
            (new_params (ap_nanos E) (ap_pid E) authority host token_bytes ips) started t
      | _ \<Rightarrow> [])"

definition start_tunnel :: "('key, 'rx) app_env \<Rightarrow> app_config \<Rightarrow> string \<Rightarrow> vpn_time \<Rightarrow> 'rx tunnel_globals
    \<Rightarrow> (tunnel_ips \<times> tunnel_threads) ec_result \<times> vpn_time \<times> 'rx tunnel_globals \<times> log_entry list" where
  "start_tunnel E config token t g =
     (let start = (Level_Info, Scope_Protocol, ''opening command stream...''); A = app_ansi E; L = app_vpn_lib E in
      case open_command_stream L (ac_server config) token t g of
        (Inl e, t, g) \<Rightarrow> (Inl e, t, g, [start])
      | (Inr ips, t, g) \<Rightarrow>
          (let assigned = (Level_Success, Scope_Protocol,
                ''assigned IP: '' @ out_value A (show_ipv4 (ipv4_of_octets (ti_assigned_ip ips)))
                @ ''; LAN IP: '' @ out_value A (show_ipv4 (ipv4_of_octets (ti_lan_ip ips)))) in
           case start_tunnel_runtime L (ap_nanos E) (ap_pid E) (ap_rx E) (ac_server config) token ips t g of
             (Inl e, t', g) \<Rightarrow> (Inl e, t', g, start # assigned # tunnel_runtime_logs E config token ips False t)
           | (Inr threads, t', g) \<Rightarrow>
               (Inr (ips, threads), t', g, start # assigned # tunnel_runtime_logs E config token ips True t
                @ [(Level_Success, Scope_Protocol, ''tunnel established'')])))"

text \<open>
  A running program: the address it listens on, the proxy of its sessions, the tunnel threads, and
  the receiver the network stack got (none if it had been started before).
\<close>

record 'rx running =
  rn_bind :: string
  rn_proxy :: "fallback_proxy option"
  rn_twf_id :: string
  rn_threads :: tunnel_threads
  rn_stack_rx :: "'rx option"

definition app_run :: "('key, 'rx) app_env \<Rightarrow> app_config \<Rightarrow> 'rx app_state
    \<Rightarrow> 'rx running ec_result \<times> 'rx app_state \<times> log_entry list" where
  "app_run E config w =
     (case validate_preconditions of
        Inl e \<Rightarrow> (Inl e, w, [])
      | Inr _ \<Rightarrow>
    (case app_login E config of
        (Inl e, l1) \<Rightarrow> (Inl e, w, l1)
      | (Inr twf_id, l1) \<Rightarrow>
    (case try_install_route_table E config twf_id (as_router w) of
        (Inl e, s, l2) \<Rightarrow> (Inl e, w\<lparr>as_router := s\<rparr>, l1 @ l2)
      | (Inr _, s, l2) \<Rightarrow>
    (let w = w\<lparr>as_router := s\<rparr> in
     case acquire_protocol_token E config twf_id of
        (Inl e, l3) \<Rightarrow> (Inl e, w, l1 @ l2 @ l3)
      | (Inr token, l3) \<Rightarrow>
    (case start_tunnel E config token (as_time w) (as_globals w) of
        (Inl e, t, g, l4) \<Rightarrow> (Inl e, w\<lparr>as_time := t, as_globals := g\<rparr>, l1 @ l2 @ l3 @ l4)
      | (Inr (ips, threads), t, g, l4) \<Rightarrow>
    (case start_runtime (as_netstack w) g of
        (Inl e, started, rx, g) \<Rightarrow>
          (Inl e, w\<lparr>as_time := t, as_globals := g, as_netstack := started\<rparr>, l1 @ l2 @ l3 @ l4)
      | (Inr _, started, rx, g) \<Rightarrow>
    (let w = w\<lparr>as_time := t, as_globals := g, as_netstack := started\<rparr> in
     case serve_start (ap_bind E) (ac_socks_bind config) (ac_fallback_proxy config) of
        Inl e \<Rightarrow> (Inl e, w, l1 @ l2 @ l3 @ l4)
      | Inr (bound, proxy) \<Rightarrow>
          (Inr \<lparr>rn_bind = bound, rn_proxy = proxy, rn_twf_id = twf_id, rn_threads = threads, rn_stack_rx = rx\<rparr>,
           w, l1 @ l2 @ l3 @ l4 @ log_socks_startup (app_ansi E) bound proxy))))))))"

section \<open>The program\<close>

datatype 'rx outcome = Exited int | Serving "'rx running"

definition main :: "bool \<Rightarrow> string \<Rightarrow> config_env \<Rightarrow> ('key, 'rx) app_env \<Rightarrow> string option \<Rightarrow> cli_args \<Rightarrow> bytes option
    \<Rightarrow> 'rx app_state \<Rightarrow> 'rx outcome \<times> 'rx app_state \<times> bytes option \<times> log_entry list" where
  "main debug_assertions version C E env_password args file w =
     (let A = app_ansi E;
          hello = (Level_Info, Scope_App, out_value A ''SHIEP-Pipeline'' @ '' '' @ out_value A version)
      in case build_config debug_assertions C env_password args file of
           (Inl err, file, l1) \<Rightarrow>
             (Exited 2, w, file, hello # l1 @ [(Level_Error, Scope_Cli, ''config error: '' @ concise_error err)])
         | (Inr config, file, l1) \<Rightarrow>
             (case app_run E config w of
                (Inl err, w, l2) \<Rightarrow>
                  (Exited 1, w, file, hello # l1 @ l2 @ [(Level_Error, Scope_Cli, concise_error err)])
              | (Inr running, w, l2) \<Rightarrow> (Serving running, w, file, hello # l1 @ l2)))"

text \<open>A serving program ends once a fatal reason is on record.\<close>

definition main_wait :: "'rx tunnel_globals \<Rightarrow> (int \<times> log_entry list) option" where
  "main_wait g =
     (case serve_wait g of
        Some (Inl err) \<Rightarrow> Some (1, [(Level_Error, Scope_Cli, concise_error err)])
      | Some (Inr _) \<Rightarrow> Some (0, [])
      | None \<Rightarrow> None)"

section \<open>The stages of a run\<close>

lemma app_login_Inr:
  "app_login E config = (Inr twf_id, logs) \<Longrightarrow> fst (login (ap_login E) config) = Inr twf_id"
  by (auto simp: app_login_def split: prod.splits sum.splits)

lemma from_table_total: "\<exists>m. from_table table extra_ips = Inr m"
  by (simp add: from_table_def Let_def)

text \<open>The routing mode that fits what was fetched.\<close>

definition mode_for :: "route_table ec_result \<Rightarrow> string list \<Rightarrow> route_mode" where
  "mode_for fetched extra_ips =
     (case fetched of
        Inl e \<Rightarrow> TunnelFallback
      | Inr table \<Rightarrow> (case from_table table extra_ips of Inl e \<Rightarrow> Unavailable | Inr m \<Rightarrow> Matcher m))"

definition app_fetch :: "('key, 'rx) app_env \<Rightarrow> app_config \<Rightarrow> string \<Rightarrow> route_table ec_result" where
  "app_fetch E config twf_id =
     fst (fetch_route_table (route_table_connect_tls (ap_route_tls E)) (ap_xml E) (ac_server config) twf_id)"

lemma try_install_route_table_ok:
  assumes "try_install_route_table E config twf_id s = (r, s', logs)"
  shows "r = Inr () \<and> router s' = Some (mode_for (app_fetch E config twf_id) (ac_extra_ips config)) \<and>
    router_dns s' = clear_cache (router_dns s)"
proof (cases "app_fetch E config twf_id")
  case (Inl e)
  with assms show ?thesis
    by (auto simp: try_install_route_table_def app_fetch_def [symmetric] mode_for_def install_tunnel_fallback_def)
next
  case (Inr table)
  obtain m where "from_table table (ac_extra_ips config) = Inr m" using from_table_total by blast
  with Inr assms show ?thesis
    by (auto simp: try_install_route_table_def app_fetch_def [symmetric] mode_for_def install_route_table_def Let_def)
qed

lemma start_tunnel_runtime_Inr:
  assumes "start_tunnel_runtime L nanos pid rx server token ips t g = (Inr th, t', g')"
  shows "\<exists>authority host bs. parse_server server = Inr (authority, host) \<and> parse_protocol_token token = Inr bs \<and>
     th_params th = new_params nanos pid authority host bs ips \<and> hb_holder (th_heartbeat th) = tg_command g"
  using assms
  by (auto simp: start_tunnel_runtime_def Let_def clear_tunnel_fatal_reason_def install_runtime_channels_def
      start_command_heartbeat_def split: prod.splits sum.splits if_splits)

lemma open_command_stream_Inr:
  assumes "open_command_stream L server token t g = (Inr ips, t', g')"
  shows "\<exists>s. g' = hold_command_stream s g"
  using assms
  by (auto simp: open_command_stream_def open_command_stream_once_def split: prod.splits sum.splits)

lemma start_tunnel_Inr:
  assumes "start_tunnel E config token t g = (Inr (ips, th), t', g', logs)"
  shows "(\<exists>authority host bs. parse_server (ac_server config) = Inr (authority, host) \<and> parse_protocol_token token = Inr bs \<and>
       th_params th = new_params (ap_nanos E) (ap_pid E) authority host bs ips) \<and>
     (\<exists>s. hb_holder (th_heartbeat th) = Some (Some s)) \<and>
     tg_sender g = None \<and> tg_sender g' = Some \<lparr>ch_items = [], ch_receiver_alive = True\<rparr> \<and>
     tg_receiver g' = Some (Some (ap_rx E)) \<and> tg_fatal g' = None"
proof -
  obtain t1 g1 where o: "open_command_stream (app_vpn_lib E) (ac_server config) token t g = (Inr ips, t1, g1)"
    and s: "start_tunnel_runtime (app_vpn_lib E) (ap_nanos E) (ap_pid E) (ap_rx E) (ac_server config) token ips t1 g1 = (Inr th, t', g')"
    using assms by (auto simp: start_tunnel_def Let_def split: prod.splits sum.splits)
  show ?thesis
    using start_tunnel_runtime_Inr [OF s] start_tunnel_runtime_cases [OF s] open_command_stream_Inr [OF o]
    by (auto simp: hold_command_stream_def)
qed

lemma heartbeat_session_new_params:
  "length bs = 48 \<Longrightarrow> heartbeat_session (new_params nanos pid authority host bs ips) = drop 32 bs"
  by (simp add: heartbeat_session_def new_params_def slice_def)

lemma app_run_Inr:
  assumes "app_run E config w = (Inr running, w', logs)"
  shows "\<exists>l1 s l2 token l3 ips t g l4. app_login E config = (Inr (rn_twf_id running), l1) \<and>
     try_install_route_table E config (rn_twf_id running) (as_router w) = (Inr (), s, l2) \<and>
     acquire_protocol_token E config (rn_twf_id running) = (Inr token, l3) \<and>
     start_tunnel E config token (as_time w) (as_globals w) = (Inr (ips, rn_threads running), t, g, l4) \<and>
     start_runtime (as_netstack w) g = (Inr (), as_netstack w', rn_stack_rx running, as_globals w') \<and>
     serve_start (ap_bind E) (ac_socks_bind config) (ac_fallback_proxy config) = Inr (rn_bind running, rn_proxy running) \<and>
     as_router w' = s \<and> as_time w' = t"
  using assms
  by (auto simp: app_run_def Let_def validate_preconditions_def validate_transport_preconditions_def
      validate_netstack_preconditions_def split: prod.splits sum.splits)

lemma acquire_protocol_token_Inr:
  assumes "hex_encoding (le_hex (ap_login E))" and "acquire_protocol_token E config twf_id = (Inr token, logs)"
  shows "\<exists>agent. length agent = 32 \<and> token = agent @ twf_id"
proof -
  obtain agent where a: "fst (fetch_agent_token (le_hex (ap_login E)) (token_connect_tls (ap_token_tls E)) (ap_session E) (ac_server config) twf_id) = Inr agent"
    and t: "token = agent @ twf_id"
    using assms(2) by (auto simp: acquire_protocol_token_def Let_def split: sum.splits)
  from a obtain s' where
    "fetch_agent_token (le_hex (ap_login E)) (token_connect_tls (ap_token_tls E)) (ap_session E) (ac_server config) twf_id = (Inr agent, s')"
    by (metis prod.collapse)
  then have "length agent = 32" by (auto simp: fetch_agent_token_iff session_token_iff [OF assms(1)] hex_encodingD(1) [OF assms(1)])
  with t show ?thesis by blast
qed

lemma start_runtime_Inr:
  "start_runtime started g = (Inr (), started', rx, g') \<Longrightarrow> tg_receiver g = Some (Some r) \<Longrightarrow>
   started' \<and> rx = (if started then None else Some r) \<and> tg_sender g' = tg_sender g \<and> tg_fatal g' = tg_fatal g"
  by (auto simp: start_runtime_def take_tunnel_packet_receiver_def split: if_splits)

lemma parse_protocol_token_Inr:
  "parse_protocol_token token = Inr bs \<Longrightarrow> length token = 48 \<and> bs = bytes_of_str token"
  by (auto simp: parse_protocol_token_def PROTOCOL_TOKEN_LEN_def length_bytes_of_str split: if_splits)

text \<open>
  \<^bold>\<open>C1.\<close> A program that serves is complete: it has logged in, and its session id, of 16 bytes, is what
  the heartbeat packets carry; the router has the mode that fits what was fetched, rules or the tunnel
  for everything; the tunnel was not running before, now takes packets, has no fatal reason on record,
  and its command stream is in the hands of the heartbeat; the network stack runs, with the receiver
  of the tunnel unless it already ran.
\<close>

theorem run_serves:
  assumes "hex_encoding (le_hex (ap_login E))" and "app_run E config w = (Inr running, w', logs)"
  shows "fst (login (ap_login E) config) = Inr (rn_twf_id running) \<and> length (rn_twf_id running) = 16 \<and>
     heartbeat_session (th_params (rn_threads running)) = bytes_of_str (rn_twf_id running) \<and>
     router (as_router w') = Some (mode_for (app_fetch E config (rn_twf_id running)) (ac_extra_ips config)) \<and>
     tg_sender (as_globals w) = None \<and> fst (send_tunnel_packet packet (as_globals w')) = Inr () \<and>
     tunnel_fatal_reason (as_globals w') = None \<and>
     (\<exists>s. hb_holder (th_heartbeat (rn_threads running)) = Some (Some s)) \<and>
     as_netstack w' \<and> rn_stack_rx running = (if as_netstack w then None else Some (ap_rx E))"
proof -
  from app_run_Inr [OF assms(2)] obtain l1 s l2 token l3 ips t g l4 where
    login: "app_login E config = (Inr (rn_twf_id running), l1)"
    and table: "try_install_route_table E config (rn_twf_id running) (as_router w) = (Inr (), s, l2)" "as_router w' = s"
    and token: "acquire_protocol_token E config (rn_twf_id running) = (Inr token, l3)"
    and tunnel: "start_tunnel E config token (as_time w) (as_globals w) = (Inr (ips, rn_threads running), t, g, l4)"
    and stack: "start_runtime (as_netstack w) g = (Inr (), as_netstack w', rn_stack_rx running, as_globals w')"
    by blast
  from start_tunnel_Inr [OF tunnel] obtain authority host bs where
    bs: "parse_protocol_token token = Inr bs"
      "th_params (rn_threads running) = new_params (ap_nanos E) (ap_pid E) authority host bs ips"
    and g: "\<exists>s. hb_holder (th_heartbeat (rn_threads running)) = Some (Some s)" "tg_sender (as_globals w) = None"
      "tg_sender g = Some \<lparr>ch_items = [], ch_receiver_alive = True\<rparr>" "tg_receiver g = Some (Some (ap_rx E))"
      "tg_fatal g = None"
    by blast
  from acquire_protocol_token_Inr [OF assms(1) token] obtain agent where a: "length agent = 32" "token = agent @ rn_twf_id running"
    by blast
  note p = parse_protocol_token_Inr [OF bs(1)]
  from a p have l: "length (rn_twf_id running) = 16" by simp
  have h: "heartbeat_session (th_params (rn_threads running)) = bytes_of_str (rn_twf_id running)"
    unfolding bs(2) using a p heartbeat_session_new_params [of bs]
    by (simp add: length_bytes_of_str bytes_of_str_def)
  from stack g have "fst (send_tunnel_packet packet (as_globals w')) = Inr () \<and> tunnel_fatal_reason (as_globals w') = None \<and>
     as_netstack w' \<and> rn_stack_rx running = (if as_netstack w then None else Some (ap_rx E))"
    using start_runtime_Inr [OF stack g(4)] by (simp add: send_tunnel_packet_def tunnel_fatal_reason_def)
  with app_login_Inr [OF login] l h try_install_route_table_ok [OF table(1)] table(2) g(1,2) show ?thesis by simp
qed

text \<open>
  \<^bold>\<open>C14.\<close> Fetching the route table never stops the program: its installation always succeeds. After a
  failed fetch every target, for both protocols, is planned into the tunnel with its own host and port;
  after a fetch the router holds the matcher of the table and the extra addresses, and as many rules
  and servers as it reports.
\<close>

theorem route_table_degrades:
  "case try_install_route_table E config twf_id s of (r, s', logs) \<Rightarrow>
     r = Inr () \<and>
     (case app_fetch E config twf_id of
        Inl e \<Rightarrow> fst (plan_target_with_proto env host port flow s') =
            Inr (Remote (dial_host host port) 0 ''route-table-unavailable'' RouteTableUnavailable)
      | Inr table \<Rightarrow> \<exists>m. from_table table (ac_extra_ips config) = Inr m \<and> router s' = Some (Matcher m) \<and>
          fst (plan_target_with_proto env host port flow s') = Inr (fst (plan env m host port flow (clear_cache (router_dns s)))))"
proof -
  obtain r s' logs where t: "try_install_route_table E config twf_id s = (r, s', logs)" by (metis prod_cases3)
  note ok = try_install_route_table_ok [OF t]
  show ?thesis
  proof (cases "app_fetch E config twf_id")
    case (Inl e)
    with ok t show ?thesis by (simp add: mode_for_def plan_target_with_proto_def plan_from_mode_def)
  next
    case (Inr table)
    obtain m where m: "from_table table (ac_extra_ips config) = Inr m" using from_table_total by blast
    with Inr ok t show ?thesis
      by (simp add: mode_for_def plan_target_with_proto_def plan_from_mode_def map_prod_def case_prod_unfold)
  qed
qed

text \<open>
  How the program ends: with code 2, and without having done anything but what concerns the
  configuration, exactly when there is no valid configuration; with code 1 exactly when the run fails;
  and a serving program ends only on a fatal reason of the tunnel, with code 1. There is no code 0.
\<close>

theorem exit_codes:
  "case main debug_assertions version C E env_password args file w of (out, w', file', logs) \<Rightarrow>
     file' = fst (snd (build_config debug_assertions C env_password args file)) \<and>
     (case fst (build_config debug_assertions C env_password args file) of
        Inl e \<Rightarrow> out = Exited 2 \<and> w' = w
      | Inr config \<Rightarrow> w' = fst (snd (app_run E config w)) \<and>
          (case fst (app_run E config w) of Inl e \<Rightarrow> out = Exited 1 | Inr running \<Rightarrow> out = Serving running)) \<and>
     map_option fst (main_wait g) = map_option (\<lambda>_. 1) (tunnel_fatal_reason g)"
  by (simp add: main_def main_wait_def Let_def serve_wait_def wait_tunnel_fatal_reason_def tunnel_fatal_reason_def
      split: prod.split sum.split option.split)


section \<open>Witnesses\<close>

definition toy_tls :: "(nat \<times> read_item) list \<Rightarrow> tls_lib" where
  "toy_tls items =
     \<lparr>tl_connect = (\<lambda>_. Inr ()), tl_read_timeout = Inr (), tl_write_timeout = Inr (), tl_keepalive = Inr (),
      tl_builder = Inr (), tl_ciphers = Inr (), tl_configure = Inr (), tl_into_ssl = Inr (),
      tl_session = \<lparr>ss_new = True, ss_protocol = 1, ss_master = 1, ss_id = 1, ss_set = 1, ss_errors = []\<rparr>,
      tl_handshake = (\<lambda>ssl tcp. Inr (toy_stream items))\<rparr>"

definition toy_replies :: "nat \<Rightarrow> (nat \<times> read_item) list" where
  "toy_replies n =
     (if n = 0 then [(1, Data ([0, 0, 0, 0, 10, 166, 80, 12, 0, 0, 0, 0, 10, 166, 64, 7] @ replicate 20 0))]
      else if n = 1 then [(1, Data (NATIVE_CONTROL_MAGIC @ u32_to_le (control_code RxAck) @ replicate 32 0))]
      else [(1, Data (NATIVE_CONTROL_MAGIC @ u32_to_le (control_code TxAck) @ replicate 32 0))])"

definition toy_app :: "(nat, unit) app_env" where
  "toy_app =
     \<lparr>ap_login = toy_login, ap_route_tls = toy_tls [(10, Data (bytes_of_str ''<?xml?>''))], ap_xml = toy_xml,
      ap_write_details = (\<lambda>_. Inr ()), ap_token_tls = toy_tls [(10, Data [60, 63])],
      ap_session = (\<lambda>_. Some (replicate 16 42)), ap_vpn_tls = (\<lambda>n. (5, toy_tls (toy_replies n))),
      ap_clear_read_timeout = (\<lambda>_. Inr ()), ap_nanos = 1, ap_pid = 2, ap_rx = (), ap_bind = (\<lambda>_. Inr ())\<rparr>"

definition toy_process :: "unit app_state" where
  "toy_process = \<lparr>as_router = \<lparr>router = None, router_dns = toy_state\<rparr>, as_time = toy_time,
     as_globals = \<lparr>tg_sender = None, tg_receiver = None, tg_command = None, tg_fatal = None\<rparr>, as_netstack = False\<rparr>"


abbreviation toy_token :: string where
  "toy_token \<equiv> concat (replicate 15 ''2a'') @ ''2'' @ [CHR 0x00] @ ''0123456789abcdef''"

lemma toy_login_stage: "\<exists>logs. app_login toy_app toy_credentials = (Inr ''0123456789abcdef'', logs)"
proof -
  have "fst (app_login toy_app toy_credentials) = Inr ''0123456789abcdef''" by code_simp
  then show ?thesis by (cases "app_login toy_app toy_credentials") simp
qed

lemma toy_token_stage:
  "\<exists>logs. acquire_protocol_token toy_app toy_credentials ''0123456789abcdef'' = (Inr toy_token, logs)"
proof -
  have "fst (acquire_protocol_token toy_app toy_credentials ''0123456789abcdef'') = Inr toy_token" by code_simp
  then show ?thesis by (cases "acquire_protocol_token toy_app toy_credentials ''0123456789abcdef''") simp
qed

abbreviation toy_ips :: tunnel_ips where
  "toy_ips \<equiv> \<lparr>ti_assigned_ip = [10, 166, 80, 12], ti_lan_ip = [10, 166, 64, 7]\<rparr>"

lemma toy_command_stage:
  "\<exists>s. open_command_stream (app_vpn_lib toy_app) (ac_server toy_credentials) toy_token toy_time g =
     (Inr toy_ips, \<lparr>vt_now = 106, vt_connects = 1\<rparr>, hold_command_stream s g)"
proof -
  have f: "fst (open_command_stream (app_vpn_lib toy_app) (ac_server toy_credentials) toy_token toy_time g) = Inr toy_ips"
    "fst (snd (open_command_stream (app_vpn_lib toy_app) (ac_server toy_credentials) toy_token toy_time g)) =
       \<lparr>vt_now = 106, vt_connects = 1\<rparr>" by code_simp+
  then have "open_command_stream (app_vpn_lib toy_app) (ac_server toy_credentials) toy_token toy_time g =
     (Inr toy_ips, \<lparr>vt_now = 106, vt_connects = 1\<rparr>,
      snd (snd (open_command_stream (app_vpn_lib toy_app) (ac_server toy_credentials) toy_token toy_time g)))"
    by (metis prod.collapse)
  with open_command_stream_Inr [OF this] show ?thesis by auto
qed

definition toy_tunnel_params :: "bytes \<Rightarrow> tunnel_params" where
  "toy_tunnel_params tail = \<lparr>tp_authority = ''vpn.example:443'', tp_host = ''vpn.example'',
     tp_token = bytes_of_str toy_token, tp_assigned_ip = [10, 166, 80, 12],
     tp_ip_rev = [12, 80, 166, 10], tp_heartbeat_dst = [10, 166, 64, 7], tp_heartbeat_tail = tail\<rparr>"

lemma toy_rx_stage:
  "\<exists>s. open_stream (app_vpn_lib toy_app) (toy_tunnel_params tail) Rx \<lparr>vt_now = 106, vt_connects = 1\<rparr> =
     (Inr s, \<lparr>vt_now = 112, vt_connects = 2\<rparr>)"
proof -
  have "\<not> isl (fst (open_stream (app_vpn_lib toy_app) (toy_tunnel_params tail) Rx \<lparr>vt_now = 106, vt_connects = 1\<rparr>))"
    "snd (open_stream (app_vpn_lib toy_app) (toy_tunnel_params tail) Rx \<lparr>vt_now = 106, vt_connects = 1\<rparr>) =
       \<lparr>vt_now = 112, vt_connects = 2\<rparr>" by code_simp+
  then show ?thesis by (metis prod.collapse sum.collapse(2))
qed

lemma toy_tx_stage:
  "\<not> isl (fst (open_stream (app_vpn_lib toy_app) (toy_tunnel_params tail) Tx \<lparr>vt_now = 112, vt_connects = 2\<rparr>))"
  by code_simp

lemma toy_tunnel_stage:
  "\<exists>th t g logs. start_tunnel toy_app toy_credentials toy_token toy_time (as_globals toy_process) =
     (Inr (toy_ips, th), t, g, logs)"
proof -
  let ?tail = "new_heartbeat_tail 1 2 (bytes_of_str toy_token) [10, 166, 80, 12]"
  have p: "parse_server (ac_server toy_credentials) = Inr (''vpn.example:443'', ''vpn.example'')"
    "parse_protocol_token toy_token = Inr (bytes_of_str toy_token)" by code_simp+
  have n: "new_params (ap_nanos toy_app) (ap_pid toy_app) ''vpn.example:443'' ''vpn.example'' (bytes_of_str toy_token) toy_ips =
      toy_tunnel_params ?tail"
    by (simp add: new_params_def toy_tunnel_params_def toy_app_def)
  obtain s where c: "open_command_stream (app_vpn_lib toy_app) (ac_server toy_credentials) toy_token toy_time
      (as_globals toy_process) = (Inr toy_ips, \<lparr>vt_now = 106, vt_connects = 1\<rparr>, hold_command_stream s (as_globals toy_process))"
    using toy_command_stage by blast
  obtain rx where rx: "open_stream (app_vpn_lib toy_app) (toy_tunnel_params ?tail) Rx \<lparr>vt_now = 106, vt_connects = 1\<rparr> =
      (Inr rx, \<lparr>vt_now = 112, vt_connects = 2\<rparr>)"
    using toy_rx_stage by blast
  obtain tx t where tx: "open_stream (app_vpn_lib toy_app) (toy_tunnel_params ?tail) Tx \<lparr>vt_now = 112, vt_connects = 2\<rparr> = (Inr tx, t)"
    using toy_tx_stage [of ?tail] by (metis prod.collapse sum.collapse(2))
  show ?thesis
    unfolding start_tunnel_def Let_def c prod.case sum.case start_tunnel_runtime_def p n rx tx
    by (simp add: install_runtime_channels_def clear_tunnel_fatal_reason_def hold_command_stream_def toy_process_def)
qed

lemma toy_app_serves: "\<exists>running w' logs. app_run toy_app toy_credentials toy_process = (Inr running, w', logs)"
proof -
  obtain bound proxy where b: "serve_start (ap_bind toy_app) (ac_socks_bind toy_credentials)
      (ac_fallback_proxy toy_credentials) = Inr (bound, proxy)"
  proof -
    have "\<not> isl (serve_start (ap_bind toy_app) (ac_socks_bind toy_credentials) (ac_fallback_proxy toy_credentials))"
      by code_simp
    with that show thesis by (metis prod.collapse sum.collapse(2))
  qed
  obtain l1 where l1: "app_login toy_app toy_credentials = (Inr ''0123456789abcdef'', l1)"
    using toy_login_stage by blast
  obtain r s l2 where l2: "try_install_route_table toy_app toy_credentials ''0123456789abcdef'' (as_router toy_process) = (r, s, l2)"
    by (metis prod_cases3)
  from try_install_route_table_ok [OF l2] have r: "r = Inr ()" ..
  obtain l3 where l3: "acquire_protocol_token toy_app toy_credentials ''0123456789abcdef'' = (Inr toy_token, l3)"
    using toy_token_stage by blast
  obtain th t g l4 where l4: "start_tunnel toy_app toy_credentials toy_token toy_time (as_globals toy_process) =
     (Inr (toy_ips, th), t, g, l4)"
    using toy_tunnel_stage by blast
  from start_tunnel_Inr [OF l4] have g: "tg_receiver g = Some (Some (ap_rx toy_app))" by blast
  have st: "as_time (toy_process\<lparr>as_router := s\<rparr>) = toy_time"
    "as_globals (toy_process\<lparr>as_router := s\<rparr>) = as_globals toy_process"
    "as_netstack (toy_process\<lparr>as_router := s\<rparr>) = False" by (simp_all add: toy_process_def)
  show ?thesis
    unfolding app_run_def validate_preconditions_def validate_transport_preconditions_def
      validate_netstack_preconditions_def try_map_simps sum.case l1 l2 [unfolded r] prod.case Let_def l3 st l4 b
    using g by (simp add: start_runtime_def take_tunnel_packet_receiver_def)
qed

theorem run_serves_witness:
  "case app_run toy_app toy_credentials toy_process of (r, w', logs) \<Rightarrow>
     (case r of
        Inl e \<Rightarrow> False
      | Inr running \<Rightarrow> length (rn_twf_id running) = 16 \<and> as_netstack w' \<and>
          (\<forall>packet. fst (send_tunnel_packet packet (as_globals w')) = Inr ()))"
proof -
  from toy_app_serves obtain running w' logs where
    r: "app_run toy_app toy_credentials toy_process = (Inr running, w', logs)" by blast
  have "hex_encoding (le_hex (ap_login toy_app))" using toy_hex_encoding by (simp add: toy_app_def toy_login_def)
  from run_serves [OF this r] show ?thesis by (simp add: r)
qed

end
