(* ===== verification/SocksServer.thy ===== *)
theory SocksServer
  imports Socks
begin

text \<open>
  The threads of the SOCKS server of \<^verbatim>\<open>ec-core/src/socks.rs\<close>: the accept loop, the thread of a client
  with its relay, and a UDP association from its setup to its end, with the watcher of its control
  connection. What the far sides of the relays do is a parameter (\<open>relay_input\<close>). A thread runs alone
  here: threads share only the routing state and the network stack.
\<close>

section \<open>Accepting\<close>

text \<open>
  The accept loop on a list of results of \<^verbatim>\<open>accept\<close>: the clients that get a thread, with their proxy, and
  the warnings.
\<close>

fun accept_loop :: "fallback_proxy option \<Rightarrow> (io_error + stream) list
    \<Rightarrow> (stream \<times> fallback_proxy option) list \<times> log_entry list" where
  "accept_loop fallback_proxy [] = ([], [])"
| "accept_loop fallback_proxy (Inl err # results) =
     (case accept_loop fallback_proxy results of (clients, logs) \<Rightarrow>
        (clients, (Level_Warn, Scope_Req, ''accept failed: '' @ io_text err) # logs))"
| "accept_loop fallback_proxy (Inr client # results) =
     (case accept_loop fallback_proxy results of (clients, logs) \<Rightarrow> ((client, fallback_proxy) # clients, logs))"

section \<open>The control connection of a UDP association\<close>

text \<open>
  The watcher reads the control connection byte by byte until it ends or fails for good, and then sends
  the stop message and wakes the relay.
\<close>

function control_watcher :: "stream \<Rightarrow> stream" where
  "control_watcher control =
     (case io_read 1 control of
        (Inr bs, control) \<Rightarrow> if bs = [] then control else control_watcher control
      | (Inl err, control) \<Rightarrow>
          if io_kind err \<in> {WouldBlock, TimedOut} then control_watcher control else control)"
  by pat_completeness auto
termination
  by (relation "measure script_size") (auto dest: io_read_decreases [OF sym])

declare control_watcher.simps [simp del]

text \<open>
  The empty datagram that wakes the relay, with the address \<open>waker\<close> of the socket it is sent from; it
  arrives after the stop message. There is none if that socket cannot be bound.
\<close>

definition wake_udp_relay :: "io_error + sock_addr \<Rightarrow> udp_event list" where
  "wake_udp_relay bound = (case bound of Inl _ \<Rightarrow> [] | Inr waker \<Rightarrow> [From_Socket [] waker True])"

section \<open>A UDP association from its setup to its end\<close>

record relay_input =
  ri_gone :: "nat \<Rightarrow> bool"
  ri_tunnel :: "bytes list"
  ri_udp :: "udp_event list"

record udp_session =
  un_result :: "unit ec_result option"
  un_calls :: "assoc_call list"
  un_shutdown :: bool
  un_assoc :: udp_association

definition run_udp_session :: "'conn socks_env \<Rightarrow> fallback_proxy option \<Rightarrow> udp_event list \<Rightarrow> assoc_call list
    \<Rightarrow> router_state \<Rightarrow> udp_session" where
  "run_udp_session E fallback_proxy events calls s =
     (case run_udp_association E fallback_proxy events (new_udp_association s) of
        (None, st) \<Rightarrow> \<lparr>un_result = None, un_calls = calls, un_shutdown = False, un_assoc = st\<rparr>
      | (Some r, st) \<Rightarrow>
          \<lparr>un_result = Some r, un_calls = calls @ [Assoc_Close], un_shutdown = True, un_assoc = st\<rparr>)"

definition handle_udp_associate :: "'conn socks_env \<Rightarrow> 'assoc udp_env \<Rightarrow> fallback_proxy option \<Rightarrow> udp_event list
    \<Rightarrow> stream \<Rightarrow> router_state \<Rightarrow> udp_session \<times> stream" where
  "handle_udp_associate E U fallback_proxy events client s =
     (case udp_associate_setup E U client of
        (Inl e, calls, client) \<Rightarrow>
          (\<lparr>un_result = Some (Inl e), un_calls = calls, un_shutdown = False, un_assoc = new_udp_association s\<rparr>, client)
      | (Inr _, calls, client) \<Rightarrow> (run_udp_session E fallback_proxy events calls s, client))"

section \<open>The thread of a client\<close>

definition relay_tunnel :: "relay_input \<Rightarrow> stream \<Rightarrow> bytes list \<times> bool \<times> stream" where
  "relay_tunnel R client =
     (case tunnel_upload (ri_gone R) [] client of (sent, closed, client) \<Rightarrow>
        (sent, closed, tunnel_download (ri_tunnel R) client))"

text \<open>What a client's thread leaves behind; a result of \<open>None\<close> is a UDP association that still runs.\<close>

record client_end =
  ce_result :: "unit ec_result option"
  ce_client :: stream
  ce_tunnel_sent :: "bytes list"
  ce_upstream :: "stream option"
  ce_router :: router_state

definition client_thread :: "'conn socks_env \<Rightarrow> 'assoc udp_env \<Rightarrow> relay_input \<Rightarrow> fallback_proxy option \<Rightarrow> stream
    \<Rightarrow> router_state \<Rightarrow> client_end" where
  "client_thread E U R fallback_proxy client s =
     (case handle_client E U fallback_proxy client s of
        (Inl e, client, s) \<Rightarrow>
          \<lparr>ce_result = Some (Inl e), ce_client = client, ce_tunnel_sent = [], ce_upstream = None, ce_router = s\<rparr>
      | (Inr (Connect_Session (Tunnel_Conn conn)), client, s) \<Rightarrow>
          (case relay_tunnel R client of (sent, closed, client) \<Rightarrow>
             \<lparr>ce_result = Some (Inr ()), ce_client = client, ce_tunnel_sent = sent, ce_upstream = None, ce_router = s\<rparr>)
      | (Inr (Connect_Session (Direct_Conn upstream)), client, s) \<Rightarrow>
          (case relay_direct client upstream of (client, upstream) \<Rightarrow>
             \<lparr>ce_result = Some (Inr ()), ce_client = client, ce_tunnel_sent = [], ce_upstream = Some upstream,
              ce_router = s\<rparr>)
      | (Inr (Udp_Session relay_addr assoc), client, s) \<Rightarrow>
          (let u = run_udp_session E fallback_proxy (ri_udp R) [Assoc_Open] s in
           \<lparr>ce_result = un_result u, ce_client = client, ce_tunnel_sent = map snd (ua_to_tunnel (un_assoc u)),
            ce_upstream = None, ce_router = ua_router (un_assoc u)\<rparr>))"

text \<open>The line a failed client leaves in the log.\<close>

definition client_failure :: "client_end \<Rightarrow> log_entry list" where
  "client_failure c =
     (case ce_result c of
        Some (Inl err) \<Rightarrow> [(Level_Error, Scope_Upstream, concise_error err)]
      | _ \<Rightarrow> [])"

section \<open>Every accepted client is served\<close>

lemma accept_loop_clients:
  "fst (accept_loop fallback_proxy results) = map (\<lambda>client. (client, fallback_proxy)) (List.map_filter ok results)"
  by (induction fallback_proxy results rule: accept_loop.induct)
     (auto simp: List.map_filter_simps ok_def split: prod.splits)

section \<open>A session from its first byte to its last\<close>

lemma tunnel_upload_writes: "write_script (snd (snd (tunnel_upload gone sent client))) = write_script client \<and>
   outgoing (snd (snd (tunnel_upload gone sent client))) = outgoing client"
proof (induction gone sent client rule: tunnel_upload.induct)
  case (1 gone sent client)
  have io: "write_script s' = write_script client \<and> outgoing s' = outgoing client"
    if "io_read RELAY_BUFFER_SIZE client = (r, s')" for r s'
    using that by (auto simp: io_read_def split: list.splits read_item.splits)
  show ?case
    using 1 io by (auto simp: tunnel_upload.simps [of gone sent client] split: prod.splits sum.splits)
qed

lemma relay_tunnel_delivers:
  assumes "delivers client up" and "write_script client = []" and "\<And>n. \<not> ri_gone R n"
  shows "case relay_tunnel R client of (sent, closed, client') \<Rightarrow>
    concat sent = up \<and> closed \<and> outgoing client' = outgoing client @ concat (ri_tunnel R)"
proof -
  have g: "ri_gone R = (\<lambda>_. False)" using assms(3) by auto
  from tunnel_upload_delivers [OF assms(1), of "[]"] obtain chunks c' where
    u: "tunnel_upload (\<lambda>_. False) [] client = (chunks, True, c')" "concat chunks = up" by auto
  from tunnel_upload_writes [of "\<lambda>_. False" "[]" client] have
    "write_script c' = []" "outgoing c' = outgoing client" unfolding u using assms(2) by simp_all
  with u tunnel_download_ok [of c' "ri_tunnel R"] show ?thesis by (simp add: relay_tunnel_def g)
qed


section \<open>An association ends with its control connection\<close>

lemma run_udp_association_append:
  assumes "run_udp_association E fb xs st = (None, st')"
  shows "run_udp_association E fb (xs @ ys) st = run_udp_association E fb ys st'"
  using assms by (induction E fb xs st rule: run_udp_association.induct) (auto split: if_splits)

lemma udp_associate_calls:
  assumes "udp_associate_setup E U client = (r, calls, client')"
  shows "case r of Inl e \<Rightarrow> calls \<in> {[], [Assoc_Open, Assoc_Close]} | Inr x \<Rightarrow> calls = [Assoc_Open]"
  using assms
  by (auto simp: udp_associate_setup_def split: sum.splits prod.splits sock_addr.splits)


section \<open>Witness\<close>


end
