(* ===== verification/StackInvariant.thy ===== *)
theory StackInvariant
  imports Netstack
begin

text \<open>
  What the network stack relies on, as predicates on the parameter that stands for smoltcp, the
  invariant of its state, and the result that its thread keeps it and never gets stuck.
\<close>

section \<open>What the stack relies on\<close>

text \<open>
  Documented behaviour of the socket set: \<^verbatim>\<open>add\<close> stores the socket under a handle that was free,
  \<^verbatim>\<open>get_mut\<close> gives access to the socket of a handle and to no other, \<^verbatim>\<open>remove\<close> frees the handle; a
  poll neither adds nor removes a socket. \<open>socket_kinds\<close>: which handles hold a TCP (\<open>True\<close>) or UDP
  (\<open>False\<close>) socket.
\<close>

definition is_tcp :: "('tcp, 'udp) any_socket \<Rightarrow> bool" where
  "is_tcp s \<longleftrightarrow> (case s of Tcp_Socket _ \<Rightarrow> True | Udp_Socket _ \<Rightarrow> False)"

definition socket_kinds :: "('ifc, 'set, 'tcp, 'udp) smoltcp \<Rightarrow> 'set \<Rightarrow> nat \<Rightarrow> bool option" where
  "socket_kinds S sockets = (\<lambda>h. map_option is_tcp (set_get S sockets h))"

definition socket_set_laws :: "('ifc, 'set, 'tcp, 'udp) smoltcp \<Rightarrow> bool" where
  "socket_set_laws S \<longleftrightarrow>
     (\<forall>h. set_get S (set_empty S) h = None) \<and>
     (\<forall>x s. set_get S s (fst (set_add S x s)) = None \<and>
            set_get S (snd (set_add S x s)) = (set_get S s)(fst (set_add S x s) \<mapsto> x)) \<and>
     (\<forall>h x s. set_get S s h \<noteq> None \<longrightarrow> set_get S (set_put S h x s) = (set_get S s)(h \<mapsto> x)) \<and>
     (\<forall>h s. set_get S s h \<noteq> None \<longrightarrow> set_get S (set_remove S h s) = (set_get S s)(h := None)) \<and>
     (\<forall>now d s i d' fs s' i'. if_poll S now d s i = (d', fs, s', i') \<longrightarrow> socket_kinds S s' = socket_kinds S s)"

lemma socket_set_lawsD:
  assumes "socket_set_laws S"
  shows "set_get S (set_empty S) h = None"
    and "set_add S x s = (h', s') \<Longrightarrow> set_get S s h' = None \<and> set_get S s' = (set_get S s)(h' \<mapsto> x)"
    and "set_get S s h = Some y \<Longrightarrow> set_get S (set_put S h x s) = (set_get S s)(h \<mapsto> x)"
    and "set_get S s h = Some y \<Longrightarrow> set_get S (set_remove S h s) = (set_get S s)(h := None)"
    and "if_poll S now d s i = (d', fs, s', i') \<Longrightarrow> socket_kinds S s' = socket_kinds S s"
proof -
  show "set_get S (set_empty S) h = None"
    using assms unfolding socket_set_laws_def by blast
  show "set_get S s h' = None \<and> set_get S s' = (set_get S s)(h' \<mapsto> x)" if "set_add S x s = (h', s')"
    using assms that unfolding socket_set_laws_def by (metis fst_conv snd_conv)
  show "set_get S (set_put S h x s) = (set_get S s)(h \<mapsto> x)" if "set_get S s h = Some y"
    using assms that unfolding socket_set_laws_def by (metis option.distinct(1))
  show "set_get S (set_remove S h s) = (set_get S s)(h := None)" if "set_get S s h = Some y"
    using assms that unfolding socket_set_laws_def by (metis option.distinct(1))
  show "socket_kinds S s' = socket_kinds S s" if "if_poll S now d s i = (d', fs, s', i')"
    using assms that unfolding socket_set_laws_def by blast
qed

text \<open>A receive from a socket takes something out of its buffer, so that the buffer runs empty.\<close>

definition recv_laws :: "('ifc, 'set, 'tcp, 'udp) smoltcp \<Rightarrow> ('tcp \<Rightarrow> nat) \<Rightarrow> ('udp \<Rightarrow> nat) \<Rightarrow> bool" where
  "recv_laws S queued packets \<longleftrightarrow>
     (\<forall>n t b t'. ts_recv S n t = (Inr b, t') \<longrightarrow> b \<noteq> [] \<longrightarrow> queued t' < queued t) \<and>
     (\<forall>n u d u'. us_recv S n u = (Inr d, u') \<longrightarrow> packets u' < packets u)"

lemma recv_chunks_ends:
  assumes "recv_laws S queued packets"
  shows "\<exists>r. recv_chunks S gone uplink sock = Some r"
proof (induction "queued sock" arbitrary: uplink sock rule: less_induct)
  case less
  then show ?case
    using assms by (subst recv_chunks.simps) (auto simp: recv_laws_def split: prod.splits sum.splits)
qed

lemma recv_datagrams_ends:
  assumes "recv_laws S queued packets"
  shows "\<exists>r. recv_datagrams S gone uplink sock = Some r"
proof (induction "packets sock" arbitrary: uplink sock rule: less_induct)
  case less
  then show ?case
    using assms by (subst recv_datagrams.simps) (auto simp: recv_laws_def split: prod.splits sum.splits)
qed

lemma drive_connection_ends:
  assumes "recv_laws S queued packets"
  shows "\<exists>sock' conn'. drive_connection S gone (sock, conn) = Some (sock', conn') \<and> cn_handle conn' = cn_handle conn"
proof -
  obtain sock1 conn1 where p: "pump_pending_sends S (sock, conn) = (sock1, conn1)" by fastforce
  then have "cn_handle conn1 = cn_handle conn" by (auto simp: pump_pending_sends_def split: prod.splits)
  with p recv_chunks_ends [OF assms, of gone "cn_uplink conn1" sock1] show ?thesis
    by (auto simp: drive_connection_def pump_uplink_reads_def)
qed

lemma drive_udp_association_ends:
  assumes "recv_laws S queued packets"
  shows "\<exists>sock' assoc'. drive_udp_association S gone (sock, assoc) = Some (sock', assoc') \<and> as_handle assoc' = as_handle assoc"
proof -
  obtain sock1 assoc1 where p: "pump_pending_udp_sends S (sock, assoc) = (sock1, assoc1)" by fastforce
  then have "as_handle assoc1 = as_handle assoc" by (auto simp: pump_pending_udp_sends_def split: prod.splits)
  with p recv_datagrams_ends [OF assms, of gone "as_uplink assoc1" sock1] show ?thesis
    by (auto simp: drive_udp_association_def pump_udp_reads_def)
qed

section \<open>A loop over the clients of the socket set\<close>

text \<open>
  What \<^verbatim>\<open>drive_connections\<close> and \<^verbatim>\<open>drive_udp_associations\<close> share: every client of the table has a
  handle; the loop takes its socket out of the set, runs \<open>step\<close> on both and writes the socket back;
  the clients whose socket is no longer open are removed afterwards, with their sockets.
\<close>

locale socket_driver =
  fixes S :: "('ifc, 'set, 'tcp, 'udp) smoltcp"
    and handle :: "'c \<Rightarrow> nat"
    and wrap :: "'s \<Rightarrow> ('tcp, 'udp) any_socket"
    and unwrap :: "('tcp, 'udp) any_socket \<Rightarrow> 's option"
    and step :: "u64 \<Rightarrow> 's \<times> 'c \<Rightarrow> ('s \<times> 'c) option"
    and opened :: "'s \<Rightarrow> bool"
    and drive_loop :: "(u64 \<times> 'c) list \<Rightarrow> 'set \<Rightarrow> ((u64 \<times> 'c) list \<times> u64 list \<times> 'set) option"
    and remove_client :: "u64 \<Rightarrow> (u64 \<times> 'c) list \<times> 'set \<Rightarrow> (u64 \<times> 'c) list \<times> 'set"
    and drive :: "(u64 \<times> 'c) list \<Rightarrow> 'set \<Rightarrow> ((u64 \<times> 'c) list \<times> 'set) option"
  assumes loop_Nil: "drive_loop [] sockets = Some ([], [], sockets)"
    and loop_Cons: "drive_loop ((k, c) # rest) sockets = do {
        sock \<leftarrow> set_get S sockets (handle c);
        sock \<leftarrow> unwrap sock;
        (sock, c') \<leftarrow> step k (sock, c);
        (rest, remove_ids, sockets) \<leftarrow> drive_loop rest (set_put S (handle c) (wrap sock) sockets);
        Some ((k, c') # rest, if opened sock then remove_ids else k # remove_ids, sockets)
      }"
    and remove_client: "remove_client k (table, sockets) =
        (case map_of table k of
           Some c \<Rightarrow> (AList.delete k table, set_remove S (handle c) sockets)
         | None \<Rightarrow> (table, sockets))"
    and drive: "drive table sockets = do {
        (table, remove_ids, sockets) \<leftarrow> drive_loop table sockets;
        Some (fold remove_client remove_ids (table, sockets))
      }"
    and wrapped: "unwrap x = Some s \<longleftrightarrow> x = wrap s"
begin

definition handles :: "(u64 \<times> 'c) list \<Rightarrow> nat list" where
  "handles table = map (\<lambda>(k, c). handle c) table"

definition served :: "'set \<Rightarrow> u64 \<times> 'c \<Rightarrow> bool" where
  "served sockets x \<longleftrightarrow> (case x of (k, c) \<Rightarrow>
     (\<exists>s. set_get S sockets (handle c) = Some (wrap s) \<and>
       (\<exists>s' c'. step k (s, c) = Some (s', c') \<and> handle c' = handle c)))"

definition outcome :: "'set \<Rightarrow> 'set \<Rightarrow> u64 list \<Rightarrow> u64 \<times> 'c \<Rightarrow> u64 \<times> 'c \<Rightarrow> bool" where
  "outcome sockets sockets' ids x y \<longleftrightarrow> (case (x, y) of ((k, c), (k', c')) \<Rightarrow>
     k' = k \<and> handle c' = handle c \<and>
     (\<exists>s s'. set_get S sockets (handle c) = Some (wrap s) \<and> step k (s, c) = Some (s', c') \<and>
        set_get S sockets' (handle c) = Some (wrap s') \<and> (k \<in> set ids \<longleftrightarrow> \<not> opened s')))"

lemma drive_loop_spec:
  assumes "socket_set_laws S"
  shows "distinct (map fst table) \<Longrightarrow> distinct (handles table) \<Longrightarrow> list_all (served sockets) table \<Longrightarrow>
    \<exists>table' ids sockets'. drive_loop table sockets = Some (table', ids, sockets') \<and>
      list_all2 (outcome sockets sockets' ids) table table' \<and> set ids \<subseteq> set (map fst table) \<and> distinct ids \<and>
      (\<forall>h. h \<notin> set (handles table) \<longrightarrow> set_get S sockets' h = set_get S sockets h)"
proof (induction table arbitrary: sockets)
  case Nil
  show ?case by (simp add: loop_Nil)
next
  case (Cons x table)
  obtain k c where x: "x = (k, c)" by fastforce
  from Cons.prems(3) x obtain s s' c' where s: "set_get S sockets (handle c) = Some (wrap s)"
    "step k (s, c) = Some (s', c')" "handle c' = handle c" by (auto simp: served_def)
  let ?mid = "set_put S (handle c) (wrap s') sockets"
  note put = socket_set_lawsD(3) [OF assms s(1), of "wrap s'"]
  from Cons.prems(2) x have fresh: "handle c \<notin> set (handles table)" by (simp add: handles_def)
  from Cons.prems(3) have "list_all (served sockets) table" by simp
  then have "list_all (served ?mid) table"
  proof (rule list.pred_mono_strong)
    fix a assume "a \<in> set table" "served sockets a"
    moreover from this(1) fresh have "handle (snd a) \<noteq> handle c"
      by (auto simp: handles_def case_prod_unfold intro: rev_image_eqI)
    ultimately show "served ?mid a" by (auto simp: served_def put)
  qed
  with Cons.IH [of ?mid] Cons.prems(1,2) obtain table' ids sockets' where IH:
    "drive_loop table ?mid = Some (table', ids, sockets')" "list_all2 (outcome ?mid sockets' ids) table table'"
    "set ids \<subseteq> set (map fst table)" "distinct ids"
    "\<forall>h. h \<notin> set (handles table) \<longrightarrow> set_get S sockets' h = set_get S ?mid h"
    by (auto simp: handles_def)
  let ?ids = "if opened s' then ids else k # ids"
  from Cons.prems(1) x IH(3) have k: "k \<notin> set ids" "k \<notin> set (map fst table)" by auto
  have "list_all2 (outcome sockets sockets' ?ids) table table'"
    using IH(2)
  proof (rule list.rel_mono_strong)
    fix a b assume "a \<in> set table" "outcome ?mid sockets' ids a b"
    moreover from this(1) k(2) fresh have "fst a \<noteq> k" "handle (snd a) \<noteq> handle c"
      by (auto simp: handles_def case_prod_unfold intro: rev_image_eqI)
    ultimately show "outcome sockets sockets' ?ids a b" using put by (auto simp: outcome_def)
  qed
  moreover from s put IH(5) fresh k(1) have "outcome sockets sockets' ?ids (k, c) (k, c')"
    by (auto simp: outcome_def)
  moreover have "drive_loop (x # table) sockets = Some ((k, c') # table', ?ids, sockets')"
    using x s IH(1) wrapped [of "wrap s" s] by (simp add: loop_Cons)
  moreover have "\<forall>h. h \<notin> set (handles (x # table)) \<longrightarrow> set_get S sockets' h = set_get S sockets h"
    using IH(5) put x by (simp add: handles_def)
  ultimately show ?case using x IH(3,4) k(1) by auto
qed

lemma remove_clients_spec:
  assumes "socket_set_laws S"
  shows "distinct (map fst table) \<Longrightarrow> distinct (handles table) \<Longrightarrow> distinct ids \<Longrightarrow> set ids \<subseteq> set (map fst table) \<Longrightarrow>
    list_all (\<lambda>(k, c). set_get S sockets (handle c) \<noteq> None) table \<Longrightarrow>
    \<exists>sockets'. fold remove_client ids (table, sockets) = (filter (\<lambda>(k, c). k \<notin> set ids) table, sockets') \<and>
      (\<forall>h. set_get S sockets' h =
        (if h \<in> set (handles (filter (\<lambda>(k, c). k \<in> set ids) table)) then None else set_get S sockets h))"
proof (induction ids arbitrary: table sockets)
  case Nil
  then show ?case by (simp add: handles_def case_prod_unfold)
next
  case (Cons i ids)
  from Cons.prems(4) obtain c where c: "(i, c) \<in> set table" by auto
  with Cons.prems(1) have m: "map_of table i = Some c" by simp
  from c Cons.prems(5) obtain y where y: "set_get S sockets (handle c) = Some y" by (auto simp: list_all_iff)
  let ?t = "AList.delete i table" and ?s = "set_remove S (handle c) sockets"
  have t: "?t = filter (\<lambda>(k, c). k \<noteq> i) table" by (auto simp: AList.delete_eq intro!: filter_cong)
  note rm = socket_set_lawsD(4) [OF assms y]
  have other: "handle c' \<noteq> handle c" if "(k, c') \<in> set table" "k \<noteq> i" for k c'
    using that c Cons.prems(2) by (auto simp: handles_def distinct_map inj_on_def)
  have d1: "distinct (map fst ?t)" using Cons.prems(1) unfolding t by (rule distinct_map_filter)
  have d2: "distinct (handles ?t)" using Cons.prems(2) unfolding t handles_def by (rule distinct_map_filter)
  have d3: "set ids \<subseteq> set (map fst ?t)" using Cons.prems(3,4) unfolding t by force
  have l: "list_all (\<lambda>(k, c). set_get S ?s (handle c) \<noteq> None) ?t"
    using Cons.prems(5) other unfolding t by (auto simp: list_all_iff rm)
  from Cons.IH [OF d1 d2 _ d3 l] Cons.prems(3) obtain sockets' where IH:
    "fold remove_client ids (?t, ?s) = (filter (\<lambda>(k, c). k \<notin> set ids) ?t, sockets')"
    "\<forall>h. set_get S sockets' h =
        (if h \<in> set (handles (filter (\<lambda>(k, c). k \<in> set ids) ?t)) then None else set_get S ?s h)" by auto
  have "filter (\<lambda>(k, c). k \<notin> set ids) ?t = filter (\<lambda>(k, c). k \<notin> set (i # ids)) table"
    unfolding t by (auto intro!: filter_cong)
  moreover have "set_get S sockets' h =
      (if h \<in> set (handles (filter (\<lambda>(k, c). k \<in> set (i # ids)) table)) then None else set_get S sockets h)" for h
  proof (cases "h = handle c")
    case True
    with c show ?thesis using IH(2) rm by (force simp: handles_def)
  next
    case False
    then have "h \<in> set (handles (filter (\<lambda>(k, c). k \<in> set (i # ids)) table)) \<longleftrightarrow>
        h \<in> set (handles (filter (\<lambda>(k, c). k \<in> set ids) ?t))"
      using eq_key_imp_eq_value [OF Cons.prems(1) c] unfolding t handles_def by (auto simp: image_iff)
    with False IH(2) rm show ?thesis by simp
  qed
  ultimately show ?case using IH(1) m by (simp add: remove_client)
qed

definition tags :: "(u64 \<times> 'c) list \<Rightarrow> (u64 \<times> nat) list" where
  "tags table = map (\<lambda>(k, c). (k, handle c)) table"

lemma tags_simps: "map fst (tags table) = map fst table" "map snd (tags table) = handles table"
  by (auto simp: tags_def handles_def)

lemma outcome_tags: "list_all2 (outcome sockets sockets' ids) table table' \<Longrightarrow> tags table' = tags table"
  by (induction rule: list_all2_induct) (auto simp: outcome_def tags_def)

lemma tags_filter: "tags (filter (\<lambda>(k, c). P k) table) = filter (\<lambda>(k, h). P k) (tags table)"
  by (induction table) (auto simp: tags_def)

text \<open>Every client is driven on its own socket; it is kept, with its socket, while the socket is open.\<close>

lemma drive_spec:
  assumes "socket_set_laws S" and "distinct (map fst table)" and "distinct (handles table)"
    and "list_all (served sockets) table"
  shows "\<exists>table' sockets'. drive table sockets = Some (table', sockets') \<and>
      (\<exists>ids. tags table' = filter (\<lambda>(k, h). k \<notin> set ids) (tags table)) \<and>
      (\<forall>h. h \<notin> set (handles table) \<longrightarrow> set_get S sockets' h = set_get S sockets h) \<and>
      (\<forall>(k, c) \<in> set table. \<exists>s s' c'. set_get S sockets (handle c) = Some (wrap s) \<and>
         step k (s, c) = Some (s', c') \<and> handle c' = handle c \<and>
         (if opened s' then (k, c') \<in> set table' \<and> set_get S sockets' (handle c) = Some (wrap s')
          else k \<notin> fst ` set table' \<and> set_get S sockets' (handle c) = None))"
proof -
  from drive_loop_spec [OF assms] obtain t1 ids s1 where loop: "drive_loop table sockets = Some (t1, ids, s1)"
    and out: "list_all2 (outcome sockets s1 ids) table t1" and ids: "set ids \<subseteq> set (map fst table)" "distinct ids"
    and frame: "\<forall>h. h \<notin> set (handles table) \<longrightarrow> set_get S s1 h = set_get S sockets h" by blast
  note tags = outcome_tags [OF out]
  have keys: "map fst t1 = map fst table" "handles t1 = handles table"
    using tags by (metis tags_simps(1), metis tags_simps(2))
  have "list_all (\<lambda>(k, c). set_get S s1 (handle c) \<noteq> None) t1"
    using out by (induction rule: list_all2_induct) (auto simp: outcome_def)
  from remove_clients_spec [OF assms(1) _ _ ids(2) _ this] keys assms(2,3) ids(1) obtain s2 where
    s2: "fold remove_client ids (t1, s1) = (filter (\<lambda>(k, c). k \<notin> set ids) t1, s2)"
    "\<forall>h. set_get S s2 h =
        (if h \<in> set (handles (filter (\<lambda>(k, c). k \<in> set ids) t1)) then None else set_get S s1 h)" by auto
  let ?t2 = "filter (\<lambda>(k, c). k \<notin> set ids) t1"
  have gone: "handle c \<in> set (handles (filter (\<lambda>(k, c). k \<in> set ids) t1)) \<longleftrightarrow> k \<in> set ids" if "(k, c) \<in> set t1" for k c
    using that assms(3) [folded keys(2)] by (fastforce simp: handles_def distinct_map inj_on_def)
  have "\<exists>s s' c'. set_get S sockets (handle c) = Some (wrap s) \<and> step k (s, c) = Some (s', c') \<and> handle c' = handle c \<and>
      (if opened s' then (k, c') \<in> set ?t2 \<and> set_get S s2 (handle c) = Some (wrap s')
       else k \<notin> fst ` set ?t2 \<and> set_get S s2 (handle c) = None)" if kc: "(k, c) \<in> set table" for k c
  proof -
    from out kc obtain y where y: "y \<in> set t1" "outcome sockets s1 ids (k, c) y"
      unfolding list_all2_conv_all_nth in_set_conv_nth by metis
    then obtain s s' c' where o: "set_get S sockets (handle c) = Some (wrap s)" "step k (s, c) = Some (s', c')"
      "handle c' = handle c" "set_get S s1 (handle c) = Some (wrap s')" "k \<in> set ids \<longleftrightarrow> \<not> opened s'" "y = (k, c')"
      by (auto simp: outcome_def)
    have "if opened s' then (k, c') \<in> set ?t2 \<and> set_get S s2 (handle c) = Some (wrap s')
       else k \<notin> fst ` set ?t2 \<and> set_get S s2 (handle c) = None"
      using gone [of k c'] y(1) o s2(2) by auto
    with o show ?thesis by blast
  qed
  moreover have "drive table sockets = Some (?t2, s2)" using loop s2(1) by (simp add: drive)
  moreover have "tags ?t2 = filter (\<lambda>(k, h). k \<notin> set ids) (tags table)"
    using tags tags_filter [of "\<lambda>k. k \<notin> set ids" t1] by simp
  moreover have "set_get S s2 h = set_get S sockets h" if "h \<notin> set (handles table)" for h
  proof -
    have "set (handles (filter (\<lambda>(k, c). k \<in> set ids) t1)) \<subseteq> set (handles t1)" by (auto simp: handles_def)
    with that keys(2) frame s2(2) show ?thesis by auto
  qed
  ultimately show ?thesis by blast
qed

end

interpretation conns: socket_driver S cn_handle Tcp_Socket tcp_of "\<lambda>k. drive_connection S (gone k)" "ts_is_open S"
    "drive_conn_loop S gone" "remove_connection S" "drive_connections S gone" for S gone
proof
  show "tcp_of x = Some s \<longleftrightarrow> x = Tcp_Socket s" for x :: "('tcp, 'udp) any_socket" and s
    by (cases x) auto
qed (simp_all add: remove_connection_def drive_connections_def)

interpretation assocs: socket_driver S as_handle Udp_Socket udp_of "\<lambda>k. drive_udp_association S (gone k)" "us_is_open S"
    "drive_assoc_loop S gone" "remove_association S" "drive_udp_associations S gone" for S gone
proof
  show "udp_of x = Some s \<longleftrightarrow> x = Udp_Socket s" for x :: "('tcp, 'udp) any_socket" and s
    by (cases x) auto
qed (simp_all add: remove_association_def drive_udp_associations_def)

section \<open>The invariant of the stack\<close>

text \<open>
  Who owns which socket: an id, its handle, and whether the socket is a TCP socket. Ids and handles
  are not shared, every socket of the set has exactly one owner, of its kind, and every id in use was
  given out already.
\<close>

definition owners :: "('ifc, 'set) netstack \<Rightarrow> (u64 \<times> nat \<times> bool) list" where
  "owners st =
     map (\<lambda>(k, c). (k, cn_handle c, True)) (ns_connections st) @
     map (\<lambda>(k, a). (k, as_handle a, False)) (ns_associations st)"

definition owners_distinct :: "('ifc, 'set) netstack \<Rightarrow> bool" where
  "owners_distinct st \<longleftrightarrow> distinct (map fst (owners st)) \<and> distinct (map (fst \<circ> snd) (owners st))"

definition owners_exact :: "('ifc, 'set, 'tcp, 'udp) smoltcp \<Rightarrow> ('ifc, 'set) netstack \<Rightarrow> bool" where
  "owners_exact S st \<longleftrightarrow> (\<forall>h b. socket_kinds S (ns_sockets st) h = Some b \<longleftrightarrow> (\<exists>k. (k, h, b) \<in> set (owners st)))"

definition ids_given_out :: "('ifc, 'set) netstack \<Rightarrow> bool" where
  "ids_given_out st \<longleftrightarrow> list_all (\<lambda>(k, _). unat k < unat (ns_next_id st)) (owners st)"

definition stack_inv :: "('ifc, 'set, 'tcp, 'udp) smoltcp \<Rightarrow> ('ifc, 'set) netstack \<Rightarrow> bool" where
  "stack_inv S st \<longleftrightarrow> owners_distinct st \<and> owners_exact S st \<and> ids_given_out st"

lemmas stack_inv_defs = stack_inv_def owners_distinct_def owners_exact_def ids_given_out_def

lemma stack_inv_cong:
  "owners st' = owners st \<Longrightarrow> socket_kinds S (ns_sockets st') = socket_kinds S (ns_sockets st) \<Longrightarrow>
   ns_next_id st' = ns_next_id st \<Longrightarrow> stack_inv S st' = stack_inv S st"
  by (simp add: stack_inv_defs)

lemma stack_inv_start:
  assumes "socket_set_laws S"
  shows "stack_inv S (netstack_start S nanos ip)"
  using socket_set_lawsD(1) [OF assms]
  by (simp add: stack_inv_defs netstack_start_def owners_def socket_kinds_def)

lemma at_key_map [simp]: "(\<And>v. g (f v) = g v) \<Longrightarrow> map (\<lambda>(i, v). (i, g v)) (at_key k f t) = map (\<lambda>(i, v). (i, g v)) t"
  by (auto simp: at_key_def)

lemma at_key_conn_owners [simp]:
  "(\<And>c. cn_handle (f c) = cn_handle c) \<Longrightarrow> map (\<lambda>(k, c). (k, cn_handle c, True)) (at_key i f t) = map (\<lambda>(k, c). (k, cn_handle c, True)) t"
  "(\<And>a. as_handle (g a) = as_handle a) \<Longrightarrow> map (\<lambda>(k, a). (k, as_handle a, False)) (at_key i g u) = map (\<lambda>(k, a). (k, as_handle a, False)) u"
  by (auto simp: at_key_def)

lemma update_fresh: "k \<notin> fst ` set t \<Longrightarrow> AList.update k v t = t @ [(k, v)]"
  by (induction t) auto

lemma owner_ids: "fst ` set (owners st) = fst ` set (ns_connections st) \<union> fst ` set (ns_associations st)"
  by (force simp: owners_def)

lemma owner_id_below: "stack_inv S st \<Longrightarrow> k \<in> fst ` set (owners st) \<Longrightarrow> unat k < unat (ns_next_id st)"
  by (auto simp: stack_inv_def ids_given_out_def list_all_iff)

lemma next_fresh:
  assumes "stack_inv S st"
  shows "ns_next_id st \<notin> fst ` set (ns_connections st)" and "ns_next_id st \<notin> fst ` set (ns_associations st)"
  using owner_id_below [OF assms, of "ns_next_id st"] unfolding owner_ids by auto

lemma socket_kinds_add:
  assumes "socket_set_laws S" and "set_add S x s = (h, s')"
  shows "socket_kinds S s' = (socket_kinds S s)(h \<mapsto> is_tcp x)" and "socket_kinds S s h = None"
  using socket_set_lawsD(2) [OF assms] by (auto simp: socket_kinds_def)

lemma fresh_handle:
  "stack_inv S st \<Longrightarrow> socket_kinds S (ns_sockets st) h = None \<Longrightarrow> h \<notin> (fst \<circ> snd) ` set (owners st)"
  by (force simp: stack_inv_defs)

lemma stack_inv_open:
  assumes inv: "stack_inv S st" and own: "set (owners st') = insert (ns_next_id st, h, b) (set (owners st))"
    and len: "length (owners st') = Suc (length (owners st))"
    and kinds: "socket_kinds S (ns_sockets st') = (socket_kinds S (ns_sockets st))(h \<mapsto> b)"
    and new: "socket_kinds S (ns_sockets st) h = None" and nxt: "ns_next_id st' = ns_next_id st + 1"
    and room: "unat (ns_next_id st) < 2 ^ 64 - 1"
  shows "stack_inv S st'"
proof -
  have u: "unat (ns_next_id st') = Suc (unat (ns_next_id st))"
    using room unfolding nxt by (subst unat_plus_simple [THEN iffD1]) (auto simp: word_le_nat_alt unat_word_ariths)
  have h: "h \<notin> (fst \<circ> snd) ` set (owners st)" using fresh_handle [OF inv new] .
  have k: "ns_next_id st \<notin> fst ` set (owners st)" using inv by (auto simp: stack_inv_defs list_all_iff)
  have card: "card (set (owners st)) = length (owners st)"
    using inv by (auto simp: stack_inv_defs distinct_map distinct_card)
  have "(ns_next_id st, h, b) \<notin> set (owners st)" using k by force
  then have "card (set (owners st')) = length (owners st')" using own len card by simp
  then have d: "distinct (owners st')" by (rule card_distinct)
  have "inj_on fst (set (owners st'))" "inj_on (fst \<circ> snd) (set (owners st'))"
    using inv h k unfolding own by (auto simp: stack_inv_defs distinct_map inj_on_insert)
  with d have "owners_distinct st'" by (simp add: owners_distinct_def distinct_map)
  moreover have "owners_exact S st'"
    using inv h unfolding owners_exact_def stack_inv_def own kinds by (auto simp: image_iff)
  moreover have "ids_given_out st'"
    using inv unfolding stack_inv_def ids_given_out_def list_all_iff own u by auto
  ultimately show ?thesis by (simp add: stack_inv_def)
qed

lemma open_connection_inv:
  assumes "socket_set_laws S" and "stack_inv S st" and "unat (ns_next_id st) < 2 ^ 64 - 1"
  shows "\<exists>r st'. open_connection S target st = Some (r, st') \<and> stack_inv S st' \<and>
    unat (ns_next_id st) \<le> unat (ns_next_id st') \<and> unat (ns_next_id st') \<le> Suc (unat (ns_next_id st)) \<and>
    (\<forall>k. k \<noteq> ns_next_id st \<longrightarrow> map_of (ns_connections st') k = map_of (ns_connections st) k) \<and>
    (\<forall>h. set_get S (ns_sockets st) h \<noteq> None \<longrightarrow> set_get S (ns_sockets st') h = set_get S (ns_sockets st) h)"
proof -
  let ?new = "Tcp_Socket (ts_new S SOCKET_BUFFER_CAPACITY SOCKET_BUFFER_CAPACITY)"
  obtain h s1 where add: "set_add S ?new (ns_sockets st) = (h, s1)" by fastforce
  note a = socket_set_lawsD(2) [OF assms(1) add]
  obtain r i' t' where con: "ts_connect S target (ns_next_port st) (ns_iface st)
      (ts_new S SOCKET_BUFFER_CAPACITY SOCKET_BUFFER_CAPACITY) = (r, i', t')" by (cases "ts_connect S target (ns_next_port st) (ns_iface st)
      (ts_new S SOCKET_BUFFER_CAPACITY SOCKET_BUFFER_CAPACITY)") auto
  have put: "set_get S (set_put S h (Tcp_Socket t') s1) = (set_get S (ns_sockets st))(h \<mapsto> Tcp_Socket t')"
    using socket_set_lawsD(3) [OF assms(1), of s1 h ?new] a by simp
  show ?thesis
  proof (cases r)
    case (Inl e)
    let ?s2 = "set_remove S h (set_put S h (Tcp_Socket t') s1)"
    have "set_get S ?s2 = set_get S (ns_sockets st)"
      using socket_set_lawsD(4) [OF assms(1), of "set_put S h (Tcp_Socket t') s1" h "Tcp_Socket t'"] put a by auto
    moreover from this have "stack_inv S (st\<lparr>ns_iface := i', ns_next_port := snd (alloc_local_port (ns_next_port st)), ns_sockets := ?s2\<rparr>)"
      using assms(2) by (subst stack_inv_cong [where st = st]) (auto simp: owners_def socket_kinds_def)
    ultimately show ?thesis using add a con Inl by (simp add: open_connection_def alloc_local_port_def)
  next
    case (Inr u)
    let ?c = "\<lparr>cn_handle = h, cn_uplink = [], cn_pending = [], cn_close_requested = False\<rparr>"
    let ?st = "st\<lparr>ns_iface := i', ns_sockets := set_put S h (Tcp_Socket t') s1,
        ns_next_port := snd (alloc_local_port (ns_next_port st)), ns_next_id := ns_next_id st + 1,
        ns_connections := ns_connections st @ [(ns_next_id st, ?c)]\<rparr>"
    have n: "unat (ns_next_id st + 1) = Suc (unat (ns_next_id st))"
      using assms(3) by (subst unat_plus_simple [THEN iffD1]) (auto simp: word_le_nat_alt unat_word_ariths)
    have "stack_inv S ?st"
      by (rule stack_inv_open [OF assms(2), where h = h and b = True])
         (use assms(3) put a in \<open>auto simp: owners_def socket_kinds_def is_tcp_def\<close>)
    then show ?thesis using add a con Inr n update_fresh [OF next_fresh(1) [OF assms(2)], of ?c]
      put by (simp add: open_connection_def alloc_local_port_def map_add_def split: option.splits)
  qed
qed

lemma open_udp_inv:
  assumes "socket_set_laws S" and "stack_inv S st" and "unat (ns_next_id st) < 2 ^ 64 - 1"
    and "open_udp_association_inner S st = (r, st')"
  shows "stack_inv S st'" and "unat (ns_next_id st) \<le> unat (ns_next_id st')"
    and "unat (ns_next_id st') \<le> Suc (unat (ns_next_id st))" and "ns_connections st' = ns_connections st"
    and "set_get S (ns_sockets st) h \<noteq> None \<Longrightarrow> set_get S (ns_sockets st') h = set_get S (ns_sockets st) h"
proof -
  let ?udp = "us_new S (UDP_PACKET_CAPACITY, UDP_BUFFER_CAPACITY) (UDP_PACKET_CAPACITY, UDP_BUFFER_CAPACITY)"
  obtain q u where bind: "us_bind S (ns_next_port st) ?udp = (q, u)" by fastforce
  obtain h' s1 where add: "set_add S (Udp_Socket u) (ns_sockets st) = (h', s1)" by fastforce
  note a = socket_set_lawsD(2) [OF assms(1) add]
  have n: "unat (ns_next_id st + 1) = Suc (unat (ns_next_id st))"
    using assms(3) by (subst unat_plus_simple [THEN iffD1]) (auto simp: word_le_nat_alt unat_word_ariths)
  have "stack_inv S st' \<and> unat (ns_next_id st) \<le> unat (ns_next_id st') \<and>
    unat (ns_next_id st') \<le> Suc (unat (ns_next_id st)) \<and> ns_connections st' = ns_connections st \<and>
    (set_get S (ns_sockets st) h \<noteq> None \<longrightarrow> set_get S (ns_sockets st') h = set_get S (ns_sockets st) h)"
  proof (cases q)
    case (Inl e)
    with assms(4) bind have "st' = st\<lparr>ns_next_port := snd (alloc_local_port (ns_next_port st))\<rparr>"
      by (simp add: open_udp_association_inner_def alloc_local_port_def)
    moreover from this have "stack_inv S st' = stack_inv S st" by (intro stack_inv_cong) (simp_all add: owners_def)
    ultimately show ?thesis using assms(2) by simp
  next
    case (Inr x)
    let ?c = "\<lparr>as_handle = h', as_uplink = [], as_pending = [], as_close_requested = False\<rparr>"
    have st': "st' = st\<lparr>ns_sockets := s1, ns_next_port := snd (alloc_local_port (ns_next_port st)),
        ns_next_id := ns_next_id st + 1, ns_associations := ns_associations st @ [(ns_next_id st, ?c)]\<rparr>"
      using assms(4) bind add Inr update_fresh [OF next_fresh(2) [OF assms(2)], of ?c]
      by (simp add: open_udp_association_inner_def alloc_local_port_def)
    have "stack_inv S st'"
      by (rule stack_inv_open [OF assms(2), where h = h' and b = False])
         (use assms(3) a in \<open>auto simp: st' owners_def socket_kinds_def is_tcp_def\<close>)
    with n st' a show ?thesis by simp
  qed
  then show "stack_inv S st'" "unat (ns_next_id st) \<le> unat (ns_next_id st')"
    "unat (ns_next_id st') \<le> Suc (unat (ns_next_id st))" "ns_connections st' = ns_connections st"
    "set_get S (ns_sockets st) h \<noteq> None \<Longrightarrow> set_get S (ns_sockets st') h = set_get S (ns_sockets st) h" by simp_all
qed

text \<open>What a message does to the connections it is not about, and to their sockets.\<close>

definition same_conns :: "('ifc, 'set, 'tcp, 'udp) smoltcp \<Rightarrow> u64 set \<Rightarrow> ('ifc, 'set) netstack \<Rightarrow> ('ifc, 'set) netstack \<Rightarrow> bool" where
  "same_conns S ks st st' \<longleftrightarrow> (\<forall>k. k \<notin> ks \<longrightarrow> map_of (ns_connections st') k = map_of (ns_connections st) k) \<and>
     (\<forall>h. set_get S (ns_sockets st) h \<noteq> None \<longrightarrow> set_get S (ns_sockets st') h = set_get S (ns_sockets st) h)"

fun subject :: "control_message \<Rightarrow> u64 set" where
  "subject (Send cid data) = {cid}"
| "subject (Close cid) = {cid}"
| "subject _ = {}"

lemma map_of_at_key: "map_of (at_key i f t) k = (if k = i then map_option f (map_of t k) else map_of t k)"
  by (induction t) (auto simp: at_key_def)

lemma quiet_message:
  assumes "stack_inv S st" and "handle_control_message S msg st = Some st'" and "owners st' = owners st"
    and "ns_sockets st' = ns_sockets st" and "ns_next_id st' = ns_next_id st"
    and "\<And>k. k \<notin> subject msg \<Longrightarrow> map_of (ns_connections st') k = map_of (ns_connections st) k"
  shows "\<exists>st'. handle_control_message S msg st = Some st' \<and> stack_inv S st' \<and>
    unat (ns_next_id st) \<le> unat (ns_next_id st') \<and> unat (ns_next_id st') \<le> Suc (unat (ns_next_id st)) \<and>
    same_conns S (insert (ns_next_id st) (subject msg)) st st'"
  using assms stack_inv_cong [OF assms(3), of S] by (simp add: same_conns_def)

lemma handle_control_message_inv:
  assumes "socket_set_laws S" and "stack_inv S st" and "unat (ns_next_id st) < 2 ^ 64 - 1"
  shows "\<exists>st'. handle_control_message S msg st = Some st' \<and> stack_inv S st' \<and>
    unat (ns_next_id st) \<le> unat (ns_next_id st') \<and> unat (ns_next_id st') \<le> Suc (unat (ns_next_id st)) \<and>
    same_conns S (insert (ns_next_id st) (subject msg)) st st'"
proof (cases msg)
  case (Open target)
  from open_connection_inv [OF assms, of target] obtain r st' where o: "open_connection S target st = Some (r, st')"
    "stack_inv S st'" "unat (ns_next_id st) \<le> unat (ns_next_id st')" "unat (ns_next_id st') \<le> Suc (unat (ns_next_id st))"
    "\<forall>k. k \<noteq> ns_next_id st \<longrightarrow> map_of (ns_connections st') k = map_of (ns_connections st) k"
    "\<forall>h. set_get S (ns_sockets st) h \<noteq> None \<longrightarrow> set_get S (ns_sockets st') h = set_get S (ns_sockets st) h" by blast
  moreover have "stack_inv S (st'\<lparr>ns_replies := ns_replies st' @ [Opened r]\<rparr>) = stack_inv S st'"
    by (intro stack_inv_cong) (simp_all add: owners_def)
  ultimately show ?thesis using Open by (simp add: same_conns_def)
next
  case Open_Udp
  obtain r st' where o: "open_udp_association_inner S st = (r, st')" by fastforce
  have "stack_inv S (st'\<lparr>ns_replies := ns_replies st' @ [Opened_Udp r]\<rparr>) = stack_inv S st'"
    by (intro stack_inv_cong) (simp_all add: owners_def)
  with o open_udp_inv [OF assms o] Open_Udp show ?thesis by (simp add: same_conns_def)
next
  case (Tunnel_Packet packet)
  then show ?thesis
    by (intro quiet_message [OF assms(2), where st' = "the (handle_control_message S msg st)"])
       (simp_all add: owners_def)
next
  case (Send cid data)
  then show ?thesis by (intro quiet_message [OF assms(2), where st' = "the (handle_control_message S msg st)"]) (simp_all add: owners_def map_of_at_key)
next
  case (Send_Udp cid target data)
  then show ?thesis by (intro quiet_message [OF assms(2), where st' = "the (handle_control_message S msg st)"]) (simp_all add: owners_def)
next
  case (Close cid)
  then show ?thesis by (intro quiet_message [OF assms(2), where st' = "the (handle_control_message S msg st)"]) (simp_all add: owners_def map_of_at_key)
next
  case (Close_Udp cid)
  then show ?thesis by (intro quiet_message [OF assms(2), where st' = "the (handle_control_message S msg st)"]) (simp_all add: owners_def)
qed

lemma poll_inv:
  assumes "socket_set_laws S" and "stack_inv S st" and "if_poll S now d (ns_sockets st) i = (d', fs, s', i')"
  shows "stack_inv S (st\<lparr>ns_device := x, ns_sockets := s', ns_iface := y\<rparr>)"
proof -
  have "stack_inv S (st\<lparr>ns_device := x, ns_sockets := s', ns_iface := y\<rparr>) = stack_inv S st"
    using socket_set_lawsD(5) [OF assms(1,3)] by (intro stack_inv_cong) (simp_all add: owners_def)
  with assms(2) show ?thesis by simp
qed

lemma socket_kindsD:
  "socket_kinds S s h = Some True \<Longrightarrow> \<exists>t. set_get S s h = Some (Tcp_Socket t)"
  "socket_kinds S s h = Some False \<Longrightarrow> \<exists>u. set_get S s h = Some (Udp_Socket u)"
  by (auto simp: socket_kinds_def is_tcp_def) (metis any_socket.exhaust any_socket.case)+

lemma inv_served_conns:
  assumes "recv_laws S queued packets" and "stack_inv S st"
  shows "list_all (socket_driver.served S cn_handle Tcp_Socket (\<lambda>k. drive_connection S (gone k)) (ns_sockets st)) (ns_connections st)"
proof -
  have "socket_driver.served S cn_handle Tcp_Socket (\<lambda>k. drive_connection S (gone k)) (ns_sockets st) (k, c)" if "(k, c) \<in> set (ns_connections st)" for k c
  proof -
    from that have "(k, cn_handle c, True) \<in> set (owners st)" by (force simp: owners_def)
    with assms(2) have "socket_kinds S (ns_sockets st) (cn_handle c) = Some True" by (auto simp: stack_inv_defs)
    then obtain s where "set_get S (ns_sockets st) (cn_handle c) = Some (Tcp_Socket s)" by (auto dest: socket_kindsD)
    with drive_connection_ends [OF assms(1), of "gone k" s c] show ?thesis by (simp add: conns.served_def)
  qed
  then show ?thesis by (auto simp: list_all_iff)
qed

lemma inv_served_assocs:
  assumes "recv_laws S queued packets" and "stack_inv S st"
  shows "list_all (socket_driver.served S as_handle Udp_Socket (\<lambda>k. drive_udp_association S (gone k)) (ns_sockets st)) (ns_associations st)"
proof -
  have "socket_driver.served S as_handle Udp_Socket (\<lambda>k. drive_udp_association S (gone k)) (ns_sockets st) (k, c)" if "(k, c) \<in> set (ns_associations st)" for k c
  proof -
    from that have "(k, as_handle c, False) \<in> set (owners st)" by (force simp: owners_def)
    with assms(2) have "socket_kinds S (ns_sockets st) (as_handle c) = Some False" by (auto simp: stack_inv_defs)
    then obtain s where "set_get S (ns_sockets st) (as_handle c) = Some (Udp_Socket s)" by (auto dest: socket_kindsD)
    with drive_udp_association_ends [OF assms(1), of "gone k" s c] show ?thesis by (simp add: assocs.served_def)
  qed
  then show ?thesis by (auto simp: list_all_iff)
qed

lemma stack_inv_filter:
  assumes inv: "stack_inv S st" and own: "owners st' = filter P (owners st)" and nxt: "ns_next_id st' = ns_next_id st"
    and kept: "\<And>k h b. (k, h, b) \<in> set (owners st) \<Longrightarrow>
      socket_kinds S (ns_sockets st') h = (if P (k, h, b) then Some b else None)"
    and frame: "\<And>h. h \<notin> (fst \<circ> snd) ` set (owners st) \<Longrightarrow>
      socket_kinds S (ns_sockets st') h = socket_kinds S (ns_sockets st) h"
  shows "stack_inv S st'"
proof -
  have "owners_distinct st'" "ids_given_out st'"
    using inv by (auto simp: stack_inv_defs own nxt list_all_iff distinct_map_filter)
  moreover have "socket_kinds S (ns_sockets st') h = Some b \<longleftrightarrow> (\<exists>k. (k, h, b) \<in> set (owners st'))" for h b
  proof (cases "h \<in> (fst \<circ> snd) ` set (owners st)")
    case True
    then obtain k b' where k: "(k, h, b') \<in> set (owners st)" by auto
    have "inj_on (fst \<circ> snd) (set (owners st))" using inv by (simp add: stack_inv_defs distinct_map)
    then have eq: "(k', h, b'') \<in> set (owners st) \<longleftrightarrow> k' = k \<and> b'' = b'" for k' b''
      using k inj_onD [of "fst \<circ> snd" "set (owners st)" "(k', h, b'')" "(k, h, b')"] by auto
    show ?thesis unfolding kept [OF k] own set_filter mem_Collect_eq eq by (cases b; cases b') auto
  next
    case False
    with inv have "socket_kinds S (ns_sockets st) h = None"
      by (cases "socket_kinds S (ns_sockets st) h") (force simp: stack_inv_defs)+
    with False frame show ?thesis by (force simp: own)
  qed
  ultimately show ?thesis by (simp add: stack_inv_def owners_exact_def)
qed

lemma owners_tags:
  "owners st = map (\<lambda>(k, h). (k, h, True)) (conns.tags (ns_connections st)) @
     map (\<lambda>(k, h). (k, h, False)) (assocs.tags (ns_associations st))"
  by (auto simp: owners_def conns.tags_def assocs.tags_def)

lemma stack_inv_tables:
  assumes "stack_inv S st"
  shows "distinct (map fst (ns_connections st))" "distinct (conns.handles (ns_connections st))"
    and "distinct (map fst (ns_associations st))" "distinct (assocs.handles (ns_associations st))"
    and "h \<in> set (conns.handles (ns_connections st)) \<Longrightarrow> h \<notin> set (assocs.handles (ns_associations st))"
    and "k \<in> fst ` set (ns_connections st) \<Longrightarrow> k \<notin> fst ` set (ns_associations st)"
proof -
  have e: "map fst (owners st) = map fst (ns_connections st) @ map fst (ns_associations st)"
    "map (fst \<circ> snd) (owners st) = conns.handles (ns_connections st) @ assocs.handles (ns_associations st)"
    by (auto simp: owners_def conns.handles_def assocs.handles_def)
  from assms have "distinct (map fst (owners st))" "distinct (map (fst \<circ> snd) (owners st))"
    by (simp_all add: stack_inv_defs)
  then show "distinct (map fst (ns_connections st))" "distinct (conns.handles (ns_connections st))"
    "distinct (map fst (ns_associations st))" "distinct (assocs.handles (ns_associations st))"
    "h \<in> set (conns.handles (ns_connections st)) \<Longrightarrow> h \<notin> set (assocs.handles (ns_associations st))"
    "k \<in> fst ` set (ns_connections st) \<Longrightarrow> k \<notin> fst ` set (ns_associations st)"
    unfolding e by auto
qed

context socket_driver
begin

text \<open>The result of a drive, with the kinds of the sockets that are left.\<close>

definition driven :: "'set \<Rightarrow> (u64 \<times> 'c) list \<Rightarrow> 'set \<Rightarrow> u64 \<times> 'c \<Rightarrow> bool" where
  "driven sockets table' sockets' x \<longleftrightarrow> (case x of (k, c) \<Rightarrow>
     \<exists>s s' c'. set_get S sockets (handle c) = Some (wrap s) \<and> step k (s, c) = Some (s', c') \<and> handle c' = handle c \<and>
       (if opened s' then (k, c') \<in> set table' \<and> set_get S sockets' (handle c) = Some (wrap s')
        else k \<notin> fst ` set table' \<and> set_get S sockets' (handle c) = None))"

lemma drive_kinds:
  assumes "socket_set_laws S" and "distinct (map fst table)" and "distinct (handles table)"
    and "list_all (served sockets) table" and b: "\<And>s. is_tcp (wrap s) = b"
  shows "\<exists>table' sockets' ids. drive table sockets = Some (table', sockets') \<and>
      tags table' = filter (\<lambda>(k, h). k \<notin> set ids) (tags table) \<and>
      (\<forall>h. h \<notin> set (handles table) \<longrightarrow> set_get S sockets' h = set_get S sockets h) \<and>
      (\<forall>(k, h) \<in> set (tags table). socket_kinds S sockets' h = (if k \<in> set ids then None else Some b)) \<and>
      list_all (driven sockets table' sockets') table"
proof -
  from drive_spec [OF assms(1-4)] obtain table' sockets' ids where d: "drive table sockets = Some (table', sockets')"
    "tags table' = filter (\<lambda>(k, h). k \<notin> set ids) (tags table)"
    "\<forall>h. h \<notin> set (handles table) \<longrightarrow> set_get S sockets' h = set_get S sockets h"
    and each: "list_all (driven sockets table' sockets') table"
    unfolding list_all_iff driven_def by blast
  have "socket_kinds S sockets' h = (if k \<in> set ids then None else Some b)" if kh: "(k, h) \<in> set (tags table)" for k h
  proof -
    from kh obtain c where c: "(k, c) \<in> set table" "h = handle c" by (auto simp: tags_def)
    with each obtain s' c' where e: "handle c' = h"
      "if opened s' then (k, c') \<in> set table' \<and> set_get S sockets' h = Some (wrap s')
       else k \<notin> fst ` set table' \<and> set_get S sockets' h = None"
      by (auto simp: driven_def list_all_iff)
    have "(k, h) \<in> set (tags table') \<longleftrightarrow> k \<notin> set ids" unfolding d(2) using kh by simp
    moreover have "(k, h) \<in> set (tags table') \<longleftrightarrow> opened s'"
    proof (cases "opened s'")
      case True
      with e have "(k, c') \<in> set table'" by simp
      with e(1) True show ?thesis by (auto simp: tags_def intro: rev_image_eqI)
    next
      case False
      with e(2) have "k \<notin> fst ` set table'" by simp
      with False show ?thesis by (force simp: tags_def)
    qed
    ultimately show ?thesis using e(2) b by (simp add: socket_kinds_def)
  qed
  with d each show ?thesis by blast
qed

end

lemma drive_connections_inv:
  assumes "socket_set_laws S" and "recv_laws S queued packets" and inv: "stack_inv S st"
  shows "\<exists>table sockets. drive_connections S gone (ns_connections st) (ns_sockets st) = Some (table, sockets) \<and>
    stack_inv S (st\<lparr>ns_connections := table, ns_sockets := sockets\<rparr>) \<and>
    (\<forall>h. h \<notin> set (conns.handles (ns_connections st)) \<longrightarrow> set_get S sockets h = set_get S (ns_sockets st) h) \<and>
    fst ` set table \<subseteq> fst ` set (ns_connections st) \<and>
    list_all (socket_driver.driven S cn_handle Tcp_Socket (\<lambda>k. drive_connection S (gone k)) (ts_is_open S)
      (ns_sockets st) table sockets) (ns_connections st)"
proof -
  from conns.drive_kinds [OF assms(1) stack_inv_tables(1,2) [OF inv] inv_served_conns [OF assms(2) inv], where gone = gone and b = True]
  obtain table sockets ids where d: "drive_connections S gone (ns_connections st) (ns_sockets st) = Some (table, sockets)"
    and tags: "conns.tags table = filter (\<lambda>(k, h). k \<notin> set ids) (conns.tags (ns_connections st))"
    and frame: "\<forall>h. h \<notin> set (conns.handles (ns_connections st)) \<longrightarrow> set_get S sockets h = set_get S (ns_sockets st) h"
    and kinds: "\<forall>(k, h) \<in> set (conns.tags (ns_connections st)). socket_kinds S sockets h = (if k \<in> set ids then None else Some True)"
    and each: "list_all (socket_driver.driven S cn_handle Tcp_Socket (\<lambda>k. drive_connection S (gone k)) (ts_is_open S)
      (ns_sockets st) table sockets) (ns_connections st)"
    by (auto simp: is_tcp_def)
  let ?P = "\<lambda>(k, h, b). b \<longrightarrow> k \<notin> set ids"
  have "stack_inv S (st\<lparr>ns_connections := table, ns_sockets := sockets\<rparr>)"
  proof (rule stack_inv_filter [OF inv, where P = ?P])
    show "owners (st\<lparr>ns_connections := table, ns_sockets := sockets\<rparr>) = filter ?P (owners st)"
      by (simp add: owners_tags tags filter_map comp_def case_prod_unfold)
    fix k h b assume k: "(k, h, b) \<in> set (owners st)"
    show "socket_kinds S (ns_sockets (st\<lparr>ns_connections := table, ns_sockets := sockets\<rparr>)) h =
        (if ?P (k, h, b) then Some b else None)"
    proof (cases b)
      case True
      with k kinds show ?thesis by (fastforce simp: owners_tags)
    next
      case False
      with k have "h \<in> set (assocs.handles (ns_associations st))" by (force simp: owners_def assocs.handles_def)
      with stack_inv_tables(5) [OF inv] frame have "set_get S sockets h = set_get S (ns_sockets st) h" by blast
      moreover from k inv have "socket_kinds S (ns_sockets st) h = Some b" by (auto simp: stack_inv_defs)
      ultimately show ?thesis using False by (simp add: socket_kinds_def)
    qed
  next
    fix h assume "h \<notin> (fst \<circ> snd) ` set (owners st)"
    then have "h \<notin> set (conns.handles (ns_connections st))" by (force simp: owners_def conns.handles_def)
    with frame show "socket_kinds S (ns_sockets (st\<lparr>ns_connections := table, ns_sockets := sockets\<rparr>)) h =
        socket_kinds S (ns_sockets st) h" by (simp add: socket_kinds_def)
  qed simp
  moreover have "fst ` set table \<subseteq> fst ` set (ns_connections st)"
    using tags unfolding conns.tags_simps(1) [symmetric] set_map [symmetric] by auto
  ultimately show ?thesis using d frame each by blast
qed

lemma drive_udp_associations_inv:
  assumes "socket_set_laws S" and "recv_laws S queued packets" and inv: "stack_inv S st"
  shows "\<exists>table sockets. drive_udp_associations S gone (ns_associations st) (ns_sockets st) = Some (table, sockets) \<and>
    stack_inv S (st\<lparr>ns_associations := table, ns_sockets := sockets\<rparr>) \<and>
    (\<forall>h. h \<notin> set (assocs.handles (ns_associations st)) \<longrightarrow> set_get S sockets h = set_get S (ns_sockets st) h)"
proof -
  from assocs.drive_kinds [OF assms(1) stack_inv_tables(3,4) [OF inv] inv_served_assocs [OF assms(2) inv], where gone = gone and b = False]
  obtain table sockets ids where d: "drive_udp_associations S gone (ns_associations st) (ns_sockets st) = Some (table, sockets)"
    and tags: "assocs.tags table = filter (\<lambda>(k, h). k \<notin> set ids) (assocs.tags (ns_associations st))"
    and frame: "\<forall>h. h \<notin> set (assocs.handles (ns_associations st)) \<longrightarrow> set_get S sockets h = set_get S (ns_sockets st) h"
    and kinds: "\<forall>(k, h) \<in> set (assocs.tags (ns_associations st)). socket_kinds S sockets h = (if k \<in> set ids then None else Some False)"
    by (auto simp: is_tcp_def)
  let ?P = "\<lambda>(k, h, b). b \<or> k \<notin> set ids"
  have "stack_inv S (st\<lparr>ns_associations := table, ns_sockets := sockets\<rparr>)"
  proof (rule stack_inv_filter [OF inv, where P = ?P])
    show "owners (st\<lparr>ns_associations := table, ns_sockets := sockets\<rparr>) = filter ?P (owners st)"
      by (simp add: owners_tags tags filter_map comp_def case_prod_unfold)
    fix k h b assume k: "(k, h, b) \<in> set (owners st)"
    show "socket_kinds S (ns_sockets (st\<lparr>ns_associations := table, ns_sockets := sockets\<rparr>)) h =
        (if ?P (k, h, b) then Some b else None)"
    proof (cases b)
      case False
      with k kinds show ?thesis by (fastforce simp: owners_tags)
    next
      case True
      with k have "h \<in> set (conns.handles (ns_connections st))" by (force simp: owners_def conns.handles_def)
      with stack_inv_tables(5) [OF inv] frame have "set_get S sockets h = set_get S (ns_sockets st) h" by blast
      moreover from k inv have "socket_kinds S (ns_sockets st) h = Some b" by (auto simp: stack_inv_defs)
      ultimately show ?thesis using True by (simp add: socket_kinds_def)
    qed
  next
    fix h assume "h \<notin> (fst \<circ> snd) ` set (owners st)"
    then have "h \<notin> set (assocs.handles (ns_associations st))" by (force simp: owners_def assocs.handles_def)
    with frame show "socket_kinds S (ns_sockets (st\<lparr>ns_associations := table, ns_sockets := sockets\<rparr>)) h =
        socket_kinds S (ns_sockets st) h" by (simp add: socket_kinds_def)
  qed simp
  with d frame show ?thesis by blast
qed

section \<open>The stack's thread never panics and never loses a socket\<close>

lemma drive_all_inv:
  assumes "socket_set_laws S" and "recv_laws S queued packets" and "stack_inv S st"
  shows "\<exists>st'. drive_all S gone st = Some st' \<and> stack_inv S st' \<and> ns_next_id st' = ns_next_id st"
proof -
  from drive_connections_inv [OF assms, of gone] obtain t1 s1 where c:
    "drive_connections S gone (ns_connections st) (ns_sockets st) = Some (t1, s1)"
    "stack_inv S (st\<lparr>ns_connections := t1, ns_sockets := s1\<rparr>)" by blast
  from drive_udp_associations_inv [OF assms(1,2) c(2), of gone] obtain t2 s2 where a:
    "drive_udp_associations S gone (ns_associations st) s1 = Some (t2, s2)"
    "stack_inv S (st\<lparr>ns_connections := t1, ns_associations := t2, ns_sockets := s2\<rparr>)" by auto
  with c show ?thesis by (simp add: drive_all_def)
qed

text \<open>The ids the stack has given out and may still give out for the messages that wait.\<close>

definition load :: "('ifc, 'set) netstack \<Rightarrow> control_queue \<Rightarrow> nat" where
  "load st queue = unat (ns_next_id st) + length queue"

definition room :: "('ifc, 'set) netstack \<Rightarrow> control_queue \<Rightarrow> bool" where
  "room st queue \<longleftrightarrow> load st queue < 2 ^ 64"

lemmas room_defs = room_def load_def

lemma recv_timeout_rest:
  assumes "recv_timeout now d closed queue = (r, later, queue')"
  shows "(\<exists>x. r = Received (snd x) \<and> queue = x # queue') \<or>
    r = Recv_Timeout \<and> queue' = queue \<or> r = Recv_Disconnected \<and> closed \<and> queue' = queue"
  using assms by (cases "(now, d, closed, queue)" rule: recv_timeout.cases) (auto split: if_splits)

lemma batch_loop_inv:
  assumes "socket_set_laws S"
  shows "stack_inv S st \<Longrightarrow> room st queue \<Longrightarrow>
    \<exists>r queue' st'. batch_loop S closed now n queue st = Some (r, queue', st') \<and> stack_inv S st' \<and> load st' queue' \<le> load st queue \<and>
      (r = Inr () \<or> closed \<and> r = Inl control_channel_disconnected_err)"
proof (induction n arbitrary: queue st)
  case (Suc n)
  obtain x later queue' where r: "recv_timeout now 0 closed queue = (x, later, queue')"
    by (cases "recv_timeout now 0 closed queue") auto
  show ?case
  proof (cases "\<exists>m. queue = m # queue' \<and> x = Received (snd m)")
    case True
    then obtain m where m: "queue = m # queue'" "x = Received (snd m)" by blast
    with Suc.prems(2) have "unat (ns_next_id st) < 2 ^ 64 - 1" by (simp add: room_defs)
    from handle_control_message_inv [OF assms Suc.prems(1) this] obtain st1 where st1:
      "handle_control_message S (snd m) st = Some st1" "stack_inv S st1"
      "unat (ns_next_id st1) \<le> Suc (unat (ns_next_id st))" by blast
    with m have "load st1 queue' \<le> load st queue" by (simp add: load_def)
    moreover from this Suc.prems(2) have "room st1 queue'" by (simp add: room_def)
    ultimately show ?thesis using Suc.IH [OF st1(2)] st1(1) m r by fastforce
  next
    case False
    with recv_timeout_rest [OF r] Suc.prems r show ?thesis by auto
  qed
qed simp

lemma process_control_batch_inv:
  assumes "socket_set_laws S" and "stack_inv S st" and "room st (m # queue)"
  shows "\<exists>r queue' st'. process_control_batch S closed now (snd m) queue st = Some (r, queue', st') \<and>
    stack_inv S st' \<and> load st' queue' \<le> load st queue + 1 \<and> (r = Inr () \<or> closed \<and> r = Inl control_channel_disconnected_err)"
proof -
  from assms(3) have "unat (ns_next_id st) < 2 ^ 64 - 1" by (simp add: room_defs)
  from handle_control_message_inv [OF assms(1,2) this] obtain st1 where st1:
    "handle_control_message S (snd m) st = Some st1" "stack_inv S st1"
    "unat (ns_next_id st1) \<le> Suc (unat (ns_next_id st))" by blast
  then have "load st1 queue \<le> load st queue + 1" by (simp add: load_def)
  moreover from this assms(3) have "room st1 queue" by (simp add: room_defs)
  ultimately show ?thesis using batch_loop_inv [OF assms(1) st1(2)] st1(1) by (fastforce simp: process_control_batch_def)
qed

lemma transmit_frames_stack [simp]:
  "sk_stack (transmit_frames frames w) = sk_stack w" "sk_queue (transmit_frames frames w) = sk_queue w"
  "sk_now (transmit_frames frames w) = sk_now w"
  by (induction frames arbitrary: w) (auto split: prod.splits)

definition thread_inv :: "('ifc, 'set, 'tcp, 'udp) smoltcp \<Rightarrow> ('ifc, 'set, 'rx) stack_thread \<Rightarrow> bool" where
  "thread_inv S w \<longleftrightarrow> stack_inv S (sk_stack w) \<and> room (sk_stack w) (sk_queue w)"

definition thread_load :: "('ifc, 'set, 'rx) stack_thread \<Rightarrow> nat" where
  "thread_load w = load (sk_stack w) (sk_queue w)"

lemma thread_inv_load: "thread_inv S w \<longleftrightarrow> stack_inv S (sk_stack w) \<and> thread_load w < 2 ^ 64"
  by (simp add: thread_inv_def thread_load_def room_def)

definition quiet_end :: "bool \<Rightarrow> stack_end option \<Rightarrow> bool" where
  "quiet_end closed r \<longleftrightarrow> r = None \<or> r = Some Stack_Idle \<or>
     closed \<and> r = Some (Stack_Error control_channel_disconnected_err)"

lemma poll_and_drive_inv:
  assumes "socket_set_laws S" and "recv_laws S queued packets" and "thread_inv S w"
  shows "\<exists>w'. poll_and_drive S gone w = (None, w') \<and> thread_inv S w' \<and> thread_load w' = thread_load w"
proof -
  obtain d fs s i where p: "if_poll S (sk_now w) (ns_device (sk_stack w)) (ns_sockets (sk_stack w)) (ns_iface (sk_stack w)) =
    (d, fs, s, i)" by (cases "if_poll S (sk_now w) (ns_device (sk_stack w)) (ns_sockets (sk_stack w)) (ns_iface (sk_stack w))") auto
  let ?st = "(sk_stack w)\<lparr>ns_device := d, ns_sockets := s, ns_iface := i\<rparr>"
  have "stack_inv S ?st" using assms(3) by (intro poll_inv [OF assms(1) _ p]) (simp add: thread_inv_def)
  from drive_all_inv [OF assms(1,2) this, of gone] obtain st' where st': "drive_all S gone ?st = Some st'"
    "stack_inv S st'" "ns_next_id st' = ns_next_id (sk_stack w)" by auto
  with p assms(3) show ?thesis by (simp add: poll_and_drive_def thread_inv_load thread_load_def load_def Let_def)
qed

lemma wait_control_message_rest:
  assumes "wait_control_message now closed queue timeout = Some (r, later, queue')"
  shows "(\<exists>m. r = Inr (Some (snd m)) \<and> queue = m # queue') \<or> r = Inr None \<and> queue' = queue \<or>
    r = Inl control_channel_disconnected_err \<and> closed \<and> queue' = queue"
proof (cases timeout)
  case None
  with assms show ?thesis by (auto simp: wait_control_message_def split: list.splits if_splits)
next
  case (Some d)
  obtain x l q where "recv_timeout now d closed queue = (x, l, q)" by (cases "recv_timeout now d closed queue") auto
  with assms Some recv_timeout_rest [OF this] show ?thesis
    by (auto simp: wait_control_message_def split: recv_result.splits)
qed

lemma netstack_iteration_inv:
  assumes "socket_set_laws S" and "recv_laws S queued packets" and "thread_inv S w"
    and "netstack_iteration S gone closed w = (r, w')"
  shows "thread_inv S w' \<and> thread_load w' \<le> thread_load w \<and> quiet_end closed r"
proof -
  obtain wait i where p: "if_poll_delay S (sk_now w) (ns_sockets (sk_stack w)) (ns_iface (sk_stack w)) = (wait, i)"
    by fastforce
  let ?w = "w\<lparr>sk_stack := (sk_stack w)\<lparr>ns_iface := i\<rparr>\<rparr>"
  have "stack_inv S ((sk_stack w)\<lparr>ns_iface := i\<rparr>) = stack_inv S (sk_stack w)"
    by (intro stack_inv_cong) (simp_all add: owners_def)
  with assms(3) have inv: "thread_inv S ?w" and load: "thread_load ?w = thread_load w"
    by (simp_all add: thread_inv_def room_defs thread_load_def)
  show ?thesis
  proof (cases "wait_control_message (sk_now w) closed (sk_queue w) wait")
    case None
    with assms(4) p inv load show ?thesis by (auto simp: netstack_iteration_def Let_def quiet_end_def)
  next
    case (Some res)
    then obtain x now queue where x: "wait_control_message (sk_now w) closed (sk_queue w) wait = Some (x, now, queue)"
      by (cases res) auto
    from wait_control_message_rest [OF x] consider
        m where "x = Inr (Some (snd m))" "sk_queue w = m # queue"
      | "x = Inr None" "queue = sk_queue w"
      | "x = Inl control_channel_disconnected_err" "closed" "queue = sk_queue w" by blast
    then show ?thesis
    proof cases
      case 1
      with inv have "stack_inv S (sk_stack ?w)" "room (sk_stack ?w) (m # queue)" by (simp_all add: thread_inv_def)
      from process_control_batch_inv [OF assms(1) this, of closed now] obtain q queue' st' where b:
        "process_control_batch S closed now (snd m) queue (sk_stack ?w) = Some (q, queue', st')"
        "stack_inv S st'" "load st' queue' \<le> load (sk_stack ?w) queue + 1" "q = Inr () \<or> closed \<and> q = Inl control_channel_disconnected_err" by blast
      let ?v = "?w\<lparr>sk_now := now, sk_queue := queue', sk_stack := st'\<rparr>"
      have le: "thread_load ?v \<le> thread_load w" using b(3) 1 by (simp add: thread_load_def load_def)
      with b(2) assms(3) have "thread_inv S ?v" by (simp add: thread_inv_load)
      from poll_and_drive_inv [OF assms(1,2) this, of gone] b x 1 p assms(4) \<open>thread_inv S ?v\<close> le show ?thesis
        by (auto simp: netstack_iteration_def Let_def quiet_end_def)
    next
      case 2
      let ?v = "?w\<lparr>sk_now := now, sk_queue := queue\<rparr>"
      have "thread_inv S ?v" "thread_load ?v = thread_load w" using inv load 2
        by (simp_all add: thread_inv_def thread_load_def)
      from poll_and_drive_inv [OF assms(1,2) this(1), of gone] this(2) x 2 p assms(4) show ?thesis
        by (auto simp: netstack_iteration_def Let_def quiet_end_def)
    next
      case 3
      with x p assms(4) inv show ?thesis
        by (auto simp: netstack_iteration_def Let_def quiet_end_def thread_inv_def thread_load_def load_def)
    qed
  qed
qed

lemma run_netstack_inv:
  assumes "socket_set_laws S" and "recv_laws S queued packets"
  shows "thread_inv S w \<Longrightarrow> run_netstack_loop S gone closed n w = (r, w') \<Longrightarrow> thread_inv S w' \<and> quiet_end closed r"
proof (induction n arbitrary: w)
  case 0
  then show ?case by (simp add: run_netstack_loop_def quiet_end_def)
next
  case (Suc n)
  obtain q v where v: "netstack_iteration S gone closed w = (q, v)" by fastforce
  from netstack_iteration_inv [OF assms Suc.prems(1) v] Suc.IH [of v] Suc.prems(2) v show ?case
    by (auto simp: run_netstack_loop_def split: option.splits)
qed

text \<open>
  \<^bold>\<open>C5.\<close> The stack's thread never panics and never hangs, whatever messages arrive and whatever
  the peers do: with a socket set that behaves as documented, and sockets whose buffers run empty when
  they are read, every run keeps the invariant (ids and handles are not shared, every socket in the
  set belongs to exactly one connection or association, of its kind, so that none leaks), and it ends
  only by waiting for ever or, once every sender is gone, with the error of a closed control channel.
  The bound on the messages keeps the 64-bit ids from wrapping around.
\<close>

theorem netstack_never_stuck:
  assumes "socket_set_laws S" and "recv_laws S queued packets"
    and "sk_stack w = netstack_start S nanos ip" and "length (sk_queue w) < 2 ^ 64 - 1"
  shows "case run_netstack_loop S gone closed fuel w of (r, w') \<Rightarrow>
    stack_inv S (sk_stack w') \<and>
    (r = None \<or> r = Some Stack_Idle \<or> closed \<and> r = Some (Stack_Error control_channel_disconnected_err))"
proof -
  have "thread_inv S w"
    using stack_inv_start [OF assms(1), of nanos ip] assms(3,4)
    by (simp add: thread_inv_def room_defs netstack_start_def)
  from run_netstack_inv [OF assms(1,2) this, of gone closed fuel] show ?thesis
    by (cases "run_netstack_loop S gone closed fuel w") (simp add: thread_inv_def quiet_end_def)
qed

end
