(* ===== verification/StackStreams.thy ===== *)
theory StackStreams
  imports StackInvariant
begin

text \<open>
  The streams of a connection of the network stack, from the control messages of its client through
  the queue and the socket, and back; the local ports; a small stack for evaluation.
\<close>

section \<open>A connection is two byte streams\<close>

text \<open>
  Documented behaviour of a TCP socket, with two observers: \<open>sent\<close>, the bytes it has accepted, and
  \<open>got\<close>, the bytes it has handed out. A socket that can send does not refuse; a poll and a close
  accept and hand out nothing.
\<close>

definition tcp_send_law :: "('ifc, 'set, 'tcp, 'udp) smoltcp \<Rightarrow> ('tcp \<Rightarrow> bytes) \<Rightarrow> ('tcp \<Rightarrow> bytes) \<Rightarrow> bool" where
  "tcp_send_law S sent got \<longleftrightarrow>
     (\<forall>d t n t'. ts_send S d t = (Inr n, t') \<longrightarrow> sent t' = sent t @ take n d \<and> got t' = got t) \<and>
     (\<forall>d t. ts_can_send S t \<longrightarrow> (\<exists>n t'. ts_send S d t = (Inr n, t') \<and> n \<le> length d))"

definition tcp_recv_law :: "('ifc, 'set, 'tcp, 'udp) smoltcp \<Rightarrow> ('tcp \<Rightarrow> bytes) \<Rightarrow> ('tcp \<Rightarrow> bytes) \<Rightarrow> bool" where
  "tcp_recv_law S sent got \<longleftrightarrow>
     (\<forall>n t b t'. ts_recv S n t = (Inr b, t') \<longrightarrow> sent t' = sent t \<and> got t' = got t @ b) \<and>
     (\<forall>n t e t'. ts_recv S n t = (Inl e, t') \<longrightarrow> sent t' = sent t \<and> got t' = got t)"

definition tcp_quiet_law :: "('ifc, 'set, 'tcp, 'udp) smoltcp \<Rightarrow> ('tcp \<Rightarrow> bytes) \<Rightarrow> ('tcp \<Rightarrow> bytes) \<Rightarrow> bool" where
  "tcp_quiet_law S sent got \<longleftrightarrow>
     (\<forall>t. sent (ts_close S t) = sent t \<and> got (ts_close S t) = got t) \<and>
     (\<forall>now d s i d' fs s' i' h t. if_poll S now d s i = (d', fs, s', i') \<longrightarrow> set_get S s h = Some (Tcp_Socket t) \<longrightarrow>
        (\<exists>t'. set_get S s' h = Some (Tcp_Socket t') \<and> sent t' = sent t \<and> got t' = got t))"

definition tcp_laws :: "('ifc, 'set, 'tcp, 'udp) smoltcp \<Rightarrow> ('tcp \<Rightarrow> bytes) \<Rightarrow> ('tcp \<Rightarrow> bytes) \<Rightarrow> bool" where
  "tcp_laws S sent got \<longleftrightarrow> tcp_send_law S sent got \<and> tcp_recv_law S sent got \<and> tcp_quiet_law S sent got"

lemma tcp_send_lawD:
  assumes "tcp_laws S sent got"
  shows "ts_send S d t = (Inr n, t') \<Longrightarrow> sent t' = sent t @ take n d \<and> got t' = got t"
    and "ts_can_send S t \<Longrightarrow> \<exists>n t'. ts_send S d t = (Inr n, t') \<and> n \<le> length d"
  using assms by (simp_all add: tcp_laws_def tcp_send_law_def)

lemma tcp_recv_lawD:
  assumes "tcp_laws S sent got"
  shows "ts_recv S n t = (Inr b, t') \<Longrightarrow> sent t' = sent t \<and> got t' = got t @ b"
    and "ts_recv S n t = (Inl e, t') \<Longrightarrow> sent t' = sent t \<and> got t' = got t"
  using assms by (simp_all add: tcp_laws_def tcp_recv_law_def)

lemma tcp_quiet_lawD:
  assumes "tcp_laws S sent got"
  shows "sent (ts_close S t) = sent t" and "got (ts_close S t) = got t"
    and "if_poll S now q s i = (d', fs, s', i') \<Longrightarrow> set_get S s h = Some (Tcp_Socket t) \<Longrightarrow>
      \<exists>t'. set_get S s' h = Some (Tcp_Socket t') \<and> sent t' = sent t \<and> got t' = got t"
  using assms unfolding tcp_laws_def tcp_quiet_law_def by blast+

text \<open>What a client sees of its connection: what it sent, what came out of the socket, what it received.\<close>

definition conn_view :: "('ifc, 'set, 'tcp, 'udp) smoltcp \<Rightarrow> ('tcp \<Rightarrow> bytes) \<Rightarrow> ('tcp \<Rightarrow> bytes) \<Rightarrow> u64
    \<Rightarrow> ('ifc, 'set) netstack \<Rightarrow> (bytes \<times> bytes \<times> bytes) option" where
  "conn_view S sent got k st =
     (case map_of (ns_connections st) k of
        None \<Rightarrow> None
      | Some c \<Rightarrow>
          (case set_get S (ns_sockets st) (cn_handle c) of
             Some (Tcp_Socket t) \<Rightarrow> Some (sent t @ concat (cn_pending c), got t, concat (cn_uplink c))
           | _ \<Rightarrow> None))"

definition advances :: "('ifc, 'set, 'tcp, 'udp) smoltcp \<Rightarrow> ('tcp \<Rightarrow> bytes) \<Rightarrow> ('tcp \<Rightarrow> bytes) \<Rightarrow> u64 \<Rightarrow> bytes
    \<Rightarrow> ('ifc, 'set) netstack \<Rightarrow> ('ifc, 'set) netstack \<Rightarrow> bool" where
  "advances S sent got k bs st st' \<longleftrightarrow>
     (\<forall>up out down. conn_view S sent got k st' = Some (up, out, down) \<longrightarrow>
        (\<exists>up0 out0 down0 d. conn_view S sent got k st = Some (up0, out0, down0) \<and>
           up = up0 @ bs \<and> out = out0 @ d \<and> down = down0 @ d))"

lemma advances_trans:
  "advances S sent got k a x y \<Longrightarrow> advances S sent got k b y z \<Longrightarrow> advances S sent got k (a @ b) x z"
  unfolding advances_def by (metis append.assoc)

lemma advances_same: "conn_view S sent got k st' = conn_view S sent got k st \<Longrightarrow> advances S sent got k [] st st'"
  by (simp add: advances_def)

fun payload :: "u64 \<Rightarrow> control_message \<Rightarrow> bytes" where
  "payload k (Send cid data) = (if cid = k then data else [])"
| "payload k _ = []"

lemma inv_socket:
  assumes "stack_inv S st" and "map_of (ns_connections st) k = Some c"
  shows "\<exists>t. set_get S (ns_sockets st) (cn_handle c) = Some (Tcp_Socket t)"
proof -
  from assms(2) have "(k, cn_handle c, True) \<in> set (owners st)" by (force simp: owners_def dest: map_of_SomeD)
  with assms(1) have "socket_kinds S (ns_sockets st) (cn_handle c) = Some True" by (auto simp: stack_inv_defs)
  then show ?thesis by (rule socket_kindsD)
qed

lemma same_conns_view:
  assumes "stack_inv S st" and "same_conns S ks st st'" and "k \<notin> ks"
  shows "conn_view S sent got k st' = conn_view S sent got k st"
proof (cases "map_of (ns_connections st) k")
  case None
  with assms(2,3) show ?thesis by (simp add: conn_view_def same_conns_def)
next
  case (Some c)
  from inv_socket [OF assms(1) Some] obtain t where "set_get S (ns_sockets st) (cn_handle c) = Some (Tcp_Socket t)" by blast
  with assms(2,3) Some show ?thesis by (simp add: conn_view_def same_conns_def)
qed

lemma message_advances:
  assumes "socket_set_laws S" and "stack_inv S st" and "unat (ns_next_id st) < 2 ^ 64 - 1"
    and "unat k < unat (ns_next_id st)" and "handle_control_message S msg st = Some st'"
  shows "advances S sent got k (payload k msg) st st'"
proof (cases "k \<in> subject msg")
  case False
  from handle_control_message_inv [OF assms(1-3), of msg] assms(5)
  have "same_conns S (insert (ns_next_id st) (subject msg)) st st'" by auto
  moreover have "k \<noteq> ns_next_id st" using assms(4) by blast
  ultimately have "conn_view S sent got k st' = conn_view S sent got k st"
    using False same_conns_view [OF assms(2), of "insert (ns_next_id st) (subject msg)"] by blast
  moreover from False have "payload k msg = []" by (cases msg) auto
  ultimately show ?thesis by (simp add: advances_same)
next
  case True
  then consider data where "msg = Send k data" | "msg = Close k" by (cases msg) auto
  then show ?thesis
  proof cases
    case 1
    with assms(5) show ?thesis
      by (auto simp: advances_def conn_view_def map_of_at_key split: option.splits any_socket.splits)
  next
    case 2
    with assms(5) have "conn_view S sent got k st' = conn_view S sent got k st"
      by (auto simp: conn_view_def map_of_at_key split: option.splits any_socket.splits)
    with 2 show ?thesis by (simp add: advances_same)
  qed
qed

lemma send_chunks_sent:
  assumes "tcp_laws S sent got"
  shows "send_chunks S cs t = (rest, refused, t') \<Longrightarrow>
    \<not> refused \<and> sent t' @ concat rest = sent t @ concat cs \<and> got t' = got t"
proof (induction cs arbitrary: t)
  case (Cons c cs)
  show ?case
  proof (cases "ts_can_send S t")
    case True
    from tcp_send_lawD(2) [OF assms True] obtain n t1 where n: "ts_send S c t = (Inr n, t1)" "n \<le> length c" by blast
    from tcp_send_lawD(1) [OF assms n(1)] have l: "sent t1 = sent t @ take n c" "got t1 = got t" by simp_all
    show ?thesis
    proof (cases "n = length c")
      case True
      with Cons.IH [of t1] Cons.prems n l \<open>ts_can_send S t\<close> show ?thesis by simp
    next
      case False
      with Cons.prems n l \<open>ts_can_send S t\<close> show ?thesis by auto
    qed
  next
    case False
    with Cons.prems show ?thesis by auto
  qed
qed auto

lemma recv_chunks_got:
  assumes "tcp_laws S sent got" and "recv_laws S queued packets"
  shows "recv_chunks S (\<lambda>_. False) uplink t = Some (uplink', lost, t') \<Longrightarrow>
    sent t' = sent t \<and> (\<exists>d. got t' = got t @ d \<and> concat uplink' = concat uplink @ d)"
proof (induction "queued t" arbitrary: uplink t rule: less_induct)
  case less
  show ?case
  proof (cases "ts_can_recv S t")
    case True
    obtain r t1 where r: "ts_recv S 4096 t = (r, t1)" by fastforce
    show ?thesis
    proof (cases r)
      case (Inl e)
      with r tcp_recv_lawD(2) [OF assms(1)] less.prems True show ?thesis
        by (auto simp: recv_chunks.simps [of S _ uplink t])
    next
      case (Inr b)
      with r have g: "sent t1 = sent t" "got t1 = got t @ b" using tcp_recv_lawD(1) [OF assms(1)] by blast+
      show ?thesis
      proof (cases "b = []")
        case True
        with Inr r g less.prems \<open>ts_can_recv S t\<close> show ?thesis by (auto simp: recv_chunks.simps [of S _ uplink t])
      next
        case False
        with Inr r assms(2) have "queued t1 < queued t" unfolding recv_laws_def by blast
        from less.hyps [OF this, of "uplink @ [b]"] Inr r False g less.prems \<open>ts_can_recv S t\<close> show ?thesis
          by (auto simp: recv_chunks.simps [of S _ uplink t])
      qed
    qed
  next
    case False
    with less.prems show ?thesis by (simp add: recv_chunks.simps [of S _ uplink t])
  qed
qed

lemma drive_connection_streams:
  assumes "tcp_laws S sent got" and "recv_laws S queued packets"
    and "drive_connection S (\<lambda>_. False) (t, c) = Some (t', c')"
  shows "sent t' @ concat (cn_pending c') = sent t @ concat (cn_pending c) \<and>
    (\<exists>d. got t' = got t @ d \<and> concat (cn_uplink c') = concat (cn_uplink c) @ d)"
proof -
  obtain rest refused t1 where s: "send_chunks S (cn_pending c) t = (rest, refused, t1)"
    by (cases "send_chunks S (cn_pending c) t") auto
  let ?c1 = "c\<lparr>cn_pending := rest, cn_close_requested := cn_close_requested c \<or> refused\<rparr>"
  from assms(3) s obtain up lost t2 where r: "recv_chunks S (\<lambda>_. False) (cn_uplink c) t1 = Some (up, lost, t2)"
    "c' = ?c1\<lparr>cn_uplink := up, cn_close_requested := cn_close_requested ?c1 \<or> lost\<rparr>"
    "t' = (if cn_close_requested c' \<and> ts_may_send S t2 then ts_close S t2 else t2)"
    by (auto simp: drive_connection_def pump_pending_sends_def pump_uplink_reads_def bind_eq_Some_conv)
  from send_chunks_sent [OF assms(1) s] recv_chunks_got [OF assms(1,2) r(1)] r(2,3) tcp_quiet_lawD(1,2) [OF assms(1)]
  show ?thesis by auto
qed

lemma poll_advances:
  assumes "tcp_laws S sent got" and "stack_inv S st" and "if_poll S now q (ns_sockets st) i = (d', fs, s', i')"
  shows "advances S sent got k [] st (st\<lparr>ns_device := x, ns_sockets := s', ns_iface := y\<rparr>)"
proof (rule advances_same)
  show "conn_view S sent got k (st\<lparr>ns_device := x, ns_sockets := s', ns_iface := y\<rparr>) = conn_view S sent got k st"
  proof (cases "map_of (ns_connections st) k")
    case (Some c)
    from inv_socket [OF assms(2) Some] obtain t where "set_get S (ns_sockets st) (cn_handle c) = Some (Tcp_Socket t)" by blast
    with tcp_quiet_lawD(3) [OF assms(1,3) this] Some show ?thesis by (auto simp: conn_view_def)
  qed (simp add: conn_view_def)
qed

lemma drive_all_advances:
  assumes "socket_set_laws S" and "recv_laws S queued packets" and "tcp_laws S sent got" and inv: "stack_inv S st"
    and "drive_all S gone st = Some st'" and "gone k = (\<lambda>_. False)"
  shows "advances S sent got k [] st st'"
proof -
  from drive_connections_inv [OF assms(1,2) inv, of gone] obtain t1 s1 where c:
    "drive_connections S gone (ns_connections st) (ns_sockets st) = Some (t1, s1)"
    "stack_inv S (st\<lparr>ns_connections := t1, ns_sockets := s1\<rparr>)"
    "fst ` set t1 \<subseteq> fst ` set (ns_connections st)"
    "list_all (socket_driver.driven S cn_handle Tcp_Socket (\<lambda>k. drive_connection S (gone k)) (ts_is_open S)
      (ns_sockets st) t1 s1) (ns_connections st)" by blast
  let ?st1 = "st\<lparr>ns_connections := t1, ns_sockets := s1\<rparr>"
  from drive_udp_associations_inv [OF assms(1,2) c(2), of gone] obtain t2 s2 where a:
    "drive_udp_associations S gone (ns_associations st) s1 = Some (t2, s2)"
    "\<forall>h. h \<notin> set (assocs.handles (ns_associations st)) \<longrightarrow> set_get S s2 h = set_get S s1 h" by auto
  have st': "st' = ?st1\<lparr>ns_associations := t2, ns_sockets := s2\<rparr>"
    using assms(5) c(1) a(1) by (simp add: drive_all_def)
  have "conn_view S sent got k st' = conn_view S sent got k ?st1"
  proof (cases "map_of t1 k")
    case (Some c)
    then have "cn_handle c \<in> set (conns.handles t1)" by (force simp: conns.handles_def dest: map_of_SomeD)
    with stack_inv_tables(5) [OF c(2)] a(2) have "set_get S s2 (cn_handle c) = set_get S s1 (cn_handle c)" by simp
    then show ?thesis by (simp add: conn_view_def st' Some)
  qed (simp add: conn_view_def st')
  moreover have "advances S sent got k [] st ?st1"
    unfolding advances_def
  proof (intro allI impI)
    fix up out down assume v: "conn_view S sent got k ?st1 = Some (up, out, down)"
    then obtain c1 where m1: "map_of t1 k = Some c1" by (auto simp: conn_view_def split: option.splits)
    then have "k \<in> fst ` set t1" by (metis domI dom_map_of_conv_image_fst)
    with c(3) obtain c0 where c0: "(k, c0) \<in> set (ns_connections st)" by auto
    then have m0: "map_of (ns_connections st) k = Some c0" using stack_inv_tables(1) [OF inv] by simp
    from c(4) c0 have "socket_driver.driven S cn_handle Tcp_Socket (\<lambda>k. drive_connection S (gone k)) (ts_is_open S)
      (ns_sockets st) t1 s1 (k, c0)" by (simp add: list_all_iff)
    with \<open>k \<in> fst ` set t1\<close> assms(6) obtain t0 t2 c2 where e:
      "set_get S (ns_sockets st) (cn_handle c0) = Some (Tcp_Socket t0)"
      "drive_connection S (\<lambda>_. False) (t0, c0) = Some (t2, c2)" "cn_handle c2 = cn_handle c0"
      "(k, c2) \<in> set t1" "set_get S s1 (cn_handle c0) = Some (Tcp_Socket t2)"
      by (auto simp: conns.driven_def split: if_splits)
    then have "c1 = c2" using m1 stack_inv_tables(1) [OF c(2)] by simp
    with v m1 e have v1: "up = sent t2 @ concat (cn_pending c2)" "out = got t2" "down = concat (cn_uplink c2)"
      by (simp_all add: conn_view_def)
    from drive_connection_streams [OF assms(3,2) e(2)] v1 m0 e(1)
    show "\<exists>up0 out0 down0 d. conn_view S sent got k st = Some (up0, out0, down0) \<and>
        up = up0 @ [] \<and> out = out0 @ d \<and> down = down0 @ d"
      by (auto simp: conn_view_def)
  qed
  ultimately show ?thesis by (simp add: advances_def)
qed

text \<open>What the messages ask connection \<open>k\<close> to send.\<close>

definition conn_payloads :: "u64 \<Rightarrow> control_queue \<Rightarrow> bytes" where
  "conn_payloads k ms = concat (map (payload k \<circ> snd) ms)"

lemma conn_payloads_simps [simp]:
  "conn_payloads k [] = []" "conn_payloads k (m # ms) = payload k (snd m) @ conn_payloads k ms"
  "conn_payloads k (ms @ ms') = conn_payloads k ms @ conn_payloads k ms'"
  by (simp_all add: conn_payloads_def)

definition consumes :: "('ifc, 'set, 'tcp, 'udp) smoltcp \<Rightarrow> ('tcp \<Rightarrow> bytes) \<Rightarrow> ('tcp \<Rightarrow> bytes) \<Rightarrow> u64
    \<Rightarrow> control_queue \<times> ('ifc, 'set) netstack \<Rightarrow> control_queue \<times> ('ifc, 'set) netstack \<Rightarrow> bool" where
  "consumes S sent got k x y \<longleftrightarrow> unat (ns_next_id (snd x)) \<le> unat (ns_next_id (snd y)) \<and>
     (\<exists>ms. fst x = ms @ fst y \<and> advances S sent got k (conn_payloads k ms) (snd x) (snd y))"

lemma consumes_trans: "consumes S sent got k x y \<Longrightarrow> consumes S sent got k y z \<Longrightarrow> consumes S sent got k x z"
  unfolding consumes_def using advances_trans by fastforce

lemma consumes_none:
  "advances S sent got k [] st st' \<Longrightarrow> ns_next_id st' = ns_next_id st \<Longrightarrow> consumes S sent got k (queue, st) (queue, st')"
  by (auto simp: consumes_def intro: exI [of _ "[]"])

lemma consumes_refl: "consumes S sent got k x x"
  using consumes_none [OF advances_same [OF refl] refl] by (cases x) simp

lemma message_consumes:
  assumes "socket_set_laws S" and "stack_inv S st" and "room st (m # queue)" and "unat k < unat (ns_next_id st)"
    and "handle_control_message S (snd m) st = Some st'"
  shows "consumes S sent got k (m # queue, st) (queue, st') \<and> stack_inv S st' \<and> room st' queue"
proof -
  from assms(3) have r: "unat (ns_next_id st) < 2 ^ 64 - 1" by (simp add: room_defs)
  from handle_control_message_inv [OF assms(1,2) r, of "snd m"] assms(5) have
    "stack_inv S st'" "unat (ns_next_id st) \<le> unat (ns_next_id st')" "unat (ns_next_id st') \<le> Suc (unat (ns_next_id st))"
    by simp_all
  with message_advances [OF assms(1,2) r assms(4,5)] assms(3) show ?thesis
    by (auto simp: consumes_def room_defs intro!: exI [of _ "[m]"])
qed

lemma batch_loop_consumes:
  assumes "socket_set_laws S"
  shows "stack_inv S st \<Longrightarrow> room st queue \<Longrightarrow> unat k < unat (ns_next_id st) \<Longrightarrow>
    batch_loop S closed now n queue st = Some (r, queue', st') \<Longrightarrow> consumes S sent got k (queue, st) (queue', st')"
proof (induction n arbitrary: queue st)
  case 0
  then show ?case by (simp add: consumes_refl)
next
  case (Suc n)
  obtain x later q where x: "recv_timeout now 0 closed queue = (x, later, q)"
    by (cases "recv_timeout now 0 closed queue") auto
  show ?case
  proof (cases "\<exists>m. queue = m # q \<and> x = Received (snd m)")
    case True
    then obtain m where m: "queue = m # q" "x = Received (snd m)" by blast
    with Suc.prems(4) x obtain st1 where st1: "handle_control_message S (snd m) st = Some st1"
      "batch_loop S closed now n q st1 = Some (r, queue', st')" by (auto simp: bind_eq_Some_conv)
    from message_consumes [OF assms Suc.prems(1) _ Suc.prems(3) st1(1), of q sent got] Suc.prems(2) m have c:
      "consumes S sent got k (queue, st) (q, st1)" "stack_inv S st1" "room st1 q" by auto
    from c(1) Suc.prems(3) have "unat k < unat (ns_next_id st1)" by (simp add: consumes_def)
    from consumes_trans [OF c(1) Suc.IH [OF c(2,3) this st1(2)]] show ?thesis .
  next
    case False
    with recv_timeout_rest [OF x] Suc.prems(4) x show ?thesis by (auto simp: consumes_refl)
  qed
qed

lemma poll_and_drive_consumes:
  assumes "socket_set_laws S" and "recv_laws S queued packets" and "tcp_laws S sent got"
    and "thread_inv S w" and "gone k = (\<lambda>_. False)" and "poll_and_drive S gone w = (r, w')"
  shows "consumes S sent got k (sk_queue w, sk_stack w) (sk_queue w', sk_stack w')"
proof -
  obtain d fs s i where p: "if_poll S (sk_now w) (ns_device (sk_stack w)) (ns_sockets (sk_stack w)) (ns_iface (sk_stack w)) =
    (d, fs, s, i)" by (cases "if_poll S (sk_now w) (ns_device (sk_stack w)) (ns_sockets (sk_stack w)) (ns_iface (sk_stack w))") auto
  let ?st = "(sk_stack w)\<lparr>ns_device := d, ns_sockets := s, ns_iface := i\<rparr>"
  from assms(4) have inv: "stack_inv S (sk_stack w)" by (simp add: thread_inv_def)
  have inv1: "stack_inv S ?st" by (rule poll_inv [OF assms(1) inv p])
  from drive_all_inv [OF assms(1,2) inv1, of gone] obtain st' where st': "drive_all S gone ?st = Some st'"
    "ns_next_id st' = ns_next_id (sk_stack w)" by auto
  have "consumes S sent got k (sk_queue w, sk_stack w) (sk_queue w, ?st)"
    using poll_advances [OF assms(3) inv p] by (rule consumes_none) simp
  moreover have "consumes S sent got k (sk_queue w, ?st) (sk_queue w, st')"
    using drive_all_advances [OF assms(1-3) inv1 st'(1) assms(5)] st'(2) by (intro consumes_none) simp_all
  moreover have "sk_queue w' = sk_queue w" "sk_stack w' = st'"
    using assms(6) p st'(1) by (auto simp: poll_and_drive_def Let_def)
  ultimately show ?thesis using consumes_trans by metis
qed

lemma netstack_iteration_consumes:
  assumes "socket_set_laws S" and "recv_laws S queued packets" and "tcp_laws S sent got"
    and "thread_inv S w" and "unat k < unat (ns_next_id (sk_stack w))" and "gone k = (\<lambda>_. False)"
    and "netstack_iteration S gone closed w = (r, w')"
  shows "consumes S sent got k (sk_queue w, sk_stack w) (sk_queue w', sk_stack w')"
proof -
  obtain wait i where p: "if_poll_delay S (sk_now w) (ns_sockets (sk_stack w)) (ns_iface (sk_stack w)) = (wait, i)"
    by fastforce
  let ?st = "(sk_stack w)\<lparr>ns_iface := i\<rparr>"
  let ?w = "w\<lparr>sk_stack := ?st\<rparr>"
  have "stack_inv S ?st = stack_inv S (sk_stack w)" by (intro stack_inv_cong) (simp_all add: owners_def)
  with assms(4) have inv: "thread_inv S ?w" by (simp add: thread_inv_def room_defs)
  have c0: "consumes S sent got k (queue, sk_stack w) (queue, ?st)" for queue
    by (rule consumes_none [OF advances_same]) (simp_all add: conn_view_def split: option.splits)
  show ?thesis
  proof (cases "wait_control_message (sk_now w) closed (sk_queue w) wait")
    case None
    with assms(7) p c0 show ?thesis by (auto simp: netstack_iteration_def Let_def)
  next
    case (Some res)
    then obtain x now queue where x: "wait_control_message (sk_now w) closed (sk_queue w) wait = Some (x, now, queue)"
      by (cases res) auto
    from wait_control_message_rest [OF x] consider
        m where "x = Inr (Some (snd m))" "sk_queue w = m # queue"
      | "x = Inr None" "queue = sk_queue w"
      | "x = Inl control_channel_disconnected_err" "closed" "queue = sk_queue w" by blast
    then show ?thesis
    proof cases
      case 1
      with inv have i: "stack_inv S ?st" "room ?st (m # queue)" by (simp_all add: thread_inv_def)
      from process_control_batch_inv [OF assms(1) i, of closed now] obtain q queue' st' where b:
        "process_control_batch S closed now (snd m) queue ?st = Some (q, queue', st')"
        "stack_inv S st'" "load st' queue' \<le> load ?st queue + 1"
        "q = Inr () \<or> closed \<and> q = Inl control_channel_disconnected_err" by blast
      then obtain st1 where st1: "handle_control_message S (snd m) ?st = Some st1"
        "batch_loop S closed now (MAX_CONTROL_BATCH - 1) queue st1 = Some (q, queue', st')"
        by (auto simp: process_control_batch_def bind_eq_Some_conv)
      from message_consumes [OF assms(1) i _ st1(1), of k sent got] assms(5) have m1:
        "consumes S sent got k (m # queue, ?st) (queue, st1)" "stack_inv S st1" "room st1 queue" by simp_all
      from m1(1) assms(5) have "unat k < unat (ns_next_id st1)" by (simp add: consumes_def)
      from batch_loop_consumes [OF assms(1) m1(2,3) this st1(2)]
      have "consumes S sent got k (queue, st1) (queue', st')" .
      with c0 m1(1) 1 have c1: "consumes S sent got k (sk_queue w, sk_stack w) (queue', st')"
        using consumes_trans by metis
      let ?v = "?w\<lparr>sk_now := now, sk_queue := queue', sk_stack := st'\<rparr>"
      have v: "thread_inv S ?v" using b(2,3) i(2) by (simp add: thread_inv_def room_defs)
      from b(4) show ?thesis
      proof
        assume "q = Inr ()"
        with assms(7) x 1 p b(1) have "poll_and_drive S gone ?v = (r, w')" by (simp add: netstack_iteration_def Let_def)
        from poll_and_drive_consumes [where k = k, OF assms(1-3) v assms(6) this]
        have "consumes S sent got k (queue', st') (sk_queue w', sk_stack w')" by simp
        with c1 show ?thesis by (rule consumes_trans)
      next
        assume "closed \<and> q = Inl control_channel_disconnected_err"
        with assms(7) x 1 p b(1) c1 show ?thesis by (auto simp: netstack_iteration_def Let_def)
      qed
    next
      case 2
      let ?v = "?w\<lparr>sk_now := now, sk_queue := queue\<rparr>"
      have v: "thread_inv S ?v" using inv 2 by (simp add: thread_inv_def)
      from assms(7) x 2 p have "poll_and_drive S gone ?v = (r, w')" by (simp add: netstack_iteration_def Let_def)
      from poll_and_drive_consumes [where k = k, OF assms(1-3) v assms(6) this] 2
      have "consumes S sent got k (sk_queue w, ?st) (sk_queue w', sk_stack w')" by simp
      with c0 show ?thesis by (rule consumes_trans)
    next
      case 3
      with x p assms(7) c0 show ?thesis by (auto simp: netstack_iteration_def Let_def)
    qed
  qed
qed

lemma run_netstack_consumes:
  assumes "socket_set_laws S" and "recv_laws S queued packets" and "tcp_laws S sent got" and "gone k = (\<lambda>_. False)"
  shows "thread_inv S w \<Longrightarrow> unat k < unat (ns_next_id (sk_stack w)) \<Longrightarrow> run_netstack_loop S gone closed n w = (r, w') \<Longrightarrow>
    consumes S sent got k (sk_queue w, sk_stack w) (sk_queue w', sk_stack w')"
proof (induction n arbitrary: w)
  case 0
  then show ?case by (simp add: run_netstack_loop_def consumes_refl)
next
  case (Suc n)
  obtain q v where v: "netstack_iteration S gone closed w = (q, v)" by fastforce
  note c = netstack_iteration_consumes [OF assms(1-3) Suc.prems(1,2) assms(4) v]
  show ?case
  proof (cases q)
    case None
    with v Suc.prems(3) have run: "run_netstack_loop S gone closed n v = (r, w')" by (simp add: run_netstack_loop_def)
    have "thread_inv S v" using netstack_iteration_inv [OF assms(1,2) Suc.prems(1) v] by simp
    moreover have "unat k < unat (ns_next_id (sk_stack v))" using c Suc.prems(2) by (simp add: consumes_def)
    ultimately show ?thesis using Suc.IH [OF _ _ run] consumes_trans [OF c] by blast
  next
    case (Some y)
    with v Suc.prems(3) c show ?thesis by (simp add: run_netstack_loop_def)
  qed
qed

text \<open>
  \<^bold>\<open>C6.\<close> Through the whole life of the stack a connection is two byte streams: on any run in
  which the client keeps its receiving end, what the socket has accepted followed by what still waits
  is extended by exactly the data of the send messages for this connection that were taken from the
  control channel, in their order, and what the client received is extended by exactly what came out
  of the socket.
\<close>

theorem netstack_streams:
  assumes "socket_set_laws S" and "recv_laws S queued packets" and "tcp_laws S sent got"
    and "stack_inv S (sk_stack w)" and "unat (ns_next_id (sk_stack w)) + length (sk_queue w) < 2 ^ 64"
    and "unat k < unat (ns_next_id (sk_stack w))" and "gone k = (\<lambda>_. False)"
    and "run_netstack_loop S gone closed fuel w = (r, w')"
  shows "\<exists>ms. sk_queue w = ms @ sk_queue w' \<and>
    (case conn_view S sent got k (sk_stack w') of
       None \<Rightarrow> True
     | Some (up', out', down') \<Rightarrow> \<exists>up out down d. conn_view S sent got k (sk_stack w) = Some (up, out, down) \<and>
         up' = up @ conn_payloads k ms \<and> out' = out @ d \<and> down' = down @ d)"
proof -
  have "thread_inv S w" using assms(4,5) by (simp add: thread_inv_def room_defs)
  from run_netstack_consumes [OF assms(1-3,7) this assms(6,8)] obtain ms where ms: "sk_queue w = ms @ sk_queue w'"
    "advances S sent got k (conn_payloads k ms) (sk_stack w) (sk_stack w')" by (auto simp: consumes_def)
  show ?thesis
  proof (intro exI conjI)
    show "sk_queue w = ms @ sk_queue w'" by (fact ms(1))
    show "case conn_view S sent got k (sk_stack w') of
       None \<Rightarrow> True
     | Some (up', out', down') \<Rightarrow> \<exists>up out down d. conn_view S sent got k (sk_stack w) = Some (up, out, down) \<and>
         up' = up @ conn_payloads k ms \<and> out' = out @ d \<and> down' = down @ d"
      using ms(2) by (auto simp: advances_def split: option.split)
  qed
qed

section \<open>Closing\<close>

lemma send_chunks_stopped: "\<not> ts_can_send S t \<Longrightarrow> send_chunks S cs t = (cs, False, t)"
  by (cases cs) auto


section \<open>Local ports\<close>

definition port_after :: "nat \<Rightarrow> u16" where
  "port_after n = ((\<lambda>p. snd (alloc_local_port p)) ^^ n) 40000"

lemma port_after: "unat (port_after n) = 40000 + n mod 20001"
proof (induction n)
  case 0
  show ?case by (simp add: port_after_def)
next
  case (Suc n)
  have s: "port_after (Suc n) = (if 60000 \<le> port_after n then 40000 else port_after n + 1)"
    by (simp add: port_after_def alloc_local_port_def)
  show ?case
  proof (cases "n mod 20001 = 20000")
    case True
    with Suc have "60000 \<le> port_after n" by (simp add: word_le_nat_alt)
    moreover from True have "Suc n mod 20001 = 0" by (simp add: mod_Suc)
    ultimately show ?thesis by (simp add: s)
  next
    case False
    then have l: "n mod 20001 < 20000" using mod_less_divisor [of 20001 n] by linarith
    with Suc have u: "unat (port_after n) < 60000" by simp
    then have "\<not> 60000 \<le> port_after n" by (simp add: word_le_nat_alt)
    moreover from u have "unat (port_after n + 1) = Suc (unat (port_after n))"
      by (simp add: unat_word_ariths)
    moreover from False have "Suc n mod 20001 = Suc (n mod 20001)" by (simp add: mod_Suc)
    ultimately show ?thesis using Suc by (simp add: s)
  qed
qed

text \<open>
  \<^bold>\<open>C36.\<close> The local ports: the allocation that follows \<open>n\<close> others gives port
  \<open>40000 + n mod 20001\<close>, so that every port is one of 40000 to 60000 and no port is given out again
  before 20001 others have been.
\<close>

theorem local_ports_cycle:
  "unat (fst (alloc_local_port (port_after n))) = 40000 + n mod 20001"
  by (simp add: alloc_local_port_def port_after)

section \<open>A small stack\<close>

text \<open>
  A socket set as an association list, TCP sockets with a send buffer of four bytes that every poll
  empties, and a received text; UDP sockets that receive nothing.
\<close>

record toy_tcp =
  tt_sent :: bytes
  tt_free :: nat
  tt_rx :: bytes
  tt_got :: bytes
  tt_sending :: bool
  tt_open :: bool

definition toy_poll_socket :: "(toy_tcp, unit) any_socket \<Rightarrow> (toy_tcp, unit) any_socket" where
  "toy_poll_socket x =
     (case x of Tcp_Socket t \<Rightarrow> Tcp_Socket (t\<lparr>tt_free := 4, tt_open := tt_sending t\<rparr>) | Udp_Socket u \<Rightarrow> Udp_Socket u)"

definition toy_smoltcp :: "(unit, (nat \<times> (toy_tcp, unit) any_socket) list, toy_tcp, unit) smoltcp" where
  "toy_smoltcp =
     \<lparr>if_new = (\<lambda>seed ip. ()),
      if_poll_delay = (\<lambda>now s i. (Some 10, i)),
      if_poll = (\<lambda>now q s i. ([], [], map (\<lambda>(h, x). (h, toy_poll_socket x)) s, i)),
      set_empty = [],
      set_add = (\<lambda>x s. (Suc (sum_list (map fst s)), (Suc (sum_list (map fst s)), x) # s)),
      set_get = map_of,
      set_put = AList.update,
      set_remove = AList.delete,
      ts_new = (\<lambda>rx tx. \<lparr>tt_sent = [], tt_free = 4, tt_rx = [], tt_got = [], tt_sending = False, tt_open = False\<rparr>),
      ts_connect = (\<lambda>target port i t. (Inr (), i, t\<lparr>tt_rx := [72, 105], tt_sending := True, tt_open := True\<rparr>)),
      ts_can_send = (\<lambda>t. tt_sending t \<and> 0 < tt_free t),
      ts_send = (\<lambda>d t. (Inr (min (tt_free t) (length d)),
         t\<lparr>tt_sent := tt_sent t @ take (min (tt_free t) (length d)) d, tt_free := tt_free t - length d\<rparr>)),
      ts_can_recv = (\<lambda>t. tt_rx t \<noteq> []),
      ts_recv = (\<lambda>n t. (Inr (take n (tt_rx t)), t\<lparr>tt_rx := drop n (tt_rx t), tt_got := tt_got t @ take n (tt_rx t)\<rparr>)),
      ts_may_send = tt_sending,
      ts_close = (\<lambda>t. t\<lparr>tt_sending := False\<rparr>),
      ts_is_open = tt_open,
      us_new = (\<lambda>rx tx. ()),
      us_bind = (\<lambda>port u. (Inr (), u)),
      us_can_send = (\<lambda>u. True),
      us_send = (\<lambda>d target u. (Inr (), u)),
      us_can_recv = (\<lambda>u. False),
      us_recv = (\<lambda>n u. (Inl (), u)),
      us_close = (\<lambda>u. u),
      us_is_open = (\<lambda>u. True)\<rparr>"

lemma toy_fresh: "Suc (sum_list (map fst s)) \<notin> fst ` set s"
proof
  assume "Suc (sum_list (map fst s)) \<in> fst ` set s"
  then have "Suc (sum_list (map fst s)) \<in> set (map fst s)" by simp
  then have "Suc (sum_list (map fst s)) \<le> sum_list (map fst s)" by (rule member_le_sum_list) simp_all
  then show False by simp
qed

lemma toy_poll_map: "map_of (map (\<lambda>(h, x). (h, toy_poll_socket x)) s) h = map_option toy_poll_socket (map_of s h)"
  by (induction s) auto

lemma toy_poll_kind [simp]: "is_tcp (toy_poll_socket x) = is_tcp x"
  by (simp add: toy_poll_socket_def is_tcp_def split: any_socket.splits)

lemma toy_set_laws: "socket_set_laws toy_smoltcp"
  using toy_fresh
  by (auto simp: socket_set_laws_def toy_smoltcp_def socket_kinds_def toy_poll_map map_of_eq_None_iff update_conv'
      delete_conv' option.map_comp comp_def fun_eq_iff)

lemma toy_recv_laws: "recv_laws toy_smoltcp (\<lambda>t. length (tt_rx t)) (\<lambda>u. 0)"
  by (auto simp: recv_laws_def toy_smoltcp_def)

lemma toy_poll_tcp: "toy_poll_socket (Tcp_Socket t) = Tcp_Socket (t\<lparr>tt_free := 4, tt_open := tt_sending t\<rparr>)"
  by (simp add: toy_poll_socket_def)

lemma toy_tcp_laws: "tcp_laws toy_smoltcp tt_sent tt_got"
  by (auto simp: tcp_laws_def tcp_send_law_def tcp_recv_law_def tcp_quiet_law_def toy_smoltcp_def toy_poll_map
      toy_poll_tcp)

definition toy_globals :: "unit tunnel_globals" where
  "toy_globals = \<lparr>tg_sender = None, tg_receiver = None, tg_command = None, tg_fatal = None\<rparr>"

definition toy_thread :: "control_queue \<Rightarrow> (unit, (nat \<times> (toy_tcp, unit) any_socket) list, unit) stack_thread" where
  "toy_thread queue = \<lparr>sk_now = 0, sk_queue = queue, sk_stack = netstack_start toy_smoltcp None [10, 1, 2, 3],
     sk_warned = False, sk_globals = toy_globals, sk_warnings = []\<rparr>"

theorem netstack_never_stuck_witness:
  "case run_netstack_loop toy_smoltcp (\<lambda>_ _. False) False 9
      (toy_thread [(3, Open (Sock_V4 (Ipv4 10 1 1 1) 80)), (4, Send 1 [1, 2, 3, 4, 5, 6]), (60, Close 1)]) of
    (r, w') \<Rightarrow> stack_inv toy_smoltcp (sk_stack w') \<and> (r = None \<or> r = Some Stack_Idle)"
proof -
  let ?w = "toy_thread [(3, Open (Sock_V4 (Ipv4 10 1 1 1) 80)), (4, Send 1 [1, 2, 3, 4, 5, 6]), (60, Close 1)]"
  have "sk_stack ?w = netstack_start toy_smoltcp None [10, 1, 2, 3]" "length (sk_queue ?w) < 2 ^ 64 - 1"
    by (simp_all add: toy_thread_def)
  from netstack_never_stuck [OF toy_set_laws toy_recv_laws this, where gone = "\<lambda>_ _. False" and closed = False and fuel = 9] show ?thesis
    by (simp add: case_prod_beta)
qed

text \<open>The stack after it has opened connection 1.\<close>

definition toy_opened :: "control_queue \<Rightarrow> (unit, (nat \<times> (toy_tcp, unit) any_socket) list, unit) stack_thread" where
  "toy_opened queue =
     (snd (run_netstack_loop toy_smoltcp (\<lambda>_ _. False) False 1 (toy_thread [(3, Open (Sock_V4 (Ipv4 10 1 1 1) 80))])))
     \<lparr>sk_queue := queue\<rparr>"

lemma toy_opened_view:
  "unat (ns_next_id (sk_stack (toy_opened queue))) = 2"
  "conn_view toy_smoltcp tt_sent tt_got 1 (sk_stack (toy_opened queue)) = Some ([], [72, 105], [72, 105])"
  by code_simp+

theorem netstack_streams_witness:
  "\<exists>ms. [(4, Send 1 [1, 2, 3, 4, 5, 6]), (60, Close 2), (90, Send 1 [7])] = ms @ [(90, Send 1 [7])] \<and>
    [1, 2, 3, 4, 5, 6] = conn_payloads 1 ms"
proof -
  let ?q = "[(4, Send 1 [1, 2, 3, 4, 5, 6]), (60, Close 2), (90, Send 1 [7])]"
  let ?run = "run_netstack_loop toy_smoltcp (\<lambda>_ _. False) False 8 (toy_opened ?q)"
  have "thread_inv toy_smoltcp (toy_thread [(3, Open (Sock_V4 (Ipv4 10 1 1 1) 80))])"
    using stack_inv_start [OF toy_set_laws, of None "[10, 1, 2, 3]"]
    by (simp add: thread_inv_def room_defs toy_thread_def netstack_start_def)
  from run_netstack_inv [OF toy_set_laws toy_recv_laws this, of "\<lambda>_ _. False" False 1]
  have inv: "stack_inv toy_smoltcp (sk_stack (toy_opened ?q))"
    by (simp add: thread_inv_def toy_opened_def case_prod_beta prod_eq_iff)
  have room: "unat (ns_next_id (sk_stack (toy_opened ?q))) + length (sk_queue (toy_opened ?q)) < 2 ^ 64"
    unfolding toy_opened_view by (simp add: toy_opened_def)
  have k: "unat (1 :: u64) < unat (ns_next_id (sk_stack (toy_opened ?q)))" unfolding toy_opened_view by simp
  have v: "conn_view toy_smoltcp tt_sent tt_got 1 (sk_stack (snd ?run)) = Some ([1, 2, 3, 4, 5, 6], [72, 105], [72, 105])"
    by code_simp
  have q: "sk_queue (snd ?run) = [(90, Send 1 [7])]" by code_simp
  have g: "(\<lambda>_ _. False) (1 :: u64) = (\<lambda>_ :: nat. False)" by simp
  have "sk_queue (toy_opened ?q) = ?q" by (simp add: toy_opened_def)
  with netstack_streams [OF toy_set_laws toy_recv_laws toy_tcp_laws inv room k g prod.collapse [symmetric]] v q
    toy_opened_view(2) [of ?q]
  show ?thesis by auto
qed


end
