(* ===== verification/Process.thy ===== *)
theory Process
  imports App SocksServer StackStreams "HOL-Library.Sublist"
begin

text \<open>
  A serving process as one transition system: the tunnel's threads, the forwarding thread of
  \<^verbatim>\<open>start_runtime\<close> (\<^verbatim>\<open>netstack.rs\<close>), the network stack, and any number of SOCKS clients, which share the
  statics of \<^verbatim>\<open>protocol.rs\<close>, the channel of received packets, the control channel of the stack and the
  router. A step is one iteration of a thread's loop, or one call of a client; every interleaving is a
  run. A plan of the router is one step; \<open>Caches\<close> stands for what other plans and the time do to its
  caches in between.
\<close>

section \<open>State\<close>

text \<open>
  \<open>pr_channel\<close>: the packets the receiving worker has sent and the forwarding thread has not taken;
  \<open>pr_forwarding\<close>: that thread runs; \<open>pr_requests\<close>: everything sent over the control channel so far.
\<close>

record ('ifc, 'set, 'rx) process =
  pr_router :: router_state
  pr_tunnel :: "'rx tunnel_system"
  pr_channel :: "bytes list"
  pr_forwarding :: bool
  pr_stack :: "('ifc, 'set, 'rx) stack_thread option"
  pr_requests :: "control_message list"

text \<open>The process as \<^verbatim>\<open>app.rs\<close> leaves it; \<open>nanos\<close> is the time since the epoch that seeds the stack.\<close>

definition process_of :: "('ifc, 'set, 'tcp, 'udp) smoltcp \<Rightarrow> nat option \<Rightarrow> 'rx running \<Rightarrow> 'rx app_state
    \<Rightarrow> ('ifc, 'set, 'rx) process" where
  "process_of S nanos running w =
     \<lparr>pr_router = as_router w,
      pr_tunnel = system_of (rn_threads running) (as_globals w),
      pr_channel = [], pr_forwarding = True,
      pr_stack = Some \<lparr>sk_now = vt_now (as_time w), sk_queue = [],
        sk_stack = netstack_start S nanos (tp_assigned_ip (th_params (rn_threads running))),
        sk_warned = False, sk_globals = as_globals w, sk_warnings = []\<rparr>,
      pr_requests = []\<rparr>"

text \<open>Messages sent over the control channel arrive there at the times \<open>arrivals\<close>.\<close>

definition post :: "nat list \<Rightarrow> control_message list \<Rightarrow> ('ifc, 'set, 'rx) process \<Rightarrow> ('ifc, 'set, 'rx) process" where
  "post arrivals msgs s =
     s\<lparr>pr_requests := pr_requests s @ msgs,
       pr_stack := map_option (\<lambda>t. t\<lparr>sk_queue := sk_queue t @ zip arrivals msgs\<rparr>) (pr_stack s)\<rparr>"

text \<open>What the receiving worker sent in a step.\<close>

definition rx_new :: "rx_state option \<Rightarrow> rx_state option \<Rightarrow> bytes list" where
  "rx_new before after =
     (case (before, after) of
        (Some w, Some w') \<Rightarrow> drop (length (rx_sent w)) (rx_sent w')
      | _ \<Rightarrow> [])"

text \<open>What has been sent to the sending worker; what the stack adds arrives at the times \<open>arrivals\<close>.\<close>

definition sent_items :: "'rx tunnel_globals \<Rightarrow> bytes list" where
  "sent_items g = (case tg_sender g of None \<Rightarrow> [] | Some ch \<Rightarrow> ch_items ch)"

definition write_back :: "nat list \<Rightarrow> 'rx tunnel_globals \<Rightarrow> 'rx tunnel_system \<Rightarrow> 'rx tunnel_system" where
  "write_back arrivals g t =
     t\<lparr>sys_globals := g,
       sys_tx := map_option (\<lambda>w. w\<lparr>tx_queue := tx_queue w @
         zip arrivals (drop (length (sent_items (sys_globals t))) (sent_items g))\<rparr>) (sys_tx t)\<rparr>"

definition stack_replies :: "('ifc, 'set, 'rx) process \<Rightarrow> control_reply list" where
  "stack_replies s = (case pr_stack s of None \<Rightarrow> [] | Some t \<Rightarrow> ns_replies (sk_stack t))"

section \<open>What clients ask of the stack\<close>

definition connect_messages :: "u64 socks_env \<Rightarrow> bool \<Rightarrow> reply_wait \<Rightarrow> route_decision \<Rightarrow> control_message list" where
  "connect_messages E alive reply route =
     (case rd_transport route of
        Via_Tunnel dial \<Rightarrow> snd (open_tcp_connection True alive (re_resolver (se_route E)) reply dial)
      | _ \<Rightarrow> [])"

definition datagram_messages :: "bool \<Rightarrow> u64 \<Rightarrow> bytes \<Rightarrow> udp_route_decision \<Rightarrow> control_message list" where
  "datagram_messages alive cid data route =
     (case ud_transport route of
        Udp_Tunnel target \<Rightarrow> snd (udp_sender_send alive cid target data)
      | Udp_Unsupported _ \<Rightarrow> [])"

text \<open>
  A call of a client's thread: the messages it sends to the stack and the router after it. The ids are
  those the stack has replied with. Every call has its own environment: the network, the resolver and
  the time are what they are at that moment.
\<close>

inductive client_call :: "u64 socks_env \<Rightarrow> fallback_proxy option \<Rightarrow> bool \<Rightarrow> control_reply list \<Rightarrow> router_state
    \<Rightarrow> control_message list \<Rightarrow> router_state \<Rightarrow> bool"
  for E :: "u64 socks_env" and fb :: "fallback_proxy option" and alive :: bool and replies :: "control_reply list"
  where
  Call_Connect: "decide_route E target fb r = (route, logs, r') \<Longrightarrow>
    client_call E fb alive replies r (connect_messages E alive reply route) r'"
| Call_Associate: "client_call E fb alive replies r (snd (open_udp_association True alive reply)) r"
| Call_Datagram: "Opened_Udp (Inr cid) \<in> set replies \<Longrightarrow> decide_udp_route E target fb r = (route, logs, r') \<Longrightarrow>
    client_call E fb alive replies r (datagram_messages alive cid data route) r'"
| Call_Send: "Opened (Inr cid) \<in> set replies \<Longrightarrow>
    client_call E fb alive replies r (snd (tcp_sender_send alive cid data)) r"
| Call_Close: "Opened (Inr cid) \<in> set replies \<Longrightarrow>
    client_call E fb alive replies r (snd (tcp_sender_close alive cid)) r"
| Call_Close_Udp: "Opened_Udp (Inr cid) \<in> set replies \<Longrightarrow>
    client_call E fb alive replies r (snd (udp_sender_close alive cid)) r"

section \<open>Steps\<close>

text \<open>
  The control channel of the stack never closes: a static holds one of its senders. A stack that waits
  for ever (\<open>Stack_Idle\<close>) makes its step when a message has arrived.
\<close>

inductive process_step :: "('ifc, 'set, 'tcp, 'udp) smoltcp \<Rightarrow> (u64 \<Rightarrow> nat \<Rightarrow> bool) \<Rightarrow> vpn_lib \<Rightarrow> vpn_lib
    \<Rightarrow> tunnel_params \<Rightarrow> fallback_proxy option \<Rightarrow> ('ifc, 'set, 'rx) process \<Rightarrow> ('ifc, 'set, 'rx) process \<Rightarrow> bool"
  for S :: "('ifc, 'set, 'tcp, 'udp) smoltcp" and gone :: "u64 \<Rightarrow> nat \<Rightarrow> bool" and Lr Lt :: vpn_lib
    and P :: tunnel_params and fb :: "fallback_proxy option" where
  Threads: "worker_step (\<lambda>_. \<not> pr_forwarding s) Lr Lt P (pr_tunnel s) t' \<Longrightarrow>
    process_step S gone Lr Lt P fb s
      (s\<lparr>pr_tunnel := t', pr_channel := pr_channel s @ rx_new (sys_rx (pr_tunnel s)) (sys_rx t')\<rparr>)"
| Forward: "pr_forwarding s \<Longrightarrow> pr_channel s = packet # rest \<Longrightarrow> pr_stack s = Some t \<Longrightarrow>
    process_step S gone Lr Lt P fb s (post [a] [Tunnel_Packet packet] (s\<lparr>pr_channel := rest\<rparr>))"
| Forward_Fails: "pr_forwarding s \<Longrightarrow> pr_channel s = packet # rest \<Longrightarrow> pr_stack s = None \<Longrightarrow>
    process_step S gone Lr Lt P fb s (s\<lparr>pr_channel := rest, pr_forwarding := False\<rparr>)"
| Forward_Ends: "pr_forwarding s \<Longrightarrow> pr_channel s = [] \<Longrightarrow> sys_rx (pr_tunnel s) = None \<Longrightarrow>
    process_step S gone Lr Lt P fb s (s\<lparr>pr_forwarding := False\<rparr>)"
| Stack: "pr_stack s = Some t \<Longrightarrow>
    netstack_iteration S gone False (t\<lparr>sk_globals := sys_globals (pr_tunnel s)\<rparr>) = (None, t') \<Longrightarrow>
    length (sent_items (sk_globals t')) \<le> length (sent_items (sys_globals (pr_tunnel s))) + length arrivals \<Longrightarrow>
    process_step S gone Lr Lt P fb s
      (s\<lparr>pr_stack := Some t', pr_tunnel := write_back arrivals (sk_globals t') (pr_tunnel s)\<rparr>)"
| Stack_Ends: "pr_stack s = Some t \<Longrightarrow>
    netstack_iteration S gone False (t\<lparr>sk_globals := sys_globals (pr_tunnel s)\<rparr>) = (Some outcome, t') \<Longrightarrow>
    outcome \<noteq> Stack_Idle \<Longrightarrow>
    length (sent_items (sk_globals t')) \<le> length (sent_items (sys_globals (pr_tunnel s))) + length arrivals \<Longrightarrow>
    process_step S gone Lr Lt P fb s
      (s\<lparr>pr_stack := None, pr_tunnel := write_back arrivals (netstack_closed outcome (sk_globals t')) (pr_tunnel s)\<rparr>)"
| Client: "client_call E fb (pr_stack s \<noteq> None) (stack_replies s) (pr_router s) msgs r' \<Longrightarrow> length arrivals = length msgs \<Longrightarrow>
    process_step S gone Lr Lt P fb s (post arrivals msgs (s\<lparr>pr_router := r'\<rparr>))"
| Caches: "process_step S gone Lr Lt P fb s (s\<lparr>pr_router := (pr_router s)\<lparr>router_dns := d\<rparr>\<rparr>)"

inductive process_run :: "('ifc, 'set, 'tcp, 'udp) smoltcp \<Rightarrow> (u64 \<Rightarrow> nat \<Rightarrow> bool) \<Rightarrow> vpn_lib \<Rightarrow> vpn_lib
    \<Rightarrow> tunnel_params \<Rightarrow> fallback_proxy option \<Rightarrow> ('ifc, 'set, 'rx) process \<Rightarrow> nat \<Rightarrow> ('ifc, 'set, 'rx) process \<Rightarrow> bool"
  for S :: "('ifc, 'set, 'tcp, 'udp) smoltcp" and gone :: "u64 \<Rightarrow> nat \<Rightarrow> bool" and Lr Lt :: vpn_lib
    and P :: tunnel_params and fb :: "fallback_proxy option" and s :: "('ifc, 'set, 'rx) process" where
  Process_Start: "process_run S gone Lr Lt P fb s 0 s"
| Process_Step: "process_run S gone Lr Lt P fb s n s' \<Longrightarrow> process_step S gone Lr Lt P fb s' s'' \<Longrightarrow>
    process_run S gone Lr Lt P fb s (Suc n) s''"

inductive_cases client_callE: "client_call E fb alive replies r msgs r'"
inductive_cases process_stepE: "process_step S gone Lr Lt P fb s s'"

section \<open>What an iteration of the stack may do\<close>

text \<open>
  The stack only sends over the statics of the tunnel; it takes messages from the front of its queue;
  it adds replies, to ids it has not given out before.
\<close>

definition only_sends :: "'rx tunnel_globals \<Rightarrow> 'rx tunnel_globals \<Rightarrow> bool" where
  "only_sends g g' \<longleftrightarrow> (\<exists>items. g' = g\<lparr>tg_sender := map_option (\<lambda>ch. ch\<lparr>ch_items := ch_items ch @ items\<rparr>) (tg_sender g)\<rparr>)"

definition replied_below :: "('ifc, 'set) netstack \<Rightarrow> bool" where
  "replied_below st \<longleftrightarrow> (\<forall>k. Opened (Inr k) \<in> set (ns_replies st) \<or> Opened_Udp (Inr k) \<in> set (ns_replies st) \<longrightarrow>
     unat k < unat (ns_next_id st))"

definition replies_grow :: "('ifc, 'set) netstack \<Rightarrow> ('ifc, 'set) netstack \<Rightarrow> bool" where
  "replies_grow st st' \<longleftrightarrow> prefix (ns_replies st) (ns_replies st') \<and> (replied_below st \<longrightarrow> replied_below st')"

lemma only_sends_refl: "only_sends g g"
  by (cases "tg_sender g") (auto simp: only_sends_def intro!: exI [of _ "[]"])

lemma only_sends_trans: "only_sends a b \<Longrightarrow> only_sends b c \<Longrightarrow> only_sends a c"
  by (cases "tg_sender a") (auto simp: only_sends_def)

lemma replies_grow_trans: "replies_grow a b \<Longrightarrow> replies_grow b c \<Longrightarrow> replies_grow a c"
  by (auto simp: replies_grow_def)

lemma replies_grow_same:
  "ns_replies st' = ns_replies st \<Longrightarrow> ns_next_id st' = ns_next_id st \<Longrightarrow> replies_grow st st'"
  by (auto simp: replies_grow_def replied_below_def)

lemma send_only_sends: "send_tunnel_packet frame g = (r, g') \<Longrightarrow> only_sends g g'"
proof (cases "r = Inr ()")
  case True
  moreover assume "send_tunnel_packet frame g = (r, g')"
  ultimately show ?thesis
    by (auto simp: send_tunnel_packet_def only_sends_def intro!: exI [of _ "[frame]"] split: option.splits if_splits)
next
  case False
  moreover assume "send_tunnel_packet frame g = (r, g')"
  ultimately have "g' = g" by (auto simp: send_tunnel_packet_def split: option.splits if_splits)
  then show ?thesis by (simp add: only_sends_refl)
qed

lemma device_transmit_only_sends:
  assumes "device_transmit frame (warned, g) = (ws, warned', g')"
  shows "only_sends g g'"
proof -
  obtain r g1 where s: "send_tunnel_packet frame g = (r, g1)" by fastforce
  from assms s have "g' = g1" by (auto simp: device_transmit_def Let_def split: sum.splits if_splits)
  with send_only_sends [OF s] show ?thesis by simp
qed

lemma transmit_frames_only_sends: "only_sends (sk_globals w) (sk_globals (transmit_frames frames w))"
proof (induction frames arbitrary: w)
  case (Cons frame frames)
  obtain ws warned g where d: "device_transmit frame (sk_warned w, sk_globals w) = (ws, warned, g)"
    by (metis prod_cases3)
  from only_sends_trans [OF device_transmit_only_sends [OF d]]
    Cons.IH [of "w\<lparr>sk_warned := warned, sk_globals := g, sk_warnings := sk_warnings w @ ws\<rparr>"] d
  show ?case by simp
qed (simp add: only_sends_refl)

lemma open_connection_replies:
  assumes "open_connection S target st = Some (r, st')"
  shows "ns_replies st' = ns_replies st \<and>
   (case r of Inr k \<Rightarrow> k = ns_next_id st \<and> ns_next_id st' = ns_next_id st + 1 | Inl _ \<Rightarrow> ns_next_id st' = ns_next_id st)"
proof -
  obtain h sockets where a: "set_add S (Tcp_Socket (ts_new S SOCKET_BUFFER_CAPACITY SOCKET_BUFFER_CAPACITY))
      (ns_sockets st) = (h, sockets)" by fastforce
  obtain p q where p: "alloc_local_port (ns_next_port st) = (p, q)" by fastforce
  from assms a p obtain sock where s: "Option.bind (set_get S sockets h) tcp_of = Some sock"
    by (auto simp: open_connection_def bind_eq_Some_conv)
  obtain x iface sock' where c: "ts_connect S target p (ns_iface st) sock = (x, iface, sock')" by (metis prod_cases3)
  from assms a p s c show ?thesis by (cases x) (auto simp: open_connection_def bind_eq_Some_conv)
qed

lemma open_udp_replies:
  assumes "open_udp_association_inner S st = (r, st')"
  shows "ns_replies st' = ns_replies st \<and>
   (case r of Inr k \<Rightarrow> k = ns_next_id st \<and> ns_next_id st' = ns_next_id st + 1 | Inl _ \<Rightarrow> ns_next_id st' = ns_next_id st)"
proof -
  obtain p q where p: "alloc_local_port (ns_next_port st) = (p, q)" by fastforce
  obtain x sock where b: "us_bind S p
      (us_new S (UDP_PACKET_CAPACITY, UDP_BUFFER_CAPACITY) (UDP_PACKET_CAPACITY, UDP_BUFFER_CAPACITY)) = (x, sock)"
    by fastforce
  obtain h sockets where a: "set_add S (Udp_Socket sock) (ns_sockets st) = (h, sockets)" by fastforce
  from assms [unfolded open_udp_association_inner_def p prod.case b a] show ?thesis by (cases x) auto
qed

lemma unat_next: "unat (k :: u64) < 2 ^ 64 - 1 \<Longrightarrow> unat (k + 1) = Suc (unat k)"
  by (simp add: unat_word_ariths)

lemma message_replies:
  assumes "handle_control_message S msg st = Some st'" and "unat (ns_next_id st) < 2 ^ 64 - 1"
  shows "replies_grow st st'"
proof (cases msg)
  case (Open target)
  with assms(1) obtain r st1 where o: "open_connection S target st = Some (r, st1)"
    "st' = st1\<lparr>ns_replies := ns_replies st1 @ [Opened r]\<rparr>" by (auto simp: bind_eq_Some_conv)
  from open_connection_replies [OF o(1)] o(2) unat_next [OF assms(2)] show ?thesis
    by (auto simp: replies_grow_def replied_below_def split: sum.splits)
next
  case Open_Udp
  obtain r st1 where o: "open_udp_association_inner S st = (r, st1)" by fastforce
  from open_udp_replies [OF o] o assms(1) Open_Udp unat_next [OF assms(2)] show ?thesis
    by (auto simp: replies_grow_def replied_below_def split: sum.splits)
qed (use assms(1) in \<open>auto intro!: replies_grow_same\<close>)

lemma drive_all_replies: "drive_all S gone st = Some st' \<Longrightarrow> ns_replies st' = ns_replies st \<and> ns_next_id st' = ns_next_id st"
  by (auto simp: drive_all_def bind_eq_Some_conv split: prod.splits)

lemma batch_loop_grows:
  assumes "socket_set_laws S"
  shows "stack_inv S st \<Longrightarrow> room st queue \<Longrightarrow> batch_loop S closed now n queue st = Some (r, queue', st') \<Longrightarrow>
    suffix queue' queue \<and> replies_grow st st'"
proof (induction n arbitrary: queue st)
  case 0
  then show ?case by (simp add: replies_grow_same)
next
  case (Suc n)
  obtain x later rest where t: "recv_timeout now 0 closed queue = (x, later, rest)"
    by (cases "recv_timeout now 0 closed queue") auto
  show ?case
  proof (cases "\<exists>m. queue = m # rest \<and> x = Received (snd m)")
    case True
    then obtain m where m: "queue = m # rest" "x = Received (snd m)" by blast
    from Suc.prems(2) m have u: "unat (ns_next_id st) < 2 ^ 64 - 1" by (simp add: room_defs)
    from handle_control_message_inv [OF assms Suc.prems(1) u, of "snd m"] obtain st1 where st1:
      "handle_control_message S (snd m) st = Some st1" "stack_inv S st1"
      "unat (ns_next_id st1) \<le> Suc (unat (ns_next_id st))" by blast
    with Suc.prems(2) m have "room st1 rest" by (simp add: room_defs)
    moreover from Suc.prems(3) t m st1(1) have "batch_loop S closed now n rest st1 = Some (r, queue', st')" by simp
    ultimately have "suffix queue' rest \<and> replies_grow st1 st'" using Suc.IH [OF st1(2)] by blast
    with message_replies [OF st1(1) u] m(1) show ?thesis by (auto intro: replies_grow_trans suffix_ConsI)
  next
    case False
    with recv_timeout_rest [OF t] t Suc.prems(3) show ?thesis by (auto simp: replies_grow_same)
  qed
qed

lemma process_control_batch_grows:
  assumes "socket_set_laws S" and "stack_inv S st" and "room st (m # queue)"
    and "process_control_batch S closed now (snd m) queue st = Some (r, queue', st')"
  shows "suffix queue' queue \<and> replies_grow st st'"
proof -
  from assms(3) have u: "unat (ns_next_id st) < 2 ^ 64 - 1" by (simp add: room_defs)
  from handle_control_message_inv [OF assms(1,2) u, of "snd m"] obtain st1 where st1:
    "handle_control_message S (snd m) st = Some st1" "stack_inv S st1"
    "unat (ns_next_id st1) \<le> Suc (unat (ns_next_id st))" by blast
  with assms(3) have "room st1 queue" by (simp add: room_defs)
  with batch_loop_grows [OF assms(1) st1(2)] assms(4) st1(1) have "suffix queue' queue \<and> replies_grow st1 st'"
    by (simp add: process_control_batch_def)
  with message_replies [OF st1(1) u] replies_grow_trans show ?thesis by blast
qed

text \<open>All of it about one iteration of the thread.\<close>

definition takes_turn :: "('ifc, 'set, 'rx) stack_thread \<Rightarrow> ('ifc, 'set, 'rx) stack_thread \<Rightarrow> bool" where
  "takes_turn w w' \<longleftrightarrow> suffix (sk_queue w') (sk_queue w) \<and> replies_grow (sk_stack w) (sk_stack w') \<and>
     only_sends (sk_globals w) (sk_globals w')"

lemma poll_and_drive_turn:
  assumes "poll_and_drive S gone w = (r, w')"
  shows "sk_queue w' = sk_queue w \<and> replies_grow (sk_stack w) (sk_stack w') \<and> only_sends (sk_globals w) (sk_globals w')"
proof -
  obtain d fs s i where p: "if_poll S (sk_now w) (ns_device (sk_stack w)) (ns_sockets (sk_stack w)) (ns_iface (sk_stack w)) =
    (d, fs, s, i)" by (metis prod_cases4)
  let ?st = "(sk_stack w)\<lparr>ns_device := d, ns_sockets := s, ns_iface := i\<rparr>"
  have s: "only_sends (sk_globals w) (sk_globals (transmit_frames fs (w\<lparr>sk_stack := ?st\<rparr>)))"
    using transmit_frames_only_sends [of "w\<lparr>sk_stack := ?st\<rparr>" fs] by simp
  show ?thesis
  proof (cases "drive_all S gone ?st")
    case None
    with assms p s show ?thesis by (auto simp: poll_and_drive_def Let_def replies_grow_same)
  next
    case (Some st')
    with drive_all_replies [OF Some] assms p s show ?thesis
      by (auto simp: poll_and_drive_def Let_def intro!: replies_grow_same)
  qed
qed

lemma netstack_iteration_turn:
  assumes "socket_set_laws S" and "thread_inv S w" and "netstack_iteration S gone closed w = (r, w')"
  shows "takes_turn w w'"
proof -
  obtain wait i where p: "if_poll_delay S (sk_now w) (ns_sockets (sk_stack w)) (ns_iface (sk_stack w)) = (wait, i)"
    by fastforce
  let ?st = "(sk_stack w)\<lparr>ns_iface := i\<rparr>"
  have "stack_inv S ?st = stack_inv S (sk_stack w)" by (intro stack_inv_cong) (simp_all add: owners_def)
  with assms(2) have inv: "stack_inv S ?st" "room ?st (sk_queue w)" by (simp_all add: thread_inv_def room_defs)
  have g0: "replies_grow (sk_stack w) ?st" by (simp add: replies_grow_same)
  show ?thesis
  proof (cases "wait_control_message (sk_now w) closed (sk_queue w) wait")
    case None
    with assms(3) p g0 show ?thesis
      by (auto simp: netstack_iteration_def Let_def takes_turn_def only_sends_refl)
  next
    case (Some res)
    then obtain x now queue where x: "wait_control_message (sk_now w) closed (sk_queue w) wait = Some (x, now, queue)"
      by (cases res) auto
    from wait_control_message_rest [OF x] consider
        m where "x = Inr (Some (snd m))" "sk_queue w = m # queue"
      | "x = Inr None" "queue = sk_queue w"
      | "x = Inl control_channel_disconnected_err" "closed" "queue = sk_queue w" by blast
    then show ?thesis
    proof cases
      case 1
      show ?thesis
      proof (cases "process_control_batch S closed now (snd m) queue ?st")
        case None
        with x 1 p assms(3) g0 show ?thesis
          by (auto simp: netstack_iteration_def Let_def takes_turn_def only_sends_refl suffix_ConsI)
      next
        case (Some b)
        then obtain q queue' st' where b: "process_control_batch S closed now (snd m) queue ?st = Some (q, queue', st')"
          by (cases b) auto
        from process_control_batch_grows [OF assms(1) inv(1) _ b] inv(2) 1 have
          c: "suffix queue' (sk_queue w)" "replies_grow (sk_stack w) st'"
          using g0 replies_grow_trans by (auto intro: suffix_ConsI)
        let ?v = "w\<lparr>sk_now := now, sk_queue := queue', sk_stack := st'\<rparr>"
        show ?thesis
        proof (cases q)
          case (Inl e)
          with b x 1 p assms(3) c show ?thesis
            by (auto simp: netstack_iteration_def Let_def takes_turn_def only_sends_refl)
        next
          case (Inr u)
          with b x 1 p assms(3) have "poll_and_drive S gone ?v = (r, w')" by (simp add: netstack_iteration_def Let_def)
          from poll_and_drive_turn [OF this] c show ?thesis by (auto simp: takes_turn_def intro: replies_grow_trans)
        qed
      qed
    next
      case 2
      let ?v = "w\<lparr>sk_stack := ?st, sk_now := now, sk_queue := queue\<rparr>"
      from 2 x p assms(3) have "poll_and_drive S gone ?v = (r, w')" by (simp add: netstack_iteration_def Let_def)
      from poll_and_drive_turn [OF this] 2 g0 show ?thesis by (auto simp: takes_turn_def intro: replies_grow_trans)
    next
      case 3
      with x p assms(3) g0 show ?thesis
        by (auto simp: netstack_iteration_def Let_def takes_turn_def only_sends_refl)
    qed
  qed
qed

section \<open>The stack of a process\<close>

lemma post_simps [simp]:
  "pr_router (post arrivals msgs s) = pr_router s" "pr_tunnel (post arrivals msgs s) = pr_tunnel s"
  "pr_channel (post arrivals msgs s) = pr_channel s" "pr_forwarding (post arrivals msgs s) = pr_forwarding s"
  "pr_requests (post arrivals msgs s) = pr_requests s @ msgs"
  "pr_stack (post arrivals msgs s) = map_option (\<lambda>t. t\<lparr>sk_queue := sk_queue t @ zip arrivals msgs\<rparr>) (pr_stack s)"
  by (simp_all add: post_def)

lemma write_back_simps [simp]:
  "sys_globals (write_back arrivals g t) = g" "sys_rx (write_back arrivals g t) = sys_rx t"
  "sys_heartbeat (write_back arrivals g t) = sys_heartbeat t"
  "sys_tx (write_back arrivals g t) = None \<longleftrightarrow> sys_tx t = None"
  by (simp_all add: write_back_def)

text \<open>The reply that a message to a connection or an association needs to have been given.\<close>

fun needs :: "control_message \<Rightarrow> control_reply option" where
  "needs (Send cid data) = Some (Opened (Inr cid))"
| "needs (Close cid) = Some (Opened (Inr cid))"
| "needs (Send_Udp cid target data) = Some (Opened_Udp (Inr cid))"
| "needs (Close_Udp cid) = Some (Opened_Udp (Inr cid))"
| "needs _ = None"

lemma control_send_sent: "snd (control_send failed alive msg) = (if alive then [msg] else [])"
  by (simp add: control_send_def)

lemma open_tcp_sent:
  "snd (open_tcp_connection True alive lookup reply dial) =
     (case resolve_ipv4_target lookup dial of Inr v4 \<Rightarrow> if alive then [Open v4] else [] | Inl _ \<Rightarrow> [])"
  by (simp add: open_tcp_connection_def control_send_def split: sum.split)

lemmas sent_simps = control_send_sent open_tcp_sent open_udp_association_def tcp_sender_send_def
  tcp_sender_close_def udp_sender_send_def udp_sender_close_def connect_messages_def datagram_messages_def

lemma client_call_messages:
  assumes "client_call E fb alive replies r msgs r'"
  shows "length msgs \<le> 1 \<and> (\<forall>m \<in> set msgs. \<forall>reply. needs m = Some reply \<longrightarrow> reply \<in> set replies)"
  using assms
  by cases (auto simp: sent_simps control_send_def split: route_transport.splits udp_route_transport.splits sum.splits)

text \<open>The stack of the process runs, with its invariant; after \<open>n\<close> steps it has given out at most \<open>n\<close> ids.\<close>

definition stack_runs :: "('ifc, 'set, 'tcp, 'udp) smoltcp \<Rightarrow> nat \<Rightarrow> ('ifc, 'set, 'rx) process \<Rightarrow> bool" where
  "stack_runs S n s \<longleftrightarrow> (\<exists>t. pr_stack s = Some t \<and> stack_inv S (sk_stack t) \<and> thread_load t \<le> Suc n)"

lemma stack_runs_post:
  assumes "stack_runs S n s" and "length msgs \<le> 1"
  shows "stack_runs S (Suc n) (post arrivals msgs s)"
  using assms by (auto simp: stack_runs_def thread_load_def load_def)

lemma stack_runs_cong: "stack_runs S n s \<Longrightarrow> pr_stack s' = pr_stack s \<Longrightarrow> stack_runs S (Suc n) s'"
  by (auto simp: stack_runs_def)

lemma stack_turn:
  assumes "socket_set_laws S" and "recv_laws S queued packets" and "stack_runs S n s" and "Suc n < 2 ^ 64"
    and "pr_stack s = Some t"
    and "netstack_iteration S gone False (t\<lparr>sk_globals := sys_globals (pr_tunnel s)\<rparr>) = (r, t')"
  shows "stack_inv S (sk_stack t') \<and> thread_load t' \<le> Suc n \<and> (r = None \<or> r = Some Stack_Idle) \<and>
    takes_turn (t\<lparr>sk_globals := sys_globals (pr_tunnel s)\<rparr>) t'"
proof -
  let ?w = "t\<lparr>sk_globals := sys_globals (pr_tunnel s)\<rparr>"
  have w: "thread_inv S ?w" "thread_load ?w \<le> Suc n"
    using assms(3-5) by (auto simp: stack_runs_def thread_inv_load thread_load_def)
  from netstack_iteration_inv [OF assms(1,2) w(1) assms(6)] netstack_iteration_turn [OF assms(1) w(1) assms(6)] w(2)
  show ?thesis by (auto simp: quiet_end_def thread_inv_load)
qed

lemma stack_runs_step:
  assumes "socket_set_laws S" and "recv_laws S queued packets" and "stack_runs S n s" and "Suc n < 2 ^ 64"
    and "process_step S gone Lr Lt P fb s s'"
  shows "stack_runs S (Suc n) s'"
  using assms(5)
proof cases
  case (Forward packet rest t a)
  with assms(3) stack_runs_post [of S n "s\<lparr>pr_channel := rest\<rparr>" "[Tunnel_Packet packet]" "[a]"] show ?thesis
    by (simp add: stack_runs_def)
next
  case (Forward_Fails packet rest)
  with assms(3) show ?thesis by (simp add: stack_runs_def)
next
  case (Stack t t' arrivals)
  from stack_turn [OF assms(1-4) Stack(2,3)] Stack(1) show ?thesis by (auto simp: stack_runs_def)
next
  case (Stack_Ends t outcome t' arrivals)
  from stack_turn [OF assms(1-4) Stack_Ends(2,3)] Stack_Ends(4) show ?thesis by simp
next
  case (Client E msgs r' arrivals)
  from client_call_messages [OF Client(2)] assms(3) stack_runs_post [of S n "s\<lparr>pr_router := r'\<rparr>" msgs arrivals] Client(1)
  show ?thesis by (simp add: stack_runs_def)
qed (use assms(3) in \<open>auto intro: stack_runs_cong\<close>)

lemma stack_runs_run:
  assumes "socket_set_laws S" and "recv_laws S queued packets" and "stack_runs S k s"
    and "process_run S gone Lr Lt P fb s n s'"
  shows "k + n < 2 ^ 64 \<Longrightarrow> stack_runs S (k + n) s'"
  using assms(4)
proof (induction rule: process_run.induct)
  case (Process_Step n s' s'')
  then show ?case using stack_runs_step [OF assms(1,2) _ _ Process_Step(2), of "k + n"] by simp
qed (use assms(3) in simp)

text \<open>Every other invariant of a run may use that the stack runs.\<close>

lemma process_run_invariant:
  assumes "socket_set_laws S" and "recv_laws S queued packets" and "stack_runs S k s"
    and "process_run S gone Lr Lt P fb s n s'"
    and "I s" and "\<And>i u v. stack_runs S i u \<Longrightarrow> Suc i < 2 ^ 64 \<Longrightarrow> I u \<Longrightarrow> process_step S gone Lr Lt P fb u v \<Longrightarrow> I v"
  shows "k + n < 2 ^ 64 \<Longrightarrow> I s'"
  using assms(4)
proof (induction rule: process_run.induct)
  case (Process_Step n s' s'')
  then have n: "k + n < 2 ^ 64" "Suc (k + n) < 2 ^ 64" by simp_all
  show ?case
    by (rule assms(6) [OF stack_runs_run [OF assms(1-3) Process_Step(1) n(1)] n(2) Process_Step(3) [OF n(1)] Process_Step(2)])
qed (rule assms(5))

section \<open>Fatal reasons and the forwarding thread\<close>

lemma only_sends_simps:
  assumes "only_sends g g'"
  shows "tg_fatal g' = tg_fatal g" and "prefix (sent_items g) (sent_items g')"
  using assms by (auto simp: only_sends_def sent_items_def split: option.splits)

text \<open>What a turn of the stack leaves of the globals, whose copy it works on.\<close>

lemma stack_turn_globals:
  assumes "takes_turn (t\<lparr>sk_globals := g\<rparr>) t'"
  shows "only_sends g (sk_globals t')" and "suffix (sk_queue t') (sk_queue t)" and "replies_grow (sk_stack t) (sk_stack t')"
  using assms by (simp_all add: takes_turn_def)

lemma fatal_step:
  assumes "socket_set_laws S" and "recv_laws S queued packets" and "stack_runs S n s" and "Suc n < 2 ^ 64"
    and "process_step S gone Lr Lt P fb s s'"
  shows "(exits_recorded (pr_tunnel s) \<longrightarrow> exits_recorded (pr_tunnel s')) \<and>
    (tg_fatal (sys_globals (pr_tunnel s)) = Some r \<longrightarrow> tg_fatal (sys_globals (pr_tunnel s')) = Some r)"
  using assms(5)
proof cases
  case (Threads t')
  with worker_step_exits_recorded [OF Threads(2)] worker_step_fatal [OF Threads(2)] show ?thesis by simp
next
  case (Stack t t' arrivals)
  from stack_turn [OF assms(1-4) Stack(2,3)] have "takes_turn (t\<lparr>sk_globals := sys_globals (pr_tunnel s)\<rparr>) t'" by blast
  from only_sends_simps(1) [OF stack_turn_globals(1) [OF this]] Stack(1) show ?thesis by (simp add: exits_recorded_def)
next
  case (Stack_Ends t outcome t' arrivals)
  from stack_turn [OF assms(1-4) Stack_Ends(2,3)] Stack_Ends(4) show ?thesis by simp
qed simp_all

lemma worker_step_rx:
  assumes "worker_step gone Lr Lt P s s'" and "sys_rx s = None"
  shows "sys_rx s' = None"
  using assms by cases auto

text \<open>The forwarding thread outlives the receiving worker and hands on everything it sent.\<close>

definition forwards :: "('ifc, 'set, 'rx) process \<Rightarrow> bool" where
  "forwards s \<longleftrightarrow> pr_forwarding s \<or> sys_rx (pr_tunnel s) = None \<and> pr_channel s = []"

lemma forwards_step:
  assumes "stack_runs S n s" and "forwards s" and "process_step S gone Lr Lt P fb s s'"
  shows "forwards s'"
  using assms(3)
proof cases
  case (Threads t')
  with assms(2) worker_step_rx [OF Threads(2)] show ?thesis by (auto simp: forwards_def rx_new_def)
qed (use assms(1,2) in \<open>auto simp: forwards_def stack_runs_def\<close>)

section \<open>What the stack is asked\<close>

text \<open>
  Which messages the router's table admits: a connection to an address of a dial target that the table
  justifies for TCP, a datagram to one that it justifies for UDP.
\<close>

definition dialled :: "route_env \<Rightarrow> route_matcher \<Rightarrow> string \<Rightarrow> u16 \<Rightarrow> flow_proto \<Rightarrow> string \<Rightarrow> bool" where
  "dialled env m host port flow dial \<longleftrightarrow>
     (\<exists>rc_id name src. justified env m host port flow (Remote dial rc_id name src))"

lemma dialledI: "justified env m host port flow (Remote dial rc_id name src) \<Longrightarrow> dialled env m host port flow dial"
  by (auto simp: dialled_def)

definition admits :: "route_matcher \<Rightarrow> control_message \<Rightarrow> bool" where
  "admits m msg \<longleftrightarrow>
     (case msg of
        Open v4 \<Rightarrow> \<exists>env host port dial. dialled env m host port Tcp dial \<and>
          resolve_ipv4_target (re_resolver env) dial = Inr v4
      | Send_Udp cid v4 data \<Rightarrow> \<exists>env host port dial. dialled env m host port Udp dial \<and>
          resolve_dial_v4_from_str (re_resolver env) dial = Inr v4
      | _ \<Rightarrow> True)"

lemma admits_Open:
  "dialled env m host port Tcp dial \<Longrightarrow> resolve_ipv4_target (re_resolver env) dial = Inr v4 \<Longrightarrow> admits m (Open v4)"
  unfolding admits_def control_message.case by blast

lemma admits_Send_Udp:
  "dialled env m host port Udp dial \<Longrightarrow> resolve_dial_v4_from_str (re_resolver env) dial = Inr v4 \<Longrightarrow>
   admits m (Send_Udp cid v4 data)"
  unfolding admits_def control_message.case by blast

lemma admits_simps [simp]:
  "admits m (Tunnel_Packet packet)" "admits m Open_Udp" "admits m (Send cid data)" "admits m (Close cid)"
  "admits m (Close_Udp cid)"
  by (simp_all add: admits_def)

lemma decide_route_tunnel:
  assumes "router r = Some (Matcher m)" and "indexed m" and "decide_route E target fb r = (route, logs, r')"
  shows "router r' = router r \<and> (\<forall>dial. rd_transport route = Via_Tunnel dial \<longrightarrow>
    dialled (se_route E) m (ct_host target) (ct_port target) Tcp dial)"
proof -
  obtain q r1 where p: "plan_target_with_proto (se_route E) (ct_host target) (ct_port target) Tcp r = (q, r1)" by fastforce
  from plan_target_matcher [OF assms(1,2) p] obtain pl where pl: "q = Inr pl" "router r1 = router r"
    "justified (se_route E) m (ct_host target) (ct_port target) Tcp pl" by blast
  show ?thesis
    using assms(3) p pl
    by (cases pl; cases fb) (auto intro: dialledI simp: decide_route_def Let_def route_decision_remote_def route_decision_fallback_def)
qed

lemma decide_udp_route_tunnel:
  assumes "router r = Some (Matcher m)" and "indexed m" and "decide_udp_route E target fb r = (route, logs, r')"
  shows "router r' = router r \<and> (\<forall>v4. ud_transport route = Udp_Tunnel v4 \<longrightarrow>
    (\<exists>dial. dialled (se_route E) m (ct_host target) (ct_port target) Udp dial \<and>
       resolve_dial_v4_from_str (re_resolver (se_route E)) dial = Inr v4))"
proof -
  obtain q r1 where p: "plan_target_with_proto (se_route E) (ct_host target) (ct_port target) Udp r = (q, r1)" by fastforce
  from plan_target_matcher [OF assms(1,2) p] obtain pl where pl: "q = Inr pl" "router r1 = router r"
    "justified (se_route E) m (ct_host target) (ct_port target) Udp pl" by blast
  show ?thesis
    using assms(3) p pl
    by (cases pl) (auto intro: dialledI simp: decide_udp_route_def Let_def route_decision_remote_def udp_decision_def
      decision_tunnel_target_def split: sum.splits)
qed

lemma client_call_admits:
  assumes "client_call E fb alive replies r msgs r'" and "router r = Some (Matcher m)" and "indexed m"
  shows "router r' = router r \<and> list_all (admits m) msgs"
  using assms(1)
proof cases
  case (Call_Connect target route logs reply)
  from decide_route_tunnel [OF assms(2,3) Call_Connect(2)] Call_Connect(1) show ?thesis
    by (cases "rd_transport route")
       (auto simp: connect_messages_def open_tcp_sent intro: admits_Open split: sum.splits)
next
  case (Call_Datagram cid target route logs data)
  from decide_udp_route_tunnel [OF assms(2,3) Call_Datagram(3)] Call_Datagram(1) show ?thesis
    by (cases "ud_transport route")
       (auto simp: datagram_messages_def udp_sender_send_def control_send_sent intro: admits_Send_Udp)
qed (auto simp: sent_simps control_send_def)

definition routed :: "route_matcher \<Rightarrow> ('ifc, 'set, 'rx) process \<Rightarrow> bool" where
  "routed m s \<longleftrightarrow> router (pr_router s) = Some (Matcher m) \<and> list_all (admits m) (pr_requests s)"

lemma routed_step:
  assumes "routed m s" and "indexed m" and "process_step S gone Lr Lt P fb s s'"
  shows "routed m s'"
  using assms(3)
proof cases
  case (Client E msgs r' arrivals)
  from client_call_admits [OF Client(2) _ assms(2)] assms(1) Client(1) show ?thesis by (auto simp: routed_def)
qed (use assms(1) in \<open>auto simp: routed_def\<close>)

text \<open>Data is addressed only to ids that the stack has given out.\<close>

definition addressed :: "('ifc, 'set, 'rx) process \<Rightarrow> bool" where
  "addressed s \<longleftrightarrow> (\<forall>t. pr_stack s = Some t \<longrightarrow> replied_below (sk_stack t) \<and>
     (\<forall>m \<in> snd ` set (sk_queue t). \<forall>reply. needs m = Some reply \<longrightarrow> reply \<in> set (ns_replies (sk_stack t))))"

lemma addressed_post:
  assumes "addressed s" and "\<And>m reply. m \<in> set msgs \<Longrightarrow> needs m = Some reply \<Longrightarrow> reply \<in> set (stack_replies s)"
  shows "addressed (post arrivals msgs s)"
  using assms unfolding addressed_def stack_replies_def
  by (auto split: option.splits dest!: set_zip_rightD)

lemma addressed_step:
  assumes "socket_set_laws S" and "recv_laws S queued packets" and "stack_runs S n s" and "Suc n < 2 ^ 64"
    and "addressed s" and "process_step S gone Lr Lt P fb s s'"
  shows "addressed s'"
  using assms(6)
proof cases
  case (Forward packet rest t a)
  from assms(5) have "addressed (s\<lparr>pr_channel := rest\<rparr>)" by (simp add: addressed_def)
  from addressed_post [OF this, of "[Tunnel_Packet packet]" "[a]"] Forward(1) show ?thesis by simp
next
  case (Stack t t' arrivals)
  from stack_turn [OF assms(1-4) Stack(2,3)] have "takes_turn (t\<lparr>sk_globals := sys_globals (pr_tunnel s)\<rparr>) t'" by blast
  note turn = stack_turn_globals(2,3) [OF this]
  from assms(5) Stack(2) have a: "replied_below (sk_stack t)"
    "\<And>m reply. m \<in> snd ` set (sk_queue t) \<Longrightarrow> needs m = Some reply \<Longrightarrow> reply \<in> set (ns_replies (sk_stack t))"
    by (auto simp: addressed_def)
  have "set (sk_queue t') \<subseteq> set (sk_queue t)" "set (ns_replies (sk_stack t)) \<subseteq> set (ns_replies (sk_stack t'))"
    using turn by (auto simp: replies_grow_def dest: set_mono_suffix set_mono_prefix)
  with a turn(2) Stack(1) show ?thesis by (auto simp: addressed_def replies_grow_def)
next
  case (Client E msgs r' arrivals)
  from assms(5) have "addressed (s\<lparr>pr_router := r'\<rparr>)" by (simp add: addressed_def)
  from addressed_post [OF this] client_call_messages [OF Client(2)] Client(1) show ?thesis
    by (auto simp: stack_replies_def)
qed (use assms(5) in \<open>auto simp: addressed_def\<close>)

section \<open>Nothing is lost, doubled or reordered\<close>

definition packets_of :: "control_message list \<Rightarrow> bytes list" where
  "packets_of msgs = List.map_filter (\<lambda>m. case m of Tunnel_Packet packet \<Rightarrow> Some packet | _ \<Rightarrow> None) msgs"

lemma packets_of_simps [simp]:
  "packets_of [] = []" "packets_of (Tunnel_Packet packet # msgs) = packet # packets_of msgs"
  "packets_of (xs @ ys) = packets_of xs @ packets_of ys"
  by (simp_all add: packets_of_def map_filter_def)

lemma client_call_packets: "client_call E fb alive replies r msgs r' \<Longrightarrow> packets_of msgs = []"
  by (erule client_callE)
     (auto simp: sent_simps control_send_def packets_of_def map_filter_def
        split: route_transport.splits udp_route_transport.splits sum.splits)

lemma rx_iteration_appends:
  assumes "rx_iteration gone L P w = (r, w')"
  shows "rx_sent w' = rx_sent w @ drop (length (rx_sent w)) (rx_sent w')"
  using assms
  by (auto simp: rx_iteration_def rx_reconnect_def Let_def
      split: prod.splits sum.splits if_splits bool.splits)

lemma tx_send_queue: "tx_send L P packet w = (r, w') \<Longrightarrow> tx_queue w' = tx_queue w"
  by (auto simp: tx_send_def Let_def split: prod.splits sum.splits)

lemma tx_iteration_queue:
  assumes "tx_iteration closed L P w = (r, w')"
  shows "suffix (tx_queue w') (tx_queue w)"
proof (cases "tx_next_heartbeat w \<le> vt_now (tx_time w)")
  case True
  with assms show ?thesis by (auto simp: tx_iteration_def Let_def dest: tx_send_queue)
next
  case False
  obtain x later queue where t: "recv_timeout (vt_now (tx_time w)) (tx_next_heartbeat w - vt_now (tx_time w)) closed (tx_queue w) =
    (x, later, queue)" by (metis prod_cases3)
  have "suffix queue (tx_queue w)"
    using t by (cases "(vt_now (tx_time w), tx_next_heartbeat w - vt_now (tx_time w), closed, tx_queue w)" rule: recv_timeout.cases)
       (auto simp: suffix_ConsI split: if_splits)
  with assms False t show ?thesis by (auto simp: tx_iteration_def Let_def split: recv_result.splits dest: tx_send_queue)
qed

lemma worker_step_sent:
  assumes "worker_step gone Lr Lt P s s'"
  shows "sent_items (sys_globals s') = sent_items (sys_globals s) \<and>
    (\<forall>w'. sys_rx s' = Some w' \<longrightarrow> (\<exists>w. sys_rx s = Some w \<and> rx_sent w' = rx_sent w @ rx_new (sys_rx s) (sys_rx s'))) \<and>
    (\<forall>w'. sys_tx s' = Some w' \<longrightarrow> (\<exists>w. sys_tx s = Some w \<and> suffix (tx_queue w') (tx_queue w)))"
  using assms
proof cases
  case (Rx_Step w w')
  with rx_iteration_appends [OF Rx_Step(3)] show ?thesis by (auto simp: rx_new_def)
next
  case (Tx_Step w w')
  with tx_iteration_queue [OF Tx_Step(3)] show ?thesis by (auto simp: rx_new_def)
next
  case (Heartbeat_Exit w r w')
  then show ?thesis
    by (cases r) (auto simp: rx_new_def sent_items_def record_tunnel_fatal_reason_def)
qed (auto simp: rx_new_def sent_items_def handle_worker_exit_def record_tunnel_fatal_reason_def drop_tx_receiver_def
       split: option.splits)

definition conserves :: "('ifc, 'set, 'rx) process \<Rightarrow> bool" where
  "conserves s \<longleftrightarrow>
     (\<forall>w. sys_rx (pr_tunnel s) = Some w \<longrightarrow> rx_sent w = packets_of (pr_requests s) @ pr_channel s) \<and>
     (\<forall>w. sys_tx (pr_tunnel s) = Some w \<longrightarrow> suffix (map snd (tx_queue w)) (sent_items (sys_globals (pr_tunnel s)))) \<and>
     (\<forall>t. pr_stack s = Some t \<longrightarrow> suffix (map snd (sk_queue t)) (pr_requests s))"

lemma suffix_map: "suffix xs ys \<Longrightarrow> suffix (map f xs) (map f ys)"
  by (auto simp: suffix_def)

lemma write_back_queue:
  assumes "suffix (map snd (tx_queue w)) (sent_items (sys_globals t))" and "only_sends (sys_globals t) g"
    and "length (sent_items g) \<le> length (sent_items (sys_globals t)) + length arrivals"
    and "sys_tx t = Some w" and "sys_tx (write_back arrivals g t) = Some w'"
  shows "suffix (map snd (tx_queue w')) (sent_items g)"
proof -
  let ?new = "drop (length (sent_items (sys_globals t))) (sent_items g)"
  have g: "sent_items g = sent_items (sys_globals t) @ ?new"
    using only_sends_simps(2) [OF assms(2)] by (auto simp: prefix_def)
  have "map snd (zip arrivals ?new) = ?new" using assms(3) by (simp add: map_snd_zip_take)
  with assms(4,5) have "map snd (tx_queue w') = map snd (tx_queue w) @ ?new" by (auto simp: write_back_def)
  with assms(1) g show ?thesis by (metis same_suffix_suffix)
qed

lemma conserves_step:
  assumes "socket_set_laws S" and "recv_laws S queued packets" and "stack_runs S n s" and "Suc n < 2 ^ 64"
    and "conserves s" and "process_step S gone Lr Lt P fb s s'"
  shows "conserves s'"
  using assms(6)
proof cases
  case (Threads t')
  from assms(5) have c: "\<And>w. sys_rx (pr_tunnel s) = Some w \<Longrightarrow> rx_sent w = packets_of (pr_requests s) @ pr_channel s"
    "\<And>w. sys_tx (pr_tunnel s) = Some w \<Longrightarrow> suffix (map snd (tx_queue w)) (sent_items (sys_globals (pr_tunnel s)))"
    by (auto simp: conserves_def)
  from worker_step_sent [OF Threads(2)] have w: "sent_items (sys_globals t') = sent_items (sys_globals (pr_tunnel s))"
    "\<And>w'. sys_rx t' = Some w' \<Longrightarrow> \<exists>w. sys_rx (pr_tunnel s) = Some w \<and> rx_sent w' = rx_sent w @ rx_new (sys_rx (pr_tunnel s)) (sys_rx t')"
    "\<And>w'. sys_tx t' = Some w' \<Longrightarrow> \<exists>w. sys_tx (pr_tunnel s) = Some w \<and> suffix (tx_queue w') (tx_queue w)"
    by auto
  have "suffix (map snd (tx_queue w')) (sent_items (sys_globals t'))" if "sys_tx t' = Some w'" for w'
    using w(3) [OF that] c(2) suffix_map w(1) by (metis suffix_order.trans)
  moreover have "rx_sent w' = packets_of (pr_requests s) @ pr_channel s @ rx_new (sys_rx (pr_tunnel s)) (sys_rx t')"
    if "sys_rx t' = Some w'" for w'
    using w(2) [OF that] c(1) by auto
  ultimately show ?thesis using Threads(1) assms(5) by (auto simp: conserves_def)
next
  case (Stack t t' arrivals)
  from stack_turn [OF assms(1-4) Stack(2,3)] have "takes_turn (t\<lparr>sk_globals := sys_globals (pr_tunnel s)\<rparr>) t'" by blast
  note turn = stack_turn_globals(1,2) [OF this]
  from assms(5) Stack(2) have c: "suffix (map snd (sk_queue t)) (pr_requests s)" by (simp add: conserves_def)
  have q: "suffix (map snd (sk_queue t')) (pr_requests s)" using suffix_map [OF turn(2)] c by (rule suffix_order.trans)
  have "suffix (map snd (tx_queue w')) (sent_items (sk_globals t'))"
    if w': "sys_tx (write_back arrivals (sk_globals t') (pr_tunnel s)) = Some w'" for w'
  proof -
    obtain w where w: "sys_tx (pr_tunnel s) = Some w" using w' by (cases "sys_tx (pr_tunnel s)") (auto simp: write_back_def)
    with assms(5) have "suffix (map snd (tx_queue w)) (sent_items (sys_globals (pr_tunnel s)))" by (simp add: conserves_def)
    from write_back_queue [OF this turn(1) Stack(4) w w'] show ?thesis .
  qed
  with q Stack(1) assms(5) show ?thesis by (simp add: conserves_def)
next
  case (Client E msgs r' arrivals)
  from client_call_packets [OF Client(2)] Client(1,3) assms(5) show ?thesis by (auto simp: conserves_def suffix_def)
next
  case (Stack_Ends t outcome t' arrivals)
  from stack_turn [OF assms(1-4) Stack_Ends(2,3)] Stack_Ends(4) show ?thesis by simp
qed (use assms(3,5) in \<open>auto simp: conserves_def stack_runs_def suffix_def\<close>)

section \<open>A process from its start\<close>

lemma start_tunnel_fresh:
  assumes "start_tunnel E config token t g = (Inr (ips, th), t', g', logs)"
  shows "rx_sent (th_rx th) = [] \<and> tx_queue (th_tx th) = []"
proof -
  obtain t1 g1 where
    s: "start_tunnel_runtime (app_vpn_lib E) (ap_nanos E) (ap_pid E) (ap_rx E) (ac_server config) token ips t1 g1 = (Inr th, t', g')"
    using assms by (auto simp: start_tunnel_def Let_def split: prod.splits sum.splits)
  then show ?thesis
    by (auto simp: start_tunnel_runtime_def Let_def split: prod.splits sum.splits)
qed

lemma process_start:
  assumes "app_run E config w = (Inr running, w', logs)" and "socket_set_laws S"
  shows "stack_runs S 0 (process_of S nanos running w')" and "forwards (process_of S nanos running w')"
    and "exits_recorded (pr_tunnel (process_of S nanos running w'))"
    and "addressed (process_of S nanos running w')" and "conserves (process_of S nanos running w')"
    and "router (pr_router (process_of S nanos running w')) =
      Some (mode_for (app_fetch E config (rn_twf_id running)) (ac_extra_ips config))"
proof -
  let ?s = "process_of S nanos running w'"
  from app_run_Inr [OF assms(1)] obtain s l2 token ips t g l4 where
    table: "try_install_route_table E config (rn_twf_id running) (as_router w) = (Inr (), s, l2)" "as_router w' = s"
    and tunnel: "start_tunnel E config token (as_time w) (as_globals w) = (Inr (ips, rn_threads running), t, g, l4)"
    and stack: "start_runtime (as_netstack w) g = (Inr (), as_netstack w', rn_stack_rx running, as_globals w')"
    by blast
  from start_tunnel_Inr [OF tunnel] have g: "tg_receiver g = Some (Some (ap_rx E))"
    "tg_sender g = Some \<lparr>ch_items = [], ch_receiver_alive = True\<rparr>" by auto
  from start_runtime_Inr [OF stack g(1)] g(2) have sent: "sent_items (as_globals w') = []" by (simp add: sent_items_def)
  show "stack_runs S 0 ?s"
    using stack_inv_start [OF assms(2)]
    by (simp add: stack_runs_def process_of_def thread_load_def load_def) (simp add: netstack_start_def)
  show "forwards ?s" by (simp add: forwards_def process_of_def)
  show "exits_recorded (pr_tunnel ?s)" by (simp add: process_of_def exits_recorded_def system_of_def)
  show "addressed ?s" by (simp add: addressed_def process_of_def replied_below_def netstack_start_def)
  show "conserves ?s"
    using start_tunnel_fresh [OF tunnel] sent by (simp add: conserves_def process_of_def system_of_def)
  show "router (pr_router ?s) = Some (mode_for (app_fetch E config (rn_twf_id running)) (ac_extra_ips config))"
    using try_install_route_table_ok [OF table(1)] table(2) by (simp add: process_of_def)
qed

lemma addressed_fresh:
  assumes "addressed s" and "pr_stack s = Some t" and "unat (ns_next_id (sk_stack t)) \<le> unat k"
  shows "conn_payloads k (sk_queue t) = []"
proof -
  from assms(1,2) have a: "replied_below (sk_stack t)"
    "\<And>m reply. m \<in> snd ` set (sk_queue t) \<Longrightarrow> needs m = Some reply \<Longrightarrow> reply \<in> set (ns_replies (sk_stack t))"
    by (auto simp: addressed_def)
  from a(1) assms(3) have none: "Opened (Inr k) \<notin> set (ns_replies (sk_stack t))" by (auto simp: replied_below_def)
  have "payload k (snd m) = []" if "m \<in> set (sk_queue t)" for m
    using a(2) [OF imageI [OF that]] none by (cases "snd m") auto
  then show ?thesis by (simp add: conn_payloads_def)
qed

text \<open>
  \<^bold>\<open>C2.\<close> A serving process in any interleaving of its threads and clients: the thread of the network stack never
  panics, ends or loses a socket; the forwarding thread is there while the receiving worker runs; and a
  thread of the tunnel has ended only if the program is about to exit with code 1, which stays so. The
  bound on the steps keeps the 64-bit ids from wrapping around.
\<close>

theorem process_keeps_running:
  assumes "app_run E config w = (Inr running, w', logs)" and "socket_set_laws S" and "recv_laws S queued packets"
    and "process_run S gone Lr Lt P fb (process_of S nanos running w') n s"
    and "process_run S gone Lr Lt P fb s k s'" and "n + k < 2 ^ 64"
  shows "(\<exists>t. pr_stack s = Some t \<and> stack_inv S (sk_stack t)) \<and>
    (sys_rx (pr_tunnel s) \<noteq> None \<longrightarrow> pr_forwarding s) \<and>
    (case main_wait (sys_globals (pr_tunnel s)) of
       None \<Rightarrow> sys_rx (pr_tunnel s) \<noteq> None \<and> sys_tx (pr_tunnel s) \<noteq> None \<and> sys_heartbeat (pr_tunnel s) \<noteq> None
     | Some (code, messages) \<Rightarrow> code = 1 \<and> main_wait (sys_globals (pr_tunnel s')) = Some (code, messages))"
proof -
  note start = process_start [OF assms(1,2), of nanos]
  note inv = process_run_invariant [OF assms(2,3) start(1) assms(4)]
  from assms(6) have n: "0 + n < 2 ^ 64" by simp
  from stack_runs_run [OF assms(2,3) start(1) assms(4) n] have runs: "stack_runs S n s" by simp
  have f: "forwards s"
    by (rule inv [where I = forwards, OF start(2) _ n]) (rule forwards_step)
  have e: "exits_recorded (pr_tunnel s)"
    by (rule inv [where I = "\<lambda>s. exits_recorded (pr_tunnel s)", OF start(3) _ n])
       (use fatal_step [OF assms(2,3)] in blast)
  have keep: "tg_fatal (sys_globals (pr_tunnel s')) = Some r" if r: "tg_fatal (sys_globals (pr_tunnel s)) = Some r" for r
    by (rule process_run_invariant [where I = "\<lambda>s. tg_fatal (sys_globals (pr_tunnel s)) = Some r",
          OF assms(2,3) runs assms(5) r _ assms(6)])
       (use fatal_step [OF assms(2,3)] in blast)
  show ?thesis
  proof (intro conjI)
    show "\<exists>t. pr_stack s = Some t \<and> stack_inv S (sk_stack t)" using runs by (auto simp: stack_runs_def)
    show "sys_rx (pr_tunnel s) \<noteq> None \<longrightarrow> pr_forwarding s" using f by (auto simp: forwards_def)
    show "case main_wait (sys_globals (pr_tunnel s)) of
       None \<Rightarrow> sys_rx (pr_tunnel s) \<noteq> None \<and> sys_tx (pr_tunnel s) \<noteq> None \<and> sys_heartbeat (pr_tunnel s) \<noteq> None
     | Some (code, messages) \<Rightarrow> code = 1 \<and> main_wait (sys_globals (pr_tunnel s')) = Some (code, messages)"
    proof (cases "tg_fatal (sys_globals (pr_tunnel s))")
      case None
      with e show ?thesis
        by (simp add: main_wait_def serve_wait_def wait_tunnel_fatal_reason_def exits_recorded_def)
    next
      case (Some r)
      with keep [OF Some] show ?thesis
        by (simp add: main_wait_def serve_wait_def wait_tunnel_fatal_reason_def)
    qed
  qed
qed



section \<open>Witnesses\<close>

definition toy_dialler :: "u64 socks_env" where
  "toy_dialler = \<lparr>se_ansi = plain_ansi, se_route = \<lparr>re_dns = toy_env, re_resolver = (\<lambda>_ _. Inl ''no such host'')\<rparr>,
     se_open_tunnel = (\<lambda>_. Inr 1), se_connect = (\<lambda>_. Inr (toy_stream [])), se_clone = (\<lambda>_. Inr ())\<rparr>"

abbreviation toy_target :: connect_target where
  "toy_target \<equiv> \<lparr>ct_host = ''10.50.2.206'', ct_port = 81\<rparr>"

abbreviation toy_fetched :: route_table where
  "toy_fetched \<equiv> \<lparr>rt_rules = [], rt_dns_servers = [''10.0.0.53'', ''10.0.0.54''], rt_dns_records = []\<rparr>"

lemma toy_fetch: "app_fetch toy_app toy_credentials ''0123456789abcdef'' = Inr toy_fetched"
  by code_simp

lemma toy_decision:
  "rd_transport (fst (decide_route toy_dialler toy_target None
     \<lparr>router = Some (mode_for (Inr toy_fetched) [''10.50.2.0/24'']), router_dns = clear_cache toy_state\<rparr>)) =
   Via_Tunnel ''10.50.2.206:81''"
  by code_simp

lemma toy_resolved: "resolve_ipv4_target (re_resolver (se_route toy_dialler)) ''10.50.2.206:81'' =
   Inr (Sock_V4 (Ipv4 10 50 2 206) 81)"
  by code_simp

text \<open>A process that serves, and a client of it that asks for an address the extra addresses cover.\<close>

type_synonym toy_proc = "(unit, (nat \<times> (toy_tcp, unit) any_socket) list, unit) process"

lemma toy_router_dns:
  assumes "app_run toy_app toy_credentials toy_process = (Inr running, w', logs)"
  shows "rn_twf_id running = ''0123456789abcdef'' \<and>
    as_router w' = \<lparr>router = Some (mode_for (Inr toy_fetched) [''10.50.2.0/24'']), router_dns = clear_cache toy_state\<rparr>"
proof -
  from app_run_Inr [OF assms] obtain l1 s l2 where
    l: "app_login toy_app toy_credentials = (Inr (rn_twf_id running), l1)"
    "try_install_route_table toy_app toy_credentials (rn_twf_id running) (as_router toy_process) = (Inr (), s, l2)"
    "as_router w' = s" by blast
  from l(1) toy_login_stage have id: "rn_twf_id running = ''0123456789abcdef''" by auto
  from try_install_route_table_ok [OF l(2)] l(3) have
    "router (as_router w') = Some (mode_for (Inr toy_fetched) (ac_extra_ips toy_credentials))"
    "router_dns (as_router w') = clear_cache (router_dns (as_router toy_process))"
    unfolding id toy_fetch by simp_all
  then show ?thesis using id by (cases "as_router w'") (simp add: toy_credentials_def toy_process_def)
qed

lemma toy_process_run:
  obtains running w' logs and s :: toy_proc where
    "app_run toy_app toy_credentials toy_process = (Inr running, w', logs)"
    "rn_twf_id running = ''0123456789abcdef''"
    "process_run toy_smoltcp (\<lambda>_ _. False) toy_lib toy_lib toy_params None (process_of toy_smoltcp None running w') 1 s"
    "pr_requests s = [Open (Sock_V4 (Ipv4 10 50 2 206) 81)]"
    "\<exists>t. pr_stack s = Some t \<and> sk_queue t = [(7, Open (Sock_V4 (Ipv4 10 50 2 206) 81))]"
proof -
  from toy_app_serves obtain running w' logs where
    r: "app_run toy_app toy_credentials toy_process = (Inr running, w', logs)" by blast
  note router = toy_router_dns [OF r]
  let ?s = "process_of toy_smoltcp None running w' :: toy_proc" and ?v4 = "Sock_V4 (Ipv4 10 50 2 206) 81"
  have rs: "pr_router ?s = as_router w'" "pr_stack ?s \<noteq> None" by (simp_all add: process_of_def)
  obtain route ls r' where d: "decide_route toy_dialler toy_target None (pr_router ?s) = (route, ls, r')"
    by (metis prod_cases3)
  from toy_decision d have "rd_transport route = Via_Tunnel ''10.50.2.206:81''" unfolding rs(1) using router by simp
  then have m: "connect_messages toy_dialler True Reply_Timeout route = [Open ?v4]"
    by (simp add: connect_messages_def open_tcp_sent toy_resolved)
  from Call_Connect [OF d, of True "stack_replies ?s" Reply_Timeout] rs(2)
  have "client_call toy_dialler None (pr_stack ?s \<noteq> None) (stack_replies ?s) (pr_router ?s) [Open ?v4] r'"
    unfolding m by simp
  from Client [OF this, of "[7]"] have
    "process_step toy_smoltcp (\<lambda>_ _. False) toy_lib toy_lib toy_params None ?s (post [7] [Open ?v4] (?s\<lparr>pr_router := r'\<rparr>))"
    by simp
  from Process_Step [OF Process_Start this] router show thesis
    by (intro that [OF r, of "post [7] [Open ?v4] (?s\<lparr>pr_router := r'\<rparr>)"]) (simp_all add: process_of_def)
qed

theorem process_keeps_running_witness:
  "\<exists>s :: toy_proc. pr_requests s = [Open (Sock_V4 (Ipv4 10 50 2 206) 81)] \<and>
     (\<exists>t. pr_stack s = Some t \<and> stack_inv toy_smoltcp (sk_stack t)) \<and> (sys_rx (pr_tunnel s) \<noteq> None \<longrightarrow> pr_forwarding s)"
proof -
  obtain running w' logs and s :: toy_proc where
    r: "app_run toy_app toy_credentials toy_process = (Inr running, w', logs)"
    and run: "process_run toy_smoltcp (\<lambda>_ _. False) toy_lib toy_lib toy_params None (process_of toy_smoltcp None running w') 1 s"
    and q: "pr_requests s = [Open (Sock_V4 (Ipv4 10 50 2 206) 81)]"
    by (rule toy_process_run)
  from process_keeps_running [OF r toy_set_laws toy_recv_laws run Process_Start] q show ?thesis by auto
qed



end
