(* ===== verification/Cli.thy ===== *)
theory Cli
  imports App
begin

text \<open>
  The command line of \<^verbatim>\<open>ec-cli/src/main.rs\<close>: the name the program was started under, its usage text and
  version, and the program from its arguments on. The argument parser (\<^verbatim>\<open>clap\<close>, set up by the attributes
  of \<^verbatim>\<open>CliArgs\<close>) is a parameter: from the version, the usage text and the arguments it gives the parsed
  arguments, or the code with which it exits (\<^verbatim>\<open>--help\<close>, \<^verbatim>\<open>--version\<close>, wrong arguments). Paths are those of
  Unix.
\<close>

text \<open>\<^verbatim>\<open>Path::file_name\<close>: the last component, if it is a name.\<close>

definition path_file_name :: "string \<Rightarrow> string option" where
  "path_file_name path =
     (case dropWhile (\<lambda>part. part = [] \<or> part = ''.'') (rev (split_char CHR ''/'' path)) of
        [] \<Rightarrow> None
      | part # _ \<Rightarrow> if part = ''..'' then None else Some part)"

definition current_bin_name :: "string list \<Rightarrow> string option" where
  "current_bin_name argv =
     (case argv of
        [] \<Rightarrow> None
      | argv0 # _ \<Rightarrow>
          (case path_file_name argv0 of Some v \<Rightarrow> if v = [] then None else Some v | None \<Rightarrow> None))"

text \<open>\<open>built\<close>: the version the build was given; \<open>package\<close>: the version of the package.\<close>

definition app_version :: "string option \<Rightarrow> string \<Rightarrow> string" where
  "app_version built package = (case built of Some v \<Rightarrow> v | None \<Rightarrow> package)"

definition command_name :: string where "command_name = ''SHIEP-Pipeline''"

definition usage_text :: "string \<Rightarrow> string" where
  "usage_text bin =
     bin @ '' [OPTIONS] --password <PASSWORD> [--remember] | '' @ bin
     @ '' [OPTIONS] --server <SERVER> --username <USERNAME> --password <PASSWORD>''"

definition parse_args :: "(string \<Rightarrow> string \<Rightarrow> string list \<Rightarrow> int + cli_args) \<Rightarrow> string \<Rightarrow> string list \<Rightarrow> int + cli_args" where
  "parse_args clap version argv =
     (let bin = (case current_bin_name argv of Some bin \<Rightarrow> bin | None \<Rightarrow> command_name)
      in clap version (usage_text bin) argv)"

text \<open>The whole program, from its arguments.\<close>

definition program :: "(string \<Rightarrow> string \<Rightarrow> string list \<Rightarrow> int + cli_args) \<Rightarrow> bool \<Rightarrow> string \<Rightarrow> config_env
    \<Rightarrow> ('key, 'rx) app_env \<Rightarrow> string option \<Rightarrow> string list \<Rightarrow> bytes option \<Rightarrow> 'rx app_state
    \<Rightarrow> 'rx outcome \<times> 'rx app_state \<times> bytes option \<times> log_entry list" where
  "program clap debug_assertions version C E env_password argv file w =
     (case parse_args clap version argv of
        Inl code \<Rightarrow> (Exited code, w, file, [])
      | Inr args \<Rightarrow> main debug_assertions version C E env_password args file w)"

section \<open>The name of the program\<close>

lemma split_char_append:
  "split_char d (s @ d # t) = split_char d s @ split_char d t"
proof (induction s)
  case (Cons c s)
  then show ?case using split_char_nonempty [of d s] by (auto split: list.splits)
qed simp

lemma split_char_replicate: "split_char d (replicate n d) = replicate (Suc n) []"
  by (induction n) simp_all

lemma path_file_name_Some:
  "path_file_name path = Some v \<Longrightarrow> CHR ''/'' \<notin> set v \<and> v \<notin> {[], ''.'', ''..''}"
proof -
  let ?skip = "\<lambda>part. part = [] \<or> part = ''.''"
  assume f: "path_file_name path = Some v"
  then obtain rest where d: "dropWhile ?skip (rev (split_char CHR ''/'' path)) = v # rest" and n: "v \<noteq> ''..''"
    unfolding path_file_name_def by (auto split: list.splits if_splits)
  then have "v \<in> set (split_char CHR ''/'' path)" by (metis list.set_intros(1) set_dropWhileD set_rev)
  then have "CHR ''/'' \<notin> set v" by (rule split_char_pieces)
  moreover have "\<not> ?skip v" using hd_dropWhile [of ?skip "rev (split_char CHR ''/'' path)"] d by simp
  ultimately show ?thesis using n by simp
qed

text \<open>
  The program names itself after the last component of the path it was started under, whatever directory
  it is in and with any trailing slashes; the name is never empty and holds no slash, and without one the
  usage text falls back on the name of the command.
\<close>

lemma current_bin_name_path:
  assumes "CHR ''/'' \<notin> set name" and "name \<notin> {[], ''.'', ''..''}"
  shows "current_bin_name ((dir @ CHR ''/'' # name @ replicate n CHR ''/'') # argv) = Some name"
    and "current_bin_name ((name @ replicate n CHR ''/'') # argv) = Some name"
proof -
  have base: "\<exists>xs. split_char CHR ''/'' (name @ replicate n CHR ''/'') = name # xs \<and> set xs \<subseteq> {[]}"
  proof (cases n)
    case (Suc k)
    then have "split_char CHR ''/'' (name @ replicate n CHR ''/'') = name # replicate (Suc k) []"
      using split_char_append [of "CHR ''/''" name "replicate k CHR ''/''"] split_char_no_sep [OF assms(1)]
      by (simp add: split_char_replicate)
    then show ?thesis by auto
  qed (use split_char_no_sep [OF assms(1)] in simp)
  then obtain xs where xs: "split_char CHR ''/'' (name @ replicate n CHR ''/'') = name # xs" "set xs \<subseteq> {[]}" by blast
  have drop: "dropWhile (\<lambda>part. part = [] \<or> part = ''.'') (rev xs @ name # ys) = name # ys" for ys
    using xs(2) assms(2) by (subst dropWhile_append2) auto
  show "current_bin_name ((name @ replicate n CHR ''/'') # argv) = Some name"
    using drop [of "[]"] assms(2) by (simp add: current_bin_name_def path_file_name_def xs(1))
  show "current_bin_name ((dir @ CHR ''/'' # name @ replicate n CHR ''/'') # argv) = Some name"
    using drop [of "rev (split_char CHR ''/'' dir)"] assms(2)
    by (simp add: current_bin_name_def path_file_name_def split_char_append xs(1))
qed

lemma current_bin_name_valid:
  "current_bin_name argv = Some bin \<Longrightarrow> CHR ''/'' \<notin> set bin \<and> bin \<notin> {[], ''.'', ''..''}"
  by (auto simp: current_bin_name_def dest: path_file_name_Some split: list.splits option.splits if_splits)

text \<open>A program that serves was given a valid configuration, and has run with it.\<close>

lemma program_serves:
  assumes "program clap debug_assertions version C E env_password argv file w = (Serving running, w', file', logs)"
  shows "\<exists>args config. parse_args clap version argv = Inr args \<and>
    fst (build_config debug_assertions C env_password args file) = Inr config \<and>
    fst (app_run E config w) = Inr running \<and> fst (snd (app_run E config w)) = w'"
  using assms
  by (auto simp: program_def main_def Let_def split: sum.splits prod.splits)

end
