(* ===== verification/DebugLog.thy ===== *)
theory DebugLog
  imports Output TunnelRuntime
begin

text \<open>
  The lines a debug build logs in \<^verbatim>\<open>protocol.rs\<close> (the \<^verbatim>\<open>debug_*\<close> functions) while debugging is switched on:
  opening a data stream with its attempts and their failures, the summary of a TLS handshake, and the raw
  bytes of replies that were not understood. \<open>debug\<close> is the switch \<^verbatim>\<open>DEBUG_ENABLED\<close> of a debug build, and
  \<open>False\<close> for a release build. The version and the cipher of a connection are what OpenSSL names them.
\<close>

section \<open>Lines\<close>

fun kind_label :: "stream_open_kind \<Rightarrow> string" where
  "kind_label First = ''first''"
| "kind_label Resume = ''resume''"

definition debug_line :: "bool \<Rightarrow> string \<Rightarrow> log_entry list" where
  "debug_line debug message = (if debug then [(Level_Info, Scope_Protocol, message)] else [])"

definition debug_protocol_hex :: "bool \<Rightarrow> string \<Rightarrow> bytes \<Rightarrow> log_entry list" where
  "debug_protocol_hex debug label data =
     debug_line debug (label @ ''; len: '' @ dec_of_nat (length data) @ ''; hex: '' @ hex_text data)"

definition debug_stream_ack_reply :: "bool \<Rightarrow> stream_profile \<Rightarrow> u8 \<Rightarrow> bytes \<Rightarrow> log_entry list" where
  "debug_stream_ack_reply debug profile op reply =
     (if \<not> debug then []
      else debug_protocol_hex debug
        (''debug: unexpected '' @ profile_label profile @ '' ack raw reply; op: 0x'' @ hex2 op) reply)"

definition attempt_text :: "stream_profile \<Rightarrow> stream_open_kind \<Rightarrow> string \<Rightarrow> nat \<Rightarrow> string" where
  "attempt_text profile kind phase_text attempt =
     ''; phase: '' @ phase_text @ ''; kind: '' @ kind_label kind @ ''; op: 0x'' @ hex2 (op_code profile kind)
     @ ''; attempt: '' @ dec_of_nat (attempt + 1) @ ''/'' @ dec_of_nat (STREAM_RETRY_LIMIT + 1)"

definition debug_stream_open_attempt :: "bool \<Rightarrow> stream_profile \<Rightarrow> stream_open_kind \<Rightarrow> string \<Rightarrow> nat \<Rightarrow> log_entry list" where
  "debug_stream_open_attempt debug profile kind phase_text attempt =
     debug_line debug
       (''debug: opening '' @ profile_label profile @ '' stream'' @ attempt_text profile kind phase_text attempt)"

definition debug_stream_open_failure :: "bool \<Rightarrow> stream_profile \<Rightarrow> stream_open_kind \<Rightarrow> string \<Rightarrow> nat \<Rightarrow> string
    \<Rightarrow> log_entry list" where
  "debug_stream_open_failure debug profile kind phase_text attempt reason =
     debug_line debug
       (''debug: '' @ profile_label profile @ '' stream open failed'' @ attempt_text profile kind phase_text attempt
        @ ''; reason: '' @ reason)"

definition debug_tls_summary :: "bool \<Rightarrow> string \<Rightarrow> string option \<Rightarrow> log_entry list" where
  "debug_tls_summary debug version cipher =
     debug_line debug
       (''debug: vpn tls handshake; version: '' @ version @ ''; cipher: ''
        @ (case cipher of Some name \<Rightarrow> name | None \<Rightarrow> ''unknown'') @ ''; sni: disabled; legacy: enabled'')"

section \<open>The log of an opening\<close>

text \<open>The lines of one \<^verbatim>\<open>open_data_stream\<close>; \<open>summary n\<close> is the version and the cipher of the \<open>n\<close>-th connection.\<close>

definition handshake_logs :: "bool \<Rightarrow> bytes \<Rightarrow> bytes \<Rightarrow> stream_profile \<Rightarrow> stream_open_kind \<Rightarrow> stream \<Rightarrow> log_entry list" where
  "handshake_logs debug token ip_rev profile kind s =
     (let op = op_code profile kind in
      case write_all (build_stream_handshake_message op token ip_rev) s of
        (Inl _, _) \<Rightarrow> []
      | (Inr _, s) \<Rightarrow>
          (case read_stream_once s 1500 STREAM_HANDSHAKE_TIMEOUT of
             (Inl _, _) \<Rightarrow> []
           | (Inr reply, _) \<Rightarrow>
               if reply = [] \<or> classify_stream_ack_reply reply (expected_ack profile) = Expected then []
               else debug_stream_ack_reply debug profile op reply))"

definition open_data_stream_logs :: "bool \<Rightarrow> (nat \<Rightarrow> string \<times> string option) \<Rightarrow> vpn_lib \<Rightarrow> string \<Rightarrow> string \<Rightarrow> bytes \<Rightarrow> bytes
    \<Rightarrow> stream_profile \<Rightarrow> stream_open_kind \<Rightarrow> vpn_time \<Rightarrow> log_entry list" where
  "open_data_stream_logs debug summary L authority host token ip_rev profile kind t =
     (case connect_vpn_tls L authority host t of
        (Inl _, _) \<Rightarrow> []
      | (Inr s, _) \<Rightarrow>
          (case summary (vt_connects t) of (version, cipher) \<Rightarrow> debug_tls_summary debug version cipher)
          @ handshake_logs debug token ip_rev profile kind s)"

text \<open>The lines of the loop over the attempts; \<open>try_logs\<close> are those of an attempt.\<close>

function open_loop_logs :: "bool \<Rightarrow> (vpn_time \<Rightarrow> (stream_open_error + stream) \<times> vpn_time) \<Rightarrow> (vpn_time \<Rightarrow> log_entry list)
    \<Rightarrow> stream_profile \<Rightarrow> stream_open_kind \<Rightarrow> stream_open_retry \<Rightarrow> nat \<Rightarrow> vpn_time \<Rightarrow> log_entry list" where
  "open_loop_logs debug try_open try_logs profile kind retry attempt t =
     (if attempt \<le> STREAM_RETRY_LIMIT then
        (let t = (if delay_first_attempt retry \<or> first_attempt retry < attempt
                  then t\<lparr>vt_now := vt_now t + STREAM_RETRY_DELAY\<rparr> else t)
         in debug_stream_open_attempt debug profile kind (phase retry) attempt @ try_logs t @
            (case try_open t of
               (Inr s, t) \<Rightarrow> []
             | (Inl err, t) \<Rightarrow>
                 debug_stream_open_failure debug profile kind (phase retry) attempt (concise_error (open_error err)) @
                 (if is_fatal err then []
                  else open_loop_logs debug try_open try_logs profile kind retry (attempt + 1) t)))
      else [])"
  by pat_completeness auto
termination
  by (relation "measure (\<lambda>(debug, try_open, try_logs, profile, kind, retry, attempt, t). Suc STREAM_RETRY_LIMIT - attempt)")
     auto

declare open_loop_logs.simps [simp del]

definition open_data_stream_with_retries_logs :: "bool \<Rightarrow> (nat \<Rightarrow> string \<times> string option) \<Rightarrow> vpn_lib \<Rightarrow> string \<Rightarrow> string
    \<Rightarrow> bytes \<Rightarrow> bytes \<Rightarrow> stream_profile \<Rightarrow> stream_open_kind \<Rightarrow> stream_open_retry \<Rightarrow> vpn_time \<Rightarrow> log_entry list" where
  "open_data_stream_with_retries_logs debug summary L authority host token ip_rev profile kind retry t =
     open_loop_logs debug (open_data_stream L authority host token ip_rev profile kind)
       (open_data_stream_logs debug summary L authority host token ip_rev profile kind)
       profile kind retry (first_attempt retry) t"

section \<open>Replies that were not understood\<close>

definition send_ip_reply_logs :: "bool \<Rightarrow> bytes \<Rightarrow> log_entry list" where
  "send_ip_reply_logs debug reply =
     (case parse_send_ip_reply reply of
        Inl _ \<Rightarrow> debug_protocol_hex debug ''debug: SEND_IP raw reply'' reply
      | Inr _ \<Rightarrow> [])"

definition rx_payload_logs :: "bool \<Rightarrow> bytes \<Rightarrow> log_entry list" where
  "rx_payload_logs debug data =
     (case parse_native_control_frame data of
        None \<Rightarrow> []
      | Some control \<Rightarrow>
          if control = RxAck then [] else debug_protocol_hex debug ''debug: unexpected rx control frame raw'' data)"

definition heartbeat_reply_logs :: "bool \<Rightarrow> bytes \<Rightarrow> log_entry list" where
  "heartbeat_reply_logs debug data =
     (case parse_command_control_reply data of
        Inl _ \<Rightarrow> debug_protocol_hex debug ''debug: command heartbeat parse-failed raw reply'' data
      | Inr control \<Rightarrow>
          if control = Heartbeat then []
          else if control = Shutdown \<or> control = IpKick then
            debug_protocol_hex debug ''debug: command heartbeat shutdown raw reply'' data
          else debug_protocol_hex debug ''debug: unexpected command heartbeat raw reply'' data)"

section \<open>What the log shows\<close>

text \<open>A release build, or a build without the switch, logs none of it.\<close>

lemma debug_off:
  "open_data_stream_with_retries_logs False summary L authority host token ip_rev profile kind retry t = []"
  "send_ip_reply_logs False reply = []" "rx_payload_logs False data = []" "heartbeat_reply_logs False data = []"
proof -
  have tries: "open_loop_logs False f (\<lambda>_. []) profile kind retry attempt t = []" for f attempt t
  proof (induction "Suc STREAM_RETRY_LIMIT - attempt" arbitrary: attempt t rule: less_induct)
    case less
    then show ?case
      by (subst open_loop_logs.simps)
         (auto simp: Let_def debug_stream_open_attempt_def debug_stream_open_failure_def debug_line_def
            split: prod.splits sum.splits)
  qed
  have "open_data_stream_logs False summary L authority host token ip_rev profile kind = (\<lambda>_. [])"
    by (auto simp: open_data_stream_logs_def handshake_logs_def debug_tls_summary_def debug_line_def
        debug_stream_ack_reply_def Let_def split: prod.splits sum.splits)
  with tries show "open_data_stream_with_retries_logs False summary L authority host token ip_rev profile kind retry t = []"
    by (simp add: open_data_stream_with_retries_logs_def)
qed (simp_all add: send_ip_reply_logs_def rx_payload_logs_def heartbeat_reply_logs_def debug_protocol_hex_def
       debug_line_def split: sum.split option.split)

text \<open>With it, exactly the replies that end their stream leave their bytes in the log.\<close>

lemma debug_hex_not_Nil [simp]: "debug_protocol_hex debug label data = [] \<longleftrightarrow> \<not> debug"
  by (simp add: debug_protocol_hex_def debug_line_def)

lemma raw_replies_logged:
  "heartbeat_reply_logs True data = [] \<longleftrightarrow> classify_command_heartbeat_reply data = Hb_Ack"
  "rx_payload_logs True data = [] \<longleftrightarrow> (\<exists>b. should_forward_rx_payload data = Inr b)"
  "send_ip_reply_logs True data = [] \<longleftrightarrow> (\<exists>reply. parse_send_ip_reply data = Inr reply)"
proof -
  show "heartbeat_reply_logs True data = [] \<longleftrightarrow> classify_command_heartbeat_reply data = Hb_Ack"
    by (auto simp: heartbeat_reply_logs_def classify_command_heartbeat_reply_def split: sum.splits)
  show "rx_payload_logs True data = [] \<longleftrightarrow> (\<exists>b. should_forward_rx_payload data = Inr b)"
    by (cases "parse_native_control_frame data"; cases "the (parse_native_control_frame data) = RxAck")
       (auto simp: rx_payload_logs_def should_forward_rx_payload_def split: native_control.splits)
  show "send_ip_reply_logs True data = [] \<longleftrightarrow> (\<exists>reply. parse_send_ip_reply data = Inr reply)"
    by (auto simp: send_ip_reply_logs_def split: sum.splits)
qed

text \<open>
  Every connection attempt of an opening is in the log, under its number, and no other: the lines of the
  attempts are numbered in a row from the first attempt, one for each connection made.
\<close>

definition attempt_line :: "log_entry \<Rightarrow> bool" where
  "attempt_line entry \<longleftrightarrow> starts_with ''debug: opening '' (snd (snd entry))"

lemma attempt_lines [simp]:
  "filter attempt_line (debug_stream_open_attempt debug profile kind phase_text attempt) =
     debug_stream_open_attempt debug profile kind phase_text attempt"
  "filter attempt_line (debug_stream_open_failure debug profile kind phase_text attempt reason) = []"
  "filter attempt_line (debug_tls_summary debug version cipher) = []"
  "filter attempt_line (debug_stream_ack_reply debug profile op reply) = []"
  by (cases profile; simp add: attempt_line_def debug_stream_open_attempt_def debug_stream_open_failure_def debug_line_def
      debug_tls_summary_def debug_stream_ack_reply_def debug_protocol_hex_def starts_with_def)+

lemma open_loop_attempts:
  assumes "\<And>t. vt_connects (snd (f t)) = Suc (vt_connects t)" and "\<And>t. filter attempt_line (logs t) = []"
    and "attempt \<le> Suc STREAM_RETRY_LIMIT"
  shows "\<exists>n. vt_connects (snd (open_loop f profile retry attempt prev t)) = vt_connects t + n \<and>
    attempt + n \<le> Suc STREAM_RETRY_LIMIT \<and>
    filter attempt_line (open_loop_logs True f logs profile kind retry attempt t) =
      concat (map (debug_stream_open_attempt True profile kind (phase retry)) [attempt..<attempt + n])"
  using assms(3)
proof (induction "Suc STREAM_RETRY_LIMIT - attempt" arbitrary: attempt prev t rule: less_induct)
  case less
  show ?case
  proof (cases "attempt \<le> STREAM_RETRY_LIMIT")
    case False
    then show ?thesis using less.prems
      by (intro exI [of _ 0]) (simp add: open_loop.simps [of f] open_loop_logs.simps [of True f])
  next
    case True
    let ?t = "if delay_first_attempt retry \<or> first_attempt retry < attempt
      then t\<lparr>vt_now := vt_now t + STREAM_RETRY_DELAY\<rparr> else t"
    obtain r t' where r: "f ?t = (r, t')" by fastforce
    have c: "vt_connects t' = Suc (vt_connects t)" using assms(1) [of ?t] r by (simp split: if_splits)
    note eqs = open_loop.simps [of f profile retry attempt prev t] open_loop_logs.simps [of True f logs profile kind retry attempt t]
    show ?thesis
    proof (cases "\<exists>e. r = Inl e \<and> \<not> is_fatal e")
      case False
      with True r c show ?thesis
        by (intro exI [of _ 1]) (cases r; simp add: eqs Let_def assms(2))
    next
      case True1: True
      then obtain e where e: "r = Inl e" "\<not> is_fatal e" by blast
      have "STREAM_RETRY_LIMIT - attempt < Suc STREAM_RETRY_LIMIT - attempt" "Suc attempt \<le> Suc STREAM_RETRY_LIMIT"
        using True by auto
      with less.hyps [of "Suc attempt" "Some (concise_error (open_error e))" t'] obtain n where n:
        "vt_connects (snd (open_loop f profile retry (Suc attempt) (Some (concise_error (open_error e))) t')) = vt_connects t' + n"
        "Suc attempt + n \<le> Suc STREAM_RETRY_LIMIT"
        "filter attempt_line (open_loop_logs True f logs profile kind retry (Suc attempt) t') =
          concat (map (debug_stream_open_attempt True profile kind (phase retry)) [Suc attempt..<Suc attempt + n])"
        unfolding diff_Suc_Suc by blast
      have "[attempt..<attempt + Suc n] = attempt # [Suc attempt..<Suc attempt + n]" by (simp add: upt_conv_Cons)
      with n True r c e show ?thesis
        by (intro exI [of _ "Suc n"]) (simp add: eqs Let_def assms(2) del: upt_Suc)
    qed
  qed
qed

lemma open_data_stream_connects:
  "vt_connects (snd (open_data_stream L authority host token ip_rev profile kind t)) = Suc (vt_connects t)"
  by (cases "snd (vl_connect L authority host (vt_connects t))"; cases "vl_connect L authority host (vt_connects t)")
     (auto simp: open_data_stream_def connect_vpn_tls_def try_io_simps split: prod.splits)

lemma opening_log_complete:
  assumes "first_attempt retry \<le> Suc STREAM_RETRY_LIMIT"
  shows "\<exists>n. vt_connects (snd (open_data_stream_with_retries L authority host token ip_rev profile kind retry t)) =
      vt_connects t + n \<and> first_attempt retry + n \<le> Suc STREAM_RETRY_LIMIT \<and>
    filter attempt_line (open_data_stream_with_retries_logs True summary L authority host token ip_rev profile kind retry t) =
      concat (map (debug_stream_open_attempt True profile kind (phase retry))
        [first_attempt retry..<first_attempt retry + n])"
proof -
  have "filter attempt_line (open_data_stream_logs True summary L authority host token ip_rev profile kind t) = []" for t
    by (auto simp: open_data_stream_logs_def handshake_logs_def Let_def split: prod.splits sum.splits)
  from open_loop_attempts [OF open_data_stream_connects this assms] show ?thesis
    by (simp add: open_data_stream_with_retries_def open_data_stream_with_retries_logs_def)
qed

end
