(* ===== verification/Spec2Isabelle.thy ===== *)
theory Spec2Isabelle
  imports Process Cli DebugLog
begin

text \<open>
  \<^bold>\<open>SHIEP-Pipeline-Plus.\<close> The program (two Rust crates, \<^verbatim>\<open>ec-core\<close> and \<^verbatim>\<open>ec-cli\<close>) logs in to an
  EasyConnect VPN server, opens its tunnel, runs a user-space TCP/IP stack over it, and serves a local
  SOCKS5 port: a target that the route table of the server admits goes through the tunnel, any other
  to a fallback proxy or straight out. This development models the code of both crates, translated
  function by function, and proves the properties below. Paths are relative to \<^verbatim>\<open>src/crates/\<close>.

  \<^bold>\<open>How the parts interact.\<close> \<^verbatim>\<open>main\<close> builds a configuration and runs the application: web login, route
  table (or, if it cannot be fetched, the tunnel for everything), agent token, command stream, the two
  data streams with their threads, the network stack, the SOCKS server. A SOCKS client is answered,
  its target planned by the router, and its bytes relayed through the network stack, to the proxy or
  to the target. The network stack exchanges packets with the tunnel threads over channels; any
  thread of the tunnel or the stack that ends records a fatal reason, on which the program exits.

  \<^bold>\<open>Theories, in the order of the imports.\<close>
  \<^item> \<open>Prelude\<close>, \<open>RustStr\<close>, \<open>RustNet\<close>, \<open>Errors\<close>, \<open>Output\<close>: machine integers, byte buffers, Rust strings
    as UTF-8 byte lists, \<^verbatim>\<open>std::net\<close> addresses (with \<^verbatim>\<open>Ord\<close> for \<^verbatim>\<open>Ipv4Addr\<close> as an instance of
    \<open>linorder\<close>), \<^verbatim>\<open>error.rs\<close>, \<^verbatim>\<open>output.rs\<close>. A fallible function returns \<open>ec_error + 'a\<close>; \<open>try_map\<close> is
    \<^verbatim>\<open>map_err(..)?\<close>.
  \<^item> \<open>ProtocolWire\<close>, \<open>RustIO\<close>: the byte layouts of \<^verbatim>\<open>protocol_wire.rs\<close>; sockets as scripts of what their
    reads deliver and how their writes end, with a clock.
  \<^item> \<open>Config\<close>: \<^verbatim>\<open>config.rs\<close> and the arguments of \<^verbatim>\<open>ec-cli/src/main.rs\<close>, with the remembered file.
  \<^item> \<open>Endpoint\<close>, \<open>Tls\<close>, \<open>Login\<close>: \<^verbatim>\<open>endpoint.rs\<close>; \<^verbatim>\<open>tls.rs\<close> and \<^verbatim>\<open>protocol_session.rs\<close>; \<^verbatim>\<open>auth.rs\<close> and
    \<^verbatim>\<open>token.rs\<close>.
  \<^item> \<open>RouteTable\<close>, \<open>Dedup\<close>, \<open>RuleIndex\<close>, \<open>DnsResolver\<close>, \<open>Routing\<close>, \<open>RouteDetails\<close>: \<^verbatim>\<open>route_table.rs\<close>,
    \<^verbatim>\<open>dns_resolver.rs\<close> and \<^verbatim>\<open>routing.rs\<close>. State: the two caches and the query id (\<open>dns_state\<close>), the
    installed mode (\<open>router_state\<close>).
  \<^item> \<open>TunnelOpen\<close>, \<open>TunnelRuntime\<close>, \<open>DebugLog\<close>: \<^verbatim>\<open>protocol.rs\<close>. State: the statics (\<open>tunnel_globals\<close>) and one
    record per thread; the threads interleave as the inductive step relations \<open>worker_step\<close> and
    \<open>tunnel_step\<close>. \<open>DebugLog\<close> holds what a debug build logs on the way.
  \<^item> \<open>Netstack\<close>, \<open>StackInvariant\<close>, \<open>StackStreams\<close>: \<^verbatim>\<open>netstack.rs\<close> and \<^verbatim>\<open>netstack_device.rs\<close>. State: the tables
    of connections and associations, the socket set, the device queue (\<open>netstack\<close>).
  \<^item> \<open>SocksWire\<close>, \<open>SocksProxy\<close>, \<open>Socks\<close>, \<open>SocksServer\<close>: \<^verbatim>\<open>socks_wire.rs\<close>, \<^verbatim>\<open>socks_proxy.rs\<close>, \<^verbatim>\<open>socks.rs\<close>.
  \<^item> \<open>App\<close>, \<open>Cli\<close>: \<^verbatim>\<open>app.rs\<close>, and \<^verbatim>\<open>main\<close> with its arguments, up to the serving state or the exit code.
  \<^item> \<open>Process\<close>: the serving process. Its state (\<open>process\<close>) holds the router, the tunnel's threads and statics,
    the channel of received packets, the forwarding thread of \<^verbatim>\<open>netstack.rs\<close> and the stack's thread; a step
    (\<open>process_step\<close>) is one iteration of a thread or one call of a SOCKS client (\<open>client_call\<close>).

  Definitions have the names of the functions they translate; one that is only a part of a function (a
  loop, a thread, a stage) is named after what it does, and its text says where it belongs.

  \<^bold>\<open>Interfaces.\<close> \<open>ttl_cache\<close> (what a client of a cache may rely on) is interpreted on both DNS caches,
  \<open>dedup_loop\<close> (a loop that keeps first occurrences) on the loops over rules, DNS servers, addresses
  and aliases, \<open>socket_driver\<close> (a loop that drives the owners of sockets and drops the finished ones)
  on TCP connections and UDP associations.

  \<^bold>\<open>What the theorems show.\<close>
  \<^item> The whole program: a run that serves is completely set up, and a missing route table never stops it
    (\<open>App\<close>); the configuration is normal, and remembering works across runs (\<open>Config\<close>).
  \<^item> The serving process, in every interleaving of its threads and clients: the stack keeps running with its
    invariant, only what the table justifies is tunnelled, packets and requests keep their order and none is
    lost, and a thread ends only when the program exits (\<open>Process\<close>).
  \<^item> Security of the login: the password only leaves encrypted; tags and tokens have the shape the next
    stage needs; the foreign TLS session is released once (\<open>Login\<close>, \<open>Tls\<close>).
  \<^item> Routing: the index finds the first matching rule; every plan into the tunnel is justified by a rule
    or an extra address; which address is dialled; DNS answers are believed only from the server that
    was asked; both caches refine an abstract cache (\<open>RuleIndex\<close>, \<open>Routing\<close>, \<open>DnsResolver\<close>).
  \<^item> Tunnel: opening with retries against a reference, acknowledgements, what the receiving worker hands
    on, the schedule of the heartbeats, the first fatal reason wins in every interleaving.
  \<^item> Network stack: its thread never panics or hangs and keeps its invariant; a connection is two byte
    streams over any run.
  \<^item> SOCKS: the handshake in any segmentation, sessions from the first byte to the last, UDP associations
    that serve one client and are released, agreement of the SOCKS5 client with the server.
  \<^item> Wire formats: checksums, round trips, bounds.

  \<^bold>\<open>Bounds and fuel.\<close> Loops over a socket end because every read shortens its script; of the head of
  an HTTP proxy reply at most 16385 bytes are read. Loops that need not end (the workers, the thread of the stack)
  run \<open>n\<close> iterations (\<open>run_loop\<close>), with \<open>None\<close> for a loop still running, and the theorems hold for every
  \<open>n\<close>. Reading a smoltcp socket until it is empty is a \<open>partial_function (option)\<close>; that it ends follows
  from a law of the socket. The ids of connections are 64-bit words and distinct until they wrap; where
  it matters, fewer than \<open>2 ^ 64\<close> opened so far (or steps made, each of which opens at most one) is a
  hypothesis. Times are milliseconds.

  \<^bold>\<open>Parameters.\<close> Third-party code is an argument: smoltcp, hickory's DNS codec, quick-xml, OpenSSL,
  reqwest, RSA, hex and percent encoding, serde_json, the system resolver, and the operating system
  under sockets and files. Their documented behaviour, where a theorem relies on it, is a named
  hypothesis (\<open>hex_encoding\<close>, the laws in \<open>StackInvariant\<close> and \<open>StackStreams\<close>), and a witness gives an
  instance.

  \<^bold>\<open>Not modelled.\<close> The argument parser (clap), the local time and the terminal, the warnings that threads
  log while they run; mutex poisoning, since no code panics while it holds a lock; half-closes of relayed
  sockets. In \<open>Process\<close> a plan of the router is one step, between which its caches may change in any way, and
  what a client does with its own socket is the subject of \<open>SocksServer\<close>. Tests are not translated; many of
  their cases are instances of the theorems.
\<close>

end
